(* ===== verification/Prelude.thy ===== *)
theory Prelude
  imports Main "HOL-Library.Word"
begin

text \<open>
  Shared vocabulary of the development.  A C++ \<open>std::string\<close>, a \<open>char*\<close> buffer and a
  \<open>uint8_t\<close> array are all lists of 8-bit characters, so a \<open>reinterpret_cast\<close> between them is
  the identity.  A \<open>size_t\<close> is a 64-bit word whose arithmetic wraps.  The theory also models
  the pieces of the C++ standard library that several components use: \<open>std::to_string\<close> on
  unsigned integers and \<open>std::filesystem::path\<close> concatenation on POSIX.
\<close>

type_synonym bytes = string
type_synonym size_t = "64 word"

named_theorems frame_simps \<open>what an operation leaves unchanged\<close>
named_theorems codec_intros \<open>decoding what has been encoded\<close>

section \<open>Decimal numerals\<close>

definition digit_char :: "nat \<Rightarrow> char" where
  "digit_char d = char_of (48 + d)"

definition digit_value :: "char \<Rightarrow> nat" where
  "digit_value c = of_char c - 48"

definition is_digit :: "char \<Rightarrow> bool" where
  "is_digit c \<longleftrightarrow> 48 \<le> (of_char c :: nat) \<and> (of_char c :: nat) \<le> 57"

fun digits_of :: "nat \<Rightarrow> string" where
  "digits_of n =
     (if n < 10 then [digit_char n] else digits_of (n div 10) @ [digit_char (n mod 10)])"

declare digits_of.simps [simp del]

definition decimal_value :: "string \<Rightarrow> nat" where
  "decimal_value s = foldl (\<lambda>a c. 10 * a + digit_value c) 0 s"

lemma of_char_digit_char: "d < 10 \<Longrightarrow> of_char (digit_char d) = 48 + d"
  by (simp add: digit_char_def)

lemma digit_value_char [simp]: "d < 10 \<Longrightarrow> digit_value (digit_char d) = d"
  by (simp add: digit_value_def of_char_digit_char)

lemma is_digit_digit_char [simp]: "d < 10 \<Longrightarrow> is_digit (digit_char d)"
  by (simp add: is_digit_def of_char_digit_char)

lemma decimal_value_snoc: "decimal_value (s @ [c]) = 10 * decimal_value s + digit_value c"
  by (simp add: decimal_value_def)

lemma decimal_value_digits_of [simp]: "decimal_value (digits_of n) = n"
proof (induction n rule: digits_of.induct)
  case (1 n)
  show ?case
  proof (cases "n < 10")
    case True
    then show ?thesis by (simp add: digits_of.simps [of n] decimal_value_def)
  next
    case False
    then show ?thesis
      using "1.IH" by (simp add: digits_of.simps [of n] decimal_value_snoc)
  qed
qed

lemma digits_of_all_digits: "c \<in> set (digits_of n) \<Longrightarrow> is_digit c"
proof (induction n rule: digits_of.induct)
  case (1 n)
  then show ?case
    by (cases "n < 10") (auto simp: digits_of.simps [of n])
qed

lemma digits_of_not_Nil [simp]: "digits_of n \<noteq> []"
  by (subst digits_of.simps) simp

lemma digits_of_inject [simp]: "digits_of m = digits_of n \<longleftrightarrow> m = n"
  by (metis decimal_value_digits_of)

text \<open>\<open>std::to_string\<close> on a 64-bit unsigned integer.\<close>

definition to_string :: "size_t \<Rightarrow> string" where
  "to_string n = digits_of (unat n)"

lemma to_string_inject [simp]: "to_string a = to_string b \<longleftrightarrow> a = b"
  by (simp add: to_string_def word_unat_eq_iff)

section \<open>Paths\<close>

text \<open>
  \<open>operator/\<close> of \<open>std::filesystem::path\<close> with a relative right operand: a separator is added
  when the left operand ends in a file name.
\<close>

definition path_append :: "string \<Rightarrow> string \<Rightarrow> string" where
  "path_append dir name =
     (if dir = [] \<or> last dir = CHR ''/'' then dir @ name else dir @ ''/'' @ name)"

lemma path_append_inject [simp]: "path_append dir a = path_append dir b \<longleftrightarrow> a = b"
  by (simp add: path_append_def)

section \<open>Counting through a range of 64-bit words\<close>

lemma unat_word_Suc: "(i :: 'a::len word) < j \<Longrightarrow> unat (i + 1) = Suc (unat i)"
proof -
  assume "i < j"
  then have "unat i < unat j" by (simp add: word_less_nat_alt)
  moreover have "unat j < 2 ^ LENGTH('a)" by simp
  ultimately have "Suc (unat i) < 2 ^ LENGTH('a)" by linarith
  then show ?thesis by (simp add: unat_word_ariths)
qed

section \<open>Lists of options\<close>

lemma those_append:
  "those (xs @ ys) = (case those xs of None \<Rightarrow> None | Some as \<Rightarrow> map_option ((@) as) (those ys))"
proof (induction xs)
  case Nil
  then show ?case by (cases "those ys") auto
next
  case (Cons x xs)
  then show ?case
    by (cases x; cases "those xs"; cases "those ys") auto
qed

lemma those_length: "those xs = Some ys \<Longrightarrow> length ys = length xs"
  by (induction xs arbitrary: ys) (auto split: option.splits)

lemma those_nth: "those xs = Some ys \<Longrightarrow> n < length xs \<Longrightarrow> xs ! n = Some (ys ! n)"
  by (induction xs arbitrary: ys n) (auto split: option.splits simp: nth_Cons' )

end
