(* ===== verification/Build_Config.thy ===== *)
theory Build_Config
  imports Prelude
begin

text \<open>
  Constants of include/Defs.h, with the values the build gives them (cmake/Config.cmake), and the
  database keys of include/Storage/Protocol.h.  The service version and the logger's name, which
  appear only in log lines, are left out.
\<close>

definition DB_VERSION :: size_t where
  "DB_VERSION = 1"

definition MAX_DATA_LENGTH :: nat where
  "MAX_DATA_LENGTH = 8192"

definition NONCE_LENGTH :: nat where
  "NONCE_LENGTH = 8"

definition LOG_MAX_FILE_SIZE :: nat where
  "LOG_MAX_FILE_SIZE = 20000000"

definition LOG_MAX_FILE_COUNT :: nat where
  "LOG_MAX_FILE_COUNT = 20"

definition PASSWORD_SALT :: string where
  "PASSWORD_SALT = ''EMPTY_SALT/''"

definition DB_HEADER_KEY :: string where
  "DB_HEADER_KEY = ''__HEADER''"

definition DB_BLOCK_KEY :: string where
  "DB_BLOCK_KEY = ''__BLOCK/''"

end
