(* ===== verification/Messages.thy ===== *)
theory Messages
  imports Build_Config
begin

text \<open>
  The protocol buffer messages of proto/storage.proto and proto/service.proto.  A scalar field has
  its default when it is absent; a message field is an option, which is what \<open>has_...()\<close> reads.
  The classes protoc generates from these files are not in the repository: serialisation and
  parsing are the record \<open>pb_lib\<close>.
\<close>

section \<open>storage.proto\<close>

record pb_header =
  pbh_version :: size_t
  pbh_index :: size_t
  pbh_data :: bytes
  pbh_private_key :: bytes
  pbh_public_key :: bytes

record pb_block =
  pbb_hash :: bytes
  pbb_prev_hash :: bytes
  pbb_nonce :: bytes
  pbb_data :: bytes
  pbb_signature :: bytes

definition pb_header_default :: pb_header where
  "pb_header_default =
     \<lparr>pbh_version = 0, pbh_index = 0, pbh_data = [], pbh_private_key = [], pbh_public_key = []\<rparr>"

definition pb_block_default :: pb_block where
  "pb_block_default =
     \<lparr>pbb_hash = [], pbb_prev_hash = [], pbb_nonce = [], pbb_data = [], pbb_signature = []\<rparr>"

section \<open>service.proto\<close>

record auth_data =
  password_hash :: bytes

record status_response =
  sr_status :: "32 word"
  sr_message :: string

record chain_data_request =
  cdr_chain_id :: size_t
  cdr_data :: bytes

record chain_request =
  cr_chain_id :: size_t

record get_block_request =
  gbr_chain_id :: size_t
  gbr_block_id :: size_t

record chain_keys =
  ck_private_key :: bytes
  ck_public_key :: bytes

record chain_info =
  ci_chain_id :: size_t
  ci_version :: size_t
  ci_index :: size_t

text \<open>
  \<open>PingRequest\<close> has no field.  \<open>CreateChainRequest\<close> and \<open>AddBlockRequest\<close> have the fields of
  \<open>chain_data_request\<close>, the other requests but \<open>GetBlockRequest\<close> those of \<open>chain_request\<close>.  Of the
  response messages, those with one block, a list of blocks or a header are their contents.
\<close>

record request =
  req_auth_data :: "auth_data option"
  req_ping :: "unit option"
  req_create_chain :: "chain_data_request option"
  req_remove_chain :: "chain_request option"
  req_add_block :: "chain_data_request option"
  req_get_block :: "get_block_request option"
  req_get_blocks :: "chain_request option"
  req_verify_chain :: "chain_request option"
  req_get_chain_header :: "chain_request option"
  req_get_chain_keys :: "chain_request option"
  req_get_chain_info :: "chain_request option"

definition request_default :: request where
  "request_default =
     \<lparr>req_auth_data = None, req_ping = None, req_create_chain = None, req_remove_chain = None,
      req_add_block = None, req_get_block = None, req_get_blocks = None, req_verify_chain = None,
      req_get_chain_header = None, req_get_chain_keys = None, req_get_chain_info = None\<rparr>"

record response =
  resp_status :: "status_response option"
  resp_create_chain :: "status_response option"
  resp_remove_chain :: "status_response option"
  resp_add_block :: "pb_block option option"
  resp_get_block :: "pb_block option option"
  resp_get_blocks :: "pb_block list option"
  resp_verify_chain :: "status_response option"
  resp_get_chain_header :: "pb_header option option"
  resp_get_chain_keys :: "chain_keys option"
  resp_get_chain_info :: "chain_info option"

definition response_default :: response where
  "response_default =
     \<lparr>resp_status = None, resp_create_chain = None, resp_remove_chain = None,
      resp_add_block = None, resp_get_block = None, resp_get_blocks = None,
      resp_verify_chain = None, resp_get_chain_header = None, resp_get_chain_keys = None,
      resp_get_chain_info = None\<rparr>"

section \<open>Serialisation\<close>

record pb_lib =
  header_Serialize :: "pb_header \<Rightarrow> bytes option"
  header_Parse :: "bytes \<Rightarrow> pb_header option"
  block_Serialize :: "pb_block \<Rightarrow> bytes option"
  block_Parse :: "bytes \<Rightarrow> pb_block option"
  request_Serialize :: "request \<Rightarrow> bytes option"
  request_Parse :: "bytes \<Rightarrow> request option"
  response_Serialize :: "response \<Rightarrow> bytes option"
  response_Parse :: "bytes \<Rightarrow> response option"

text \<open>What the code relies on: what has been serialised parses back to the same message.\<close>

definition pb_ok :: "pb_lib \<Rightarrow> bool" where
  "pb_ok P \<longleftrightarrow>
     (\<forall>x b. header_Serialize P x = Some b \<longrightarrow> header_Parse P b = Some x) \<and>
     (\<forall>x b. block_Serialize P x = Some b \<longrightarrow> block_Parse P b = Some x) \<and>
     (\<forall>x b. request_Serialize P x = Some b \<longrightarrow> request_Parse P b = Some x) \<and>
     (\<forall>x b. response_Serialize P x = Some b \<longrightarrow> response_Parse P b = Some x)"

section \<open>Sizes\<close>

text \<open>
  The documentation of protocol buffers limits a serialised message to 2 GB; smaller ones serialise.
  The size of a message is that of its documented encoding: a number takes one byte for every seven
  bits; a field is a tag, here one byte since the field numbers are small, with a number, or with a
  length and that many bytes; a scalar field with its default value and an absent message are left
  out.
\<close>

definition PB_MAX_SIZE :: nat where
  "PB_MAX_SIZE = 2147483647"

fun varint_size :: "nat \<Rightarrow> nat" where
  "varint_size n = (if n < 128 then 1 else Suc (varint_size (n div 128)))"

declare varint_size.simps [simp del]

definition uint_size :: "'a::len word \<Rightarrow> nat" where
  "uint_size x = (if x = 0 then 0 else 1 + varint_size (unat x))"

definition bytes_size :: "bytes \<Rightarrow> nat" where
  "bytes_size b = (if b = [] then 0 else 1 + varint_size (length b) + length b)"

definition part_size :: "nat \<Rightarrow> nat" where
  "part_size n = 1 + varint_size n + n"

definition field_size :: "('a \<Rightarrow> nat) \<Rightarrow> 'a option \<Rightarrow> nat" where
  "field_size f x = (case x of None \<Rightarrow> 0 | Some m \<Rightarrow> part_size (f m))"

definition header_size :: "pb_header \<Rightarrow> nat" where
  "header_size h = uint_size (pbh_version h) + uint_size (pbh_index h) + bytes_size (pbh_data h) +
     bytes_size (pbh_private_key h) + bytes_size (pbh_public_key h)"

definition block_size :: "pb_block \<Rightarrow> nat" where
  "block_size b = bytes_size (pbb_hash b) + bytes_size (pbb_prev_hash b) + bytes_size (pbb_nonce b) +
     bytes_size (pbb_data b) + bytes_size (pbb_signature b)"

definition status_size :: "status_response \<Rightarrow> nat" where
  "status_size s = uint_size (sr_status s) + bytes_size (sr_message s)"

definition chain_data_size :: "chain_data_request \<Rightarrow> nat" where
  "chain_data_size r = uint_size (cdr_chain_id r) + bytes_size (cdr_data r)"

definition chain_size :: "chain_request \<Rightarrow> nat" where
  "chain_size r = uint_size (cr_chain_id r)"

definition request_size :: "request \<Rightarrow> nat" where
  "request_size req =
     field_size (\<lambda>a. bytes_size (password_hash a)) (req_auth_data req) +
     field_size (\<lambda>_. 0) (req_ping req) + field_size chain_data_size (req_create_chain req) +
     field_size chain_size (req_remove_chain req) + field_size chain_data_size (req_add_block req) +
     field_size (\<lambda>r. uint_size (gbr_chain_id r) + uint_size (gbr_block_id r)) (req_get_block req) +
     field_size chain_size (req_get_blocks req) + field_size chain_size (req_verify_chain req) +
     field_size chain_size (req_get_chain_header req) +
     field_size chain_size (req_get_chain_keys req) + field_size chain_size (req_get_chain_info req)"

definition response_size :: "response \<Rightarrow> nat" where
  "response_size resp =
     field_size status_size (resp_status resp) + field_size status_size (resp_create_chain resp) +
     field_size status_size (resp_remove_chain resp) +
     field_size (field_size block_size) (resp_add_block resp) +
     field_size (field_size block_size) (resp_get_block resp) +
     field_size (\<lambda>bs. sum_list (map (part_size \<circ> block_size) bs)) (resp_get_blocks resp) +
     field_size status_size (resp_verify_chain resp) +
     field_size (field_size header_size) (resp_get_chain_header resp) +
     field_size (\<lambda>k. bytes_size (ck_private_key k) + bytes_size (ck_public_key k)) (resp_get_chain_keys resp) +
     field_size (\<lambda>i. uint_size (ci_chain_id i) + uint_size (ci_version i) + uint_size (ci_index i))
       (resp_get_chain_info resp)"

text \<open>The messages of the storage layer, and those of the service; no bytes are a message without fields.\<close>

definition pb_live :: "pb_lib \<Rightarrow> bool" where
  "pb_live P \<longleftrightarrow>
     (\<forall>x. header_size x \<le> PB_MAX_SIZE \<longrightarrow> header_Serialize P x \<noteq> None) \<and>
     (\<forall>x. block_size x \<le> PB_MAX_SIZE \<longrightarrow> block_Serialize P x \<noteq> None)"

definition pb_serves :: "pb_lib \<Rightarrow> bool" where
  "pb_serves P \<longleftrightarrow>
     (\<forall>req. request_size req \<le> PB_MAX_SIZE \<longrightarrow> request_Serialize P req \<noteq> None) \<and>
     (\<forall>resp. response_size resp \<le> PB_MAX_SIZE \<longrightarrow> response_Serialize P resp \<noteq> None) \<and>
     (\<forall>resp. response_Parse P [] = Some resp \<longrightarrow> resp_status resp = None)"

text \<open>Bounds: a number has at most ten bytes, a length below 2 GB at most five.\<close>

lemma varint_size_le: "n < 128 ^ k \<Longrightarrow> 0 < k \<Longrightarrow> varint_size n \<le> k"
proof (induction k arbitrary: n)
  case 0
  then show ?case by simp
next
  case (Suc k)
  show ?case
  proof (cases "n < 128")
    case True
    then show ?thesis by (subst varint_size.simps) simp
  next
    case False
    with Suc.prems(1) have "k \<noteq> 0" by (cases k) auto
    moreover have "n div 128 < 128 ^ k" using Suc.prems(1) by (simp add: less_mult_imp_div_less mult.commute)
    ultimately have "varint_size (n div 128) \<le> k" using Suc.IH by simp
    with False show ?thesis by (subst varint_size.simps) simp
  qed
qed

lemma uint_size_le: "uint_size (x :: 64 word) \<le> 11" "uint_size (y :: 32 word) \<le> 11"
proof -
  have "unat x < 2 ^ 64" "unat y < 2 ^ 32" by (rule unsigned_less [THEN less_le_trans]; simp)+
  then have "varint_size (unat x) \<le> 10" "varint_size (unat y) \<le> 10" by (auto intro!: varint_size_le)
  then show "uint_size x \<le> 11" "uint_size y \<le> 11" by (simp_all add: uint_size_def)
qed

lemma bytes_size_le: "length b \<le> PB_MAX_SIZE \<Longrightarrow> bytes_size b \<le> length b + 6"
  using varint_size_le [of "length b" 5] by (simp add: bytes_size_def PB_MAX_SIZE_def)

lemma part_size_le: "n \<le> PB_MAX_SIZE \<Longrightarrow> part_size n \<le> n + 6"
  using varint_size_le [of n 5] by (simp add: part_size_def PB_MAX_SIZE_def)

lemma field_size_simps [simp]:
  "field_size f None = 0" "field_size f (Some m) = part_size (f m)"
  by (simp_all add: field_size_def)

text \<open>
  A codec: an encoder that may fail and a decoder that undoes it.  The classes of the storage
  layer are two instances.
\<close>

locale codec =
  fixes lawful :: "'e \<Rightarrow> bool"
    and enc :: "'e \<Rightarrow> 'a \<Rightarrow> bytes option"
    and dec :: "'e \<Rightarrow> bytes \<Rightarrow> 'a option"
  assumes dec_enc: "lawful e \<Longrightarrow> enc e x = Some b \<Longrightarrow> dec e b = Some x"
begin

lemma enc_inject: "lawful e \<Longrightarrow> enc e x = Some b \<Longrightarrow> enc e y = Some b \<Longrightarrow> x = y"
  by (metis dec_enc option.inject)

lemma stored: "lawful e \<Longrightarrow> enc e x = Some b \<Longrightarrow> Option.bind ((m(k \<mapsto> b)) k) (dec e) = Some x"
  by (simp add: dec_enc)

lemma stored_elsewhere:
  "k \<noteq> k' \<Longrightarrow> Option.bind ((m(k' \<mapsto> b)) k) (dec e) = Option.bind (m k) (dec e)"
  by simp

end

end
