(* ===== verification/Data_Array.thy ===== *)
theory Data_Array
  imports Prelude
begin

text \<open>
  \<open>Crypto::Data<Size>\<close> (include/Crypto/Data.h): a byte array whose length is part of its type.
  The template parameter is a length type, so \<open>32 data\<close> is \<open>Data<32>\<close>.
\<close>

typedef (overloaded) 'n data = "{bs :: bytes. length bs = LENGTH('n::len)}"
  morphisms data_bytes Abs_data
  by (rule exI [of _ "replicate LENGTH('n) (CHR 0x00)"]) simp

setup_lifting type_definition_data

text \<open>
  The constructor copies \<open>sizeof(_data)\<close> bytes of a C array of exactly that size; the callers
  fill that array with \<open>memcpy\<close> from a buffer whose size they have compared before.  On a
  shorter buffer (which no caller passes) the model pads with zero bytes.
\<close>

lift_definition data_of_bytes :: "bytes \<Rightarrow> 'n::len data" is
  "\<lambda>bs. take LENGTH('n) (bs @ replicate LENGTH('n) (CHR 0x00))"
  by simp

text \<open>The destructor overwrites the buffer, which may have held a private key, with zeros.\<close>

lift_definition data_dtor :: "'n::len data \<Rightarrow> 'n data" is
  "\<lambda>bs. replicate (length bs) (CHR 0x00)"
  by simp

definition data_length :: "'n::len data \<Rightarrow> nat" where
  "data_length d = LENGTH('n)"

lemmas data_eq_iff = data_bytes_inject [symmetric]

lemma length_data_bytes [simp]: "length (data_bytes (d :: 'n::len data)) = LENGTH('n)"
  using data_bytes [of d] by simp

lemma data_dtor_forgets: "data_dtor d = data_dtor e"
  by (simp add: data_eq_iff data_dtor.rep_eq)

lemma data_length_eq: "data_length d = length (data_bytes d)"
  by (simp add: data_length_def)

lemma data_bytes_of_bytes [simp]:
  "length bs = LENGTH('n) \<Longrightarrow> data_bytes (data_of_bytes bs :: 'n::len data) = bs"
  by (simp add: data_of_bytes.rep_eq)

lemma data_of_bytes_bytes [simp]: "data_of_bytes (data_bytes d) = d"
  by (simp add: data_bytes_inject [symmetric])

instantiation data :: (len) equal
begin

definition equal_data :: "'a data \<Rightarrow> 'a data \<Rightarrow> bool" where
  "equal_data a b \<longleftrightarrow> data_bytes a = data_bytes b"

instance
  by standard (simp add: equal_data_def data_eq_iff)

end

text \<open>
  Fixed-width fields in front of a concatenation can be read back: the hash inputs built from
  \<open>Data<Size>\<close> values and one free-length field are unambiguous.
\<close>

lemma data_bytes_append_inject [simp]:
  "data_bytes (a :: 'n::len data) @ xs = data_bytes b @ ys \<longleftrightarrow> a = b \<and> xs = ys"
  by (auto simp: data_eq_iff)

lemma append_data_bytes_inject [simp]:
  "xs @ data_bytes (a :: 'n::len data) = ys @ data_bytes b \<longleftrightarrow> xs = ys \<and> a = b"
  by (auto simp: data_eq_iff)

end
