(* ===== verification/Random_Source.thy ===== *)
theory Random_Source
  imports Data_Array
begin

text \<open>
  \<open>Crypto::Random\<close> (src/Crypto/Random.cpp): a thin wrapper of OpenSSL's random generator.  The
  generator is not part of the repository; it is the record \<open>rand_lib\<close> of functions on the state
  \<open>'w\<close> of the outside world.  A call returns OpenSSL's return code and the contents of the
  output buffer.
\<close>

record 'w rand_lib =
  RAND_status :: "'w \<Rightarrow> int"
  RAND_poll :: "'w \<Rightarrow> int \<times> 'w"
  RAND_bytes :: "nat \<Rightarrow> 'w \<Rightarrow> (int \<times> bytes) \<times> 'w"
  RAND_priv_bytes :: "nat \<Rightarrow> 'w \<Rightarrow> (int \<times> bytes) \<times> 'w"

definition Random_status :: "'w rand_lib \<Rightarrow> 'w \<Rightarrow> bool" where
  "Random_status R w = (RAND_status R w \<noteq> 0)"

definition Random_poll :: "'w rand_lib \<Rightarrow> 'w \<Rightarrow> bool \<times> 'w" where
  "Random_poll R w = (let (code, w') = RAND_poll R w in (code \<noteq> 0, w'))"

text \<open>The result is the returned flag and the output buffer.\<close>

definition Random_random :: "'w rand_lib \<Rightarrow> nat \<Rightarrow> bool \<Rightarrow> 'w \<Rightarrow> (bool \<times> bytes) \<times> 'w" where
  "Random_random R len priv w =
     (if \<not> priv then
        (let ((code, out), w') = RAND_bytes R len w
         in if code \<noteq> 1 then ((False, out), w') else ((True, out), w'))
      else
        (let ((code, out), w') = RAND_priv_bytes R len w
         in if code \<noteq> 1 then ((False, out), w') else ((True, out), w')))"

text \<open>
  What the code relies on: drawing random bytes does not change what \<open>obs\<close> shows of the world
  (the databases), and a successful call has filled the whole buffer.  \<open>rand_live\<close> says that the
  generator is seeded and does not fail.
\<close>

definition rand_ok :: "'w rand_lib \<Rightarrow> ('w \<Rightarrow> 'o) \<Rightarrow> bool" where
  "rand_ok R obs \<longleftrightarrow>
     (\<forall>w. obs (snd (RAND_poll R w)) = obs w) \<and>
     (\<forall>n w. obs (snd (RAND_bytes R n w)) = obs w \<and> obs (snd (RAND_priv_bytes R n w)) = obs w) \<and>
     (\<forall>n w out w'. RAND_bytes R n w = ((1, out), w') \<longrightarrow> length out = n) \<and>
     (\<forall>n w out w'. RAND_priv_bytes R n w = ((1, out), w') \<longrightarrow> length out = n)"

definition rand_live :: "'w rand_lib \<Rightarrow> bool" where
  "rand_live R \<longleftrightarrow>
     (\<forall>n w. fst (fst (RAND_bytes R n w)) = 1 \<and> fst (fst (RAND_priv_bytes R n w)) = 1)"

lemma Random_random_obs:
  "rand_ok R obs \<Longrightarrow> Random_random R n priv w = (r, w') \<Longrightarrow> obs w' = obs w"
  by (auto simp: Random_random_def rand_ok_def split: prod.splits if_splits)
    (metis snd_conv)+

lemma Random_random_length:
  "rand_ok R obs \<Longrightarrow> Random_random R n priv w = ((True, out), w') \<Longrightarrow> length out = n"
  by (auto simp: Random_random_def rand_ok_def split: prod.splits if_splits) blast+

lemma Random_random_live:
  "rand_live R \<Longrightarrow> \<exists>out w'. Random_random R n priv w = ((True, out), w')"
  by (auto simp: Random_random_def rand_live_def split: prod.splits)
    (metis fst_conv)+

end
