(* ===== verification/SHA256.thy ===== *)
theory SHA256
  imports Data_Array
begin

text \<open>
  \<open>Crypto::SHA256\<close> (src/Crypto/SHA256.cpp): hashing a vector of strings with OpenSSL's streaming
  interface, and hashing the digest again.  OpenSSL is the record \<open>sha_lib\<close>; a function that
  returns 0 is \<open>None\<close>, otherwise it returns the new context (or the digest).
\<close>

type_synonym hash = "32 data"

record 'c sha_lib =
  SHA256_Init :: "'c option"
  SHA256_Update :: "'c \<Rightarrow> bytes \<Rightarrow> 'c option"
  SHA256_Final :: "'c \<Rightarrow> hash option"

text \<open>The loop over the input vector.\<close>

fun update_all :: "'c sha_lib \<Rightarrow> 'c \<Rightarrow> bytes list \<Rightarrow> 'c option" where
  "update_all S ctx [] = Some ctx"
| "update_all S ctx (data # input) =
     (case SHA256_Update S ctx data of
        None \<Rightarrow> None
      | Some ctx' \<Rightarrow> update_all S ctx' input)"

definition getHash :: "'c sha_lib \<Rightarrow> bytes list \<Rightarrow> hash option" where
  "getHash S input =
     (case SHA256_Init S of
        None \<Rightarrow> None
      | Some ctx \<Rightarrow>
          (case update_all S ctx input of
             None \<Rightarrow> None
           | Some ctx' \<Rightarrow> SHA256_Final S ctx'))"

text \<open>
  The loop of \<open>getHashN\<close> runs while \<open>i < n - 1\<close> in \<open>size_t\<close>, that is \<open>unat (n - 1)\<close> times: for
  \<open>n = 0\<close> the bound wraps around.
\<close>

fun rehash :: "'c sha_lib \<Rightarrow> nat \<Rightarrow> hash \<Rightarrow> hash option" where
  "rehash S 0 h = Some h"
| "rehash S (Suc k) h =
     (case getHash S [data_bytes h] of
        None \<Rightarrow> None
      | Some h' \<Rightarrow> rehash S k h')"

definition getHashN :: "'c sha_lib \<Rightarrow> bytes list \<Rightarrow> size_t \<Rightarrow> hash option" where
  "getHashN S input n =
     (case getHash S input of
        None \<Rightarrow> None
      | Some h \<Rightarrow> rehash S (unat (n - 1)) h)"

text \<open>
  What the code relies on: a context stands for the bytes absorbed so far, and the digest is a
  function \<open>H\<close> of them (documented behaviour of the streaming interface).  \<open>sha_live\<close> says that no
  call fails.
\<close>

definition sha_ok :: "'c sha_lib \<Rightarrow> (bytes \<Rightarrow> hash) \<Rightarrow> bool" where
  "sha_ok S H \<longleftrightarrow>
     (\<exists>absorbed.
        (\<forall>c. SHA256_Init S = Some c \<longrightarrow> absorbed c = []) \<and>
        (\<forall>c d c'. SHA256_Update S c d = Some c' \<longrightarrow> absorbed c' = absorbed c @ d) \<and>
        (\<forall>c h. SHA256_Final S c = Some h \<longrightarrow> h = H (absorbed c)))"

definition sha_live :: "'c sha_lib \<Rightarrow> bool" where
  "sha_live S \<longleftrightarrow>
     SHA256_Init S \<noteq> None \<and> (\<forall>c d. SHA256_Update S c d \<noteq> None) \<and> (\<forall>c. SHA256_Final S c \<noteq> None)"

lemma update_all_absorbed:
  assumes "\<And>c d c'. SHA256_Update S c d = Some c' \<Longrightarrow> absorbed c' = absorbed c @ d"
    and "update_all S c input = Some c'"
  shows "absorbed c' = absorbed c @ concat input"
  using assms(2)
  by (induction input arbitrary: c) (auto split: option.splits dest: assms(1))

lemma getHash_eq: "sha_ok S H \<Longrightarrow> getHash S input = Some h \<Longrightarrow> h = H (concat input)"
  by (auto simp: sha_ok_def getHash_def split: option.splits)
    (metis append_Nil update_all_absorbed)

lemma update_all_live: "sha_live S \<Longrightarrow> update_all S c input \<noteq> None"
  by (induction input arbitrary: c) (auto simp: sha_live_def split: option.splits)

lemma getHash_live: "sha_live S \<Longrightarrow> getHash S input \<noteq> None"
  by (auto simp: getHash_def dest: update_all_live split: option.splits)
    (auto simp: sha_live_def)

lemma getHash_total:
  "sha_ok S H \<Longrightarrow> sha_live S \<Longrightarrow> getHash S input = Some (H (concat input))"
  using getHash_live getHash_eq by fastforce

lemma rehash_eq:
  "sha_ok S H \<Longrightarrow> rehash S k h = Some h' \<Longrightarrow> h' = ((\<lambda>x. H (data_bytes x)) ^^ k) h"
proof (induction k arbitrary: h)
  case 0
  then show ?case by simp
next
  case (Suc k)
  then obtain g where "getHash S [data_bytes h] = Some g" and "rehash S k g = Some h'"
    by (auto split: option.splits)
  with Suc show ?case
    by (auto simp: funpow_Suc_right simp del: funpow.simps dest: getHash_eq)
qed

lemma rehash_live: "sha_live S \<Longrightarrow> rehash S k h \<noteq> None"
  by (induction k arbitrary: h) (auto split: option.splits dest: getHash_live)

lemma getHashN_two:
  "sha_ok S H \<Longrightarrow> getHashN S input 2 = Some h \<Longrightarrow> h = H (data_bytes (H (concat input)))"
  using getHash_eq [of S H] by (fastforce simp: getHashN_def numeral_2_eq_2 split: option.splits)

lemma getHashN_live: "sha_live S \<Longrightarrow> getHashN S input n \<noteq> None"
  using getHash_live [of S input] rehash_live [of S]
  by (auto simp: getHashN_def split: option.splits)

lemma getHashN_total:
  "sha_ok S H \<Longrightarrow> sha_live S \<Longrightarrow> getHashN S input 2 = Some (H (data_bytes (H (concat input))))"
  using getHashN_live getHashN_two by fastforce

end
