(* ===== verification/ECDSA.thy ===== *)
theory ECDSA
  imports Random_Source SHA256
begin

text \<open>
  \<open>Crypto::Secp256k1\<close> (src/Crypto/ECDSA.cpp): keys and signatures over libsecp256k1, which is the
  record \<open>ec_lib\<close>.  Its context object carries no state the code observes, so it is left out; the
  opaque \<open>secp256k1_pubkey\<close> and \<open>secp256k1_ecdsa_signature\<close> are the types \<open>'pk\<close> and \<open>'sg\<close>; a
  function that returns 0 is \<open>None\<close> or \<open>False\<close>.
\<close>

type_synonym private_key = "32 data"
type_synonym public_key = "33 data"
type_synonym signature = "64 data"

record ('pk, 'sg) ec_lib =
  ec_seckey_verify :: "private_key \<Rightarrow> bool"
  ec_pubkey_create :: "private_key \<Rightarrow> 'pk option"
  ec_pubkey_serialize :: "'pk \<Rightarrow> public_key option"
  ec_pubkey_parse :: "public_key \<Rightarrow> 'pk option"
  ecdsa_sign :: "hash \<Rightarrow> private_key \<Rightarrow> 'sg option"
  ecdsa_signature_serialize_compact :: "'sg \<Rightarrow> signature option"
  ecdsa_signature_parse_compact :: "signature \<Rightarrow> 'sg option"
  ecdsa_verify :: "'sg \<Rightarrow> hash \<Rightarrow> 'pk \<Rightarrow> bool"

definition generatePrivateKey ::
  "'w rand_lib \<Rightarrow> ('pk, 'sg) ec_lib \<Rightarrow> 'w \<Rightarrow> private_key option \<times> 'w" where
  "generatePrivateKey R E w =
     (let ((ok, out), w') = Random_random R 32 True w;
          data = data_of_bytes out
      in if \<not> ok then (None, w')
         else if \<not> ec_seckey_verify E data then (None, w')
         else (Some data, w'))"

definition createPublicKey :: "('pk, 'sg) ec_lib \<Rightarrow> private_key \<Rightarrow> public_key option" where
  "createPublicKey E privateKey =
     (case ec_pubkey_create E privateKey of
        None \<Rightarrow> None
      | Some publicKey \<Rightarrow> ec_pubkey_serialize E publicKey)"

definition getSignature :: "('pk, 'sg) ec_lib \<Rightarrow> hash \<Rightarrow> private_key \<Rightarrow> signature option" where
  "getSignature E h privateKey =
     (case ecdsa_sign E h privateKey of
        None \<Rightarrow> None
      | Some sg \<Rightarrow> ecdsa_signature_serialize_compact E sg)"

text \<open>
  The hash is a shared pointer that is read only in the last step.  The result \<open>None\<close> is the null
  dereference, which happens when both parse steps succeed and the pointer is null.
\<close>

definition verifySignature ::
  "('pk, 'sg) ec_lib \<Rightarrow> hash option \<Rightarrow> public_key \<Rightarrow> signature \<Rightarrow> bool option" where
  "verifySignature E h publicKey signature =
     (case ec_pubkey_parse E publicKey of
        None \<Rightarrow> Some False
      | Some pubKey \<Rightarrow>
          (case ecdsa_signature_parse_compact E signature of
             None \<Rightarrow> Some False
           | Some sign \<Rightarrow>
               (case h of
                  None \<Rightarrow> None
                | Some d \<Rightarrow> Some (ecdsa_verify E sign d pubKey))))"

text \<open>
  What the code relies on: serialised keys and signatures parse back, and a signature made with a
  private key verifies under its public key.  \<open>ec_live\<close>: the operations succeed on valid keys, and
  every string of 32 random bytes is a valid key up to a negligible fraction; the completeness
  theorems ask for it of the key that was drawn.
\<close>

definition ec_ok :: "('pk, 'sg) ec_lib \<Rightarrow> bool" where
  "ec_ok E \<longleftrightarrow>
     (\<forall>P b. ec_pubkey_serialize E P = Some b \<longrightarrow> ec_pubkey_parse E b = Some P) \<and>
     (\<forall>s b. ecdsa_signature_serialize_compact E s = Some b \<longrightarrow>
        ecdsa_signature_parse_compact E b = Some s) \<and>
     (\<forall>sk P h s. ec_pubkey_create E sk = Some P \<longrightarrow> ecdsa_sign E h sk = Some s \<longrightarrow>
        ecdsa_verify E s h P)"

definition ec_live :: "('pk, 'sg) ec_lib \<Rightarrow> bool" where
  "ec_live E \<longleftrightarrow>
     (\<forall>sk. ec_seckey_verify E sk \<longrightarrow>
        createPublicKey E sk \<noteq> None \<and> (\<forall>h. getSignature E h sk \<noteq> None))"

lemma verify_getSignature:
  assumes "ec_ok E" and "createPublicKey E sk = Some pub" and "getSignature E h sk = Some s"
  shows "verifySignature E (Some h) pub s = Some True"
  using assms
  by (auto simp: ec_ok_def createPublicKey_def getSignature_def verifySignature_def
      split: option.splits)

lemma verifySignature_Some:
  "h \<noteq> None \<Longrightarrow> \<exists>b. verifySignature E h pub s = Some b"
  by (auto simp: verifySignature_def split: option.splits)

lemma generatePrivateKey_obs:
  "rand_ok R obs \<Longrightarrow> generatePrivateKey R E w = (r, w') \<Longrightarrow> obs w' = obs w"
  by (auto simp: generatePrivateKey_def Let_def split: prod.splits if_splits
      dest: Random_random_obs)

lemma generatePrivateKey_valid:
  "generatePrivateKey R E w = (Some sk, w') \<Longrightarrow> ec_seckey_verify E sk"
  by (auto simp: generatePrivateKey_def Let_def split: prod.splits if_splits)

end
