(* ===== verification/Block.thy ===== *)
theory Block
  imports Messages ECDSA
begin

text \<open>
  \<open>Storage::Block\<close> and its \<open>Container\<close> (src/Storage/Block.cpp): the contents of a block, their
  encoding as a protocol buffer message and the generation of nonces.  A container's pointers are
  never null (every caller checks them before), so its fields are the arrays themselves.
\<close>

type_synonym nonce = "8 data"

lemma nonce_length: "data_length (n :: nonce) = NONCE_LENGTH"
  by (simp add: data_length_eq NONCE_LENGTH_def)

record container =
  c_hash :: hash
  c_prevHash :: hash
  c_nonce :: nonce
  c_data :: bytes
  c_signature :: signature

record block =
  block_data :: container

definition block_new :: "container \<Rightarrow> block" where
  "block_new c = \<lparr>block_data = c\<rparr>"

definition block_text :: "block \<Rightarrow> bytes" where
  "block_text b = c_data (block_data b)"

definition Container_pack :: "pb_lib \<Rightarrow> container \<Rightarrow> bytes option" where
  "Container_pack P container =
     block_Serialize P
       (pb_block_default
          \<lparr>pbb_hash := data_bytes (c_hash container),
           pbb_prev_hash := data_bytes (c_prevHash container),
           pbb_nonce := data_bytes (c_nonce container),
           pbb_data := c_data container,
           pbb_signature := data_bytes (c_signature container)\<rparr>)"

definition Container_unpack :: "pb_lib \<Rightarrow> bytes \<Rightarrow> container option" where
  "Container_unpack P inbuf =
     (case block_Parse P inbuf of
        None \<Rightarrow> None
      | Some data \<Rightarrow>
          if length (pbb_hash data) \<noteq> 32 then None
          else let hash = data_of_bytes (pbb_hash data) in
          if length (pbb_prev_hash data) \<noteq> 32 then None
          else let prevHash = data_of_bytes (pbb_prev_hash data) in
          if length (pbb_nonce data) \<noteq> 8 then None
          else let nonce = data_of_bytes (pbb_nonce data) in
          if length (pbb_signature data) \<noteq> 64 then None
          else let signature = data_of_bytes (pbb_signature data) in
          Some \<lparr>c_hash = hash, c_prevHash = prevHash, c_nonce = nonce, c_data = pbb_data data,
                c_signature = signature\<rparr>)"

definition generateNonce :: "'w rand_lib \<Rightarrow> 'w \<Rightarrow> nonce option \<times> 'w" where
  "generateNonce R w =
     (let ((ok, out), w') = Random_random R 8 False w
      in if \<not> ok then (None, w') else (Some (data_of_bytes out), w'))"

interpretation block_codec: codec pb_ok Container_pack Container_unpack
  by unfold_locales
    (auto simp: pb_ok_def Container_pack_def Container_unpack_def pb_block_default_def Let_def)

lemma Container_unpack_sizes:
  "Container_unpack P b = Some c \<Longrightarrow>
    \<exists>m. block_Parse P b = Some m \<and> pbb_hash m = data_bytes (c_hash c) \<and>
      pbb_prev_hash m = data_bytes (c_prevHash c) \<and> pbb_nonce m = data_bytes (c_nonce c) \<and>
      pbb_data m = c_data c \<and> pbb_signature m = data_bytes (c_signature c)"
  by (auto simp: Container_unpack_def Let_def split: option.splits if_splits)

lemma Container_pack_live:
  assumes "pb_live P" and "length (c_data c) \<le> MAX_DATA_LENGTH"
  shows "\<exists>b. Container_pack P c = Some b"
proof -
  have "bytes_size (c_data c) \<le> length (c_data c) + 6"
    using assms(2) by (intro bytes_size_le) (simp add: MAX_DATA_LENGTH_def PB_MAX_SIZE_def)
  moreover have "bytes_size (data_bytes (c_hash c)) \<le> 38" "bytes_size (data_bytes (c_prevHash c)) \<le> 38"
    "bytes_size (data_bytes (c_nonce c)) \<le> 14" "bytes_size (data_bytes (c_signature c)) \<le> 70"
    using bytes_size_le [of "data_bytes (c_hash c)"] bytes_size_le [of "data_bytes (c_prevHash c)"]
      bytes_size_le [of "data_bytes (c_nonce c)"] bytes_size_le [of "data_bytes (c_signature c)"]
    by (simp_all add: PB_MAX_SIZE_def)
  ultimately show ?thesis
    using assms by (auto simp: pb_live_def Container_pack_def pb_block_default_def block_size_def
        MAX_DATA_LENGTH_def PB_MAX_SIZE_def)
qed

lemma generateNonce_obs:
  "rand_ok R obs \<Longrightarrow> generateNonce R w = (r, w') \<Longrightarrow> obs w' = obs w"
  by (auto simp: generateNonce_def Let_def split: prod.splits if_splits dest: Random_random_obs)

lemma generateNonce_live: "rand_live R \<Longrightarrow> \<exists>n w'. generateNonce R w = (Some n, w')"
  using Random_random_live [of R 8 False w] by (auto simp: generateNonce_def)

end
