(* ===== verification/Storage.thy ===== *)
theory Storage
  imports Data_Array
begin

text \<open>
  \<open>Storage::Storage\<close> (src/Storage/Storage.cpp): a wrapper of a LevelDB or RocksDB database.  The
  database library is the record \<open>db_lib\<close> of functions on the state \<open>'w\<close> of the outside world;
  \<open>'h\<close> is its handle type (\<open>DB::DB*\<close>).  \<open>db_ok\<close> and \<open>db_live\<close> state the documented behaviour of
  that library through a view of the world: what is on disk under a path and which handles are
  open.  The last section states the interface the chain relies on as the locale \<open>kv_session\<close>
  and discharges it for the modelled class.
\<close>

section \<open>The database library\<close>

datatype compression_type = NoCompression | SnappyCompression

record db_options =
  create_if_missing :: bool
  error_if_exists :: bool
  paranoid_checks :: bool
  compression :: compression_type

definition default_options :: db_options where
  "default_options =
     \<lparr>create_if_missing = False, error_if_exists = False, paranoid_checks = False,
      compression = SnappyCompression\<rparr>"

text \<open>
  \<open>db_Open\<close> returns the handle when the status is ok.  The first argument of \<open>db_Get\<close> is
  \<open>ReadOptions::verify_checksums\<close>, that of \<open>db_Write\<close> is \<open>WriteOptions::sync\<close>; a write batch of
  \<open>Put\<close> calls is the list of its pairs.  \<open>db_delete\<close> is \<open>delete _db\<close>.
\<close>

record ('w, 'h) db_lib =
  db_Open :: "db_options \<Rightarrow> string \<Rightarrow> 'w \<Rightarrow> 'h option \<times> 'w"
  db_Get :: "bool \<Rightarrow> 'h \<Rightarrow> bytes \<Rightarrow> 'w \<Rightarrow> bytes option \<times> 'w"
  db_Write :: "bool \<Rightarrow> 'h \<Rightarrow> (bytes \<times> bytes) list \<Rightarrow> 'w \<Rightarrow> bool \<times> 'w"
  db_delete :: "'h \<Rightarrow> 'w \<Rightarrow> 'w"
  db_DestroyDB :: "string \<Rightarrow> db_options \<Rightarrow> 'w \<Rightarrow> bool \<times> 'w"

section \<open>The class\<close>

record key_value =
  kv_key :: bytes
  kv_value :: bytes

record 'h storage =
  st_path :: string
  st_db :: "'h option"

definition Storage_new :: "string \<Rightarrow> 'h storage" where
  "Storage_new path = \<lparr>st_path = path, st_db = None\<rparr>"

definition Storage_dtor :: "('w, 'h) db_lib \<Rightarrow> 'h storage \<Rightarrow> 'w \<Rightarrow> 'w" where
  "Storage_dtor D st w = (case st_db st of None \<Rightarrow> w | Some h \<Rightarrow> db_delete D h w)"

text \<open>\<open>DB::Open\<close> stores its handle in \<open>_db\<close>, a null pointer when it fails.\<close>

definition Storage_create :: "('w, 'h) db_lib \<Rightarrow> 'h storage \<Rightarrow> 'w \<Rightarrow> bool \<times> 'h storage \<times> 'w" where
  "Storage_create D st w =
     (if st_db st \<noteq> None then (False, st, w)
      else
        let options = default_options
              \<lparr>create_if_missing := True, error_if_exists := True, paranoid_checks := True,
               compression := NoCompression\<rparr>;
            (db, w') = db_Open D options (st_path st) w;
            st' = st\<lparr>st_db := db\<rparr>
        in if db = None then (False, st', w') else (True, st', w'))"

definition Storage_open :: "('w, 'h) db_lib \<Rightarrow> 'h storage \<Rightarrow> 'w \<Rightarrow> bool \<times> 'h storage \<times> 'w" where
  "Storage_open D st w =
     (if st_db st \<noteq> None then (False, st, w)
      else
        let options = default_options\<lparr>paranoid_checks := True, compression := NoCompression\<rparr>;
            (db, w') = db_Open D options (st_path st) w;
            st' = st\<lparr>st_db := db\<rparr>
        in if db = None then (False, st', w') else (True, st', w'))"

definition Storage_close :: "('w, 'h) db_lib \<Rightarrow> 'h storage \<Rightarrow> 'w \<Rightarrow> bool \<times> 'h storage \<times> 'w" where
  "Storage_close D st w =
     (case st_db st of
        None \<Rightarrow> (False, st, w)
      | Some h \<Rightarrow> (True, st\<lparr>st_db := None\<rparr>, db_delete D h w))"

definition Storage_get ::
  "('w, 'h) db_lib \<Rightarrow> 'h storage \<Rightarrow> bytes \<Rightarrow> 'w \<Rightarrow> key_value option \<times> 'w" where
  "Storage_get D st key w =
     (case st_db st of
        None \<Rightarrow> (None, w)
      | Some h \<Rightarrow>
          (case db_Get D True h key w of
             (None, w') \<Rightarrow> (None, w')
           | (Some value, w') \<Rightarrow> (Some \<lparr>kv_key = key, kv_value = value\<rparr>, w')))"

definition Storage_set ::
  "('w, 'h) db_lib \<Rightarrow> 'h storage \<Rightarrow> key_value list \<Rightarrow> 'w \<Rightarrow> bool \<times> 'w" where
  "Storage_set D st pairs w =
     (case st_db st of
        None \<Rightarrow> (False, w)
      | Some h \<Rightarrow>
          let batch = map (\<lambda>pair. (kv_key pair, kv_value pair)) pairs;
              (ok, w') = db_Write D True h batch w
          in if \<not> ok then (False, w') else (True, w'))"

definition Storage_remove :: "('w, 'h) db_lib \<Rightarrow> 'h storage \<Rightarrow> 'w \<Rightarrow> bool \<times> 'w" where
  "Storage_remove D st w =
     (let (ok, w') = db_DestroyDB D (st_path st) default_options w
      in if \<not> ok then (False, w') else (True, w'))"

text \<open>
  A local variable \<open>Storage storage(path)\<close> is destroyed on every path out of its scope:
  \<open>scoped_storage\<close> runs the statements after the declaration and then the destructor.
\<close>

definition scoped_storage ::
  "('w, 'h) db_lib \<Rightarrow> string \<Rightarrow> ('h storage \<Rightarrow> 'w \<Rightarrow> 'r \<times> 'h storage \<times> 'w) \<Rightarrow> 'w \<Rightarrow> 'r \<times> 'w" where
  "scoped_storage D path body w =
     (let (r, st, w') = body (Storage_new path) w in (r, Storage_dtor D st w'))"

section \<open>What the code relies on\<close>

type_synonym kv_map = "bytes \<rightharpoonup> bytes"

record ('w, 'h) db_view =
  disk :: "'w \<Rightarrow> string \<Rightarrow> kv_map option"
  handles :: "'w \<Rightarrow> 'h \<Rightarrow> string option"

text \<open>The effect of a write batch: its puts in order.\<close>

definition apply_puts :: "(bytes \<times> bytes) list \<Rightarrow> kv_map \<Rightarrow> kv_map" where
  "apply_puts batch m = foldl (\<lambda>m (k, v). m(k \<mapsto> v)) m batch"

text \<open>
  A database is locked while it is open.  Opening an existing one leaves its contents alone,
  opening a missing one creates an empty one if that is asked for; a failed attempt to create may
  leave an empty database behind.
\<close>

definition open_ok :: "('w, 'h) db_lib \<Rightarrow> ('w, 'h) db_view \<Rightarrow> bool" where
  "open_ok D V \<longleftrightarrow>
     (\<forall>opt p w r w'. db_Open D opt p w = (r, w') \<longrightarrow>
        (\<forall>q. q \<noteq> p \<longrightarrow> disk V w' q = disk V w q) \<and>
        (case r of
           Some h \<Rightarrow>
             handles V w h = None \<and> p \<notin> ran (handles V w) \<and>
             handles V w' = (handles V w)(h \<mapsto> p) \<and>
             (case disk V w p of
                None \<Rightarrow> create_if_missing opt \<and> disk V w' p = Some Map.empty
              | Some m \<Rightarrow> \<not> error_if_exists opt \<and> disk V w' p = Some m)
         | None \<Rightarrow>
             handles V w' = handles V w \<and>
             (disk V w' p = disk V w p \<or>
              create_if_missing opt \<and> disk V w p = None \<and> disk V w' p = Some Map.empty)))"

text \<open>A read may fail; with checksum verification a value that is returned is the stored one.\<close>

definition get_ok :: "('w, 'h) db_lib \<Rightarrow> ('w, 'h) db_view \<Rightarrow> bool" where
  "get_ok D V \<longleftrightarrow>
     (\<forall>c h k w r w'. db_Get D c h k w = (r, w') \<longrightarrow>
        disk V w' = disk V w \<and> handles V w' = handles V w \<and>
        (\<forall>p v. c \<and> handles V w h = Some p \<and> r = Some v \<longrightarrow>
           (\<exists>m. disk V w p = Some m \<and> m k = Some v)))"

text \<open>
  A synchronous write batch is atomic: when it succeeds all of it is on disk, when it fails all or
  nothing of it is.
\<close>

definition write_ok :: "('w, 'h) db_lib \<Rightarrow> ('w, 'h) db_view \<Rightarrow> bool" where
  "write_ok D V \<longleftrightarrow>
     (\<forall>h batch w r w' p m.
        db_Write D True h batch w = (r, w') \<and> handles V w h = Some p \<and> disk V w p = Some m \<longrightarrow>
        handles V w' = handles V w \<and>
        (\<forall>q. q \<noteq> p \<longrightarrow> disk V w' q = disk V w q) \<and>
        (disk V w' p = Some (apply_puts batch m) \<or> \<not> r \<and> disk V w' p = Some m))"

definition delete_ok :: "('w, 'h) db_lib \<Rightarrow> ('w, 'h) db_view \<Rightarrow> bool" where
  "delete_ok D V \<longleftrightarrow>
     (\<forall>h w. disk V (db_delete D h w) = disk V w \<and>
        handles V (db_delete D h w) = (handles V w)(h := None))"

definition destroy_ok :: "('w, 'h) db_lib \<Rightarrow> ('w, 'h) db_view \<Rightarrow> bool" where
  "destroy_ok D V \<longleftrightarrow>
     (\<forall>p opt w r w'. db_DestroyDB D p opt w = (r, w') \<longrightarrow>
        handles V w' = handles V w \<and>
        (\<forall>q. q \<noteq> p \<longrightarrow> disk V w' q = disk V w q) \<and>
        (r \<longrightarrow> disk V w' p = None))"

definition db_ok :: "('w, 'h) db_lib \<Rightarrow> ('w, 'h) db_view \<Rightarrow> bool" where
  "db_ok D V \<longleftrightarrow> open_ok D V \<and> get_ok D V \<and> write_ok D V \<and> delete_ok D V \<and> destroy_ok D V"

text \<open>No input/output faults: whatever can succeed does.\<close>

definition db_live :: "('w, 'h) db_lib \<Rightarrow> ('w, 'h) db_view \<Rightarrow> bool" where
  "db_live D V \<longleftrightarrow>
     (\<forall>opt p w. p \<notin> ran (handles V w) \<and>
        (case disk V w p of None \<Rightarrow> create_if_missing opt | Some _ \<Rightarrow> \<not> error_if_exists opt) \<longrightarrow>
        fst (db_Open D opt p w) \<noteq> None) \<and>
     (\<forall>c h k w p m v. handles V w h = Some p \<and> disk V w p = Some m \<and> m k = Some v \<longrightarrow>
        fst (db_Get D c h k w) = Some v) \<and>
     (\<forall>h batch w p m. handles V w h = Some p \<and> disk V w p = Some m \<longrightarrow>
        fst (db_Write D True h batch w)) \<and>
     (\<forall>p opt w. p \<notin> ran (handles V w) \<longrightarrow> fst (db_DestroyDB D p opt w))"

section \<open>Basic facts\<close>

lemma st_path_new [simp]: "st_path (Storage_new p) = p" "st_db (Storage_new p) = None"
  by (simp_all add: Storage_new_def)

lemma apply_puts_Nil [simp]: "apply_puts [] m = m"
  by (simp add: apply_puts_def)

lemma apply_puts_Cons [simp]: "apply_puts ((k, v) # b) m = apply_puts b (m(k \<mapsto> v))"
  by (simp add: apply_puts_def)

lemma apply_puts_other: "k \<notin> fst ` set b \<Longrightarrow> apply_puts b m k = m k"
  by (induction b arbitrary: m) auto

section \<open>Sessions\<close>

text \<open>
  A session is the life of a local \<open>Storage\<close> object that has been opened on \<open>p\<close> in the world
  \<open>w0\<close>: its handle is the only one opened since, only the database \<open>p\<close> may have changed, and its
  contents are \<open>m\<close>.  \<open>undisturbed\<close> is the frame of a finished operation on \<open>p\<close>.
\<close>

definition undisturbed :: "('w, 'h) db_view \<Rightarrow> string \<Rightarrow> 'w \<Rightarrow> 'w \<Rightarrow> bool" where
  "undisturbed V p w0 w \<longleftrightarrow>
     handles V w = handles V w0 \<and> (\<forall>q. q \<noteq> p \<longrightarrow> disk V w q = disk V w0 q)"

definition session ::
  "('w, 'h) db_view \<Rightarrow> string \<Rightarrow> 'w \<Rightarrow> 'h storage \<Rightarrow> 'w \<Rightarrow> kv_map \<Rightarrow> bool" where
  "session V p w0 st w m \<longleftrightarrow>
     (\<exists>h. st_db st = Some h \<and> handles V w0 h = None \<and> handles V w = (handles V w0)(h \<mapsto> p)) \<and>
     disk V w p = Some m \<and> (\<forall>q. q \<noteq> p \<longrightarrow> disk V w q = disk V w0 q)"

lemma undisturbed_refl [simp]: "undisturbed V p w w"
  by (simp add: undisturbed_def)

lemma undisturbed_trans:
  "undisturbed V p w0 w1 \<Longrightarrow> undisturbed V p w1 w2 \<Longrightarrow> undisturbed V p w0 w2"
  by (simp add: undisturbed_def)

lemma undisturbed_disk: "undisturbed V p w0 w \<Longrightarrow> q \<noteq> p \<Longrightarrow> disk V w q = disk V w0 q"
  by (simp add: undisturbed_def)

lemma undisturbed_handles: "undisturbed V p w0 w \<Longrightarrow> handles V w = handles V w0"
  by (simp add: undisturbed_def)

lemma session_disk: "session V p w0 st w m \<Longrightarrow> disk V w p = Some m"
  by (simp add: session_def)

text \<open>The laws of the library in the form the proofs use.\<close>

lemma db_okD:
  "db_ok D V \<Longrightarrow> open_ok D V" "db_ok D V \<Longrightarrow> get_ok D V" "db_ok D V \<Longrightarrow> write_ok D V"
  "db_ok D V \<Longrightarrow> delete_ok D V" "db_ok D V \<Longrightarrow> destroy_ok D V"
  by (simp_all add: db_ok_def)

lemma open_Some:
  assumes "open_ok D V" and "db_Open D opt p w = (Some h, w')"
  shows "handles V w h = None" and "handles V w' = (handles V w)(h \<mapsto> p)"
    and "q \<noteq> p \<Longrightarrow> disk V w' q = disk V w q"
    and "disk V w p = None \<Longrightarrow> create_if_missing opt \<and> disk V w' p = Some Map.empty"
    and "disk V w p = Some m \<Longrightarrow> \<not> error_if_exists opt \<and> disk V w' p = Some m"
  using assms(1) [unfolded open_ok_def, rule_format, OF assms(2)]
  by (auto split: option.splits)

lemma open_None:
  assumes "open_ok D V" and "db_Open D opt p w = (None, w')"
  shows "undisturbed V p w w'"
    and "disk V w' p = disk V w p \<or>
      create_if_missing opt \<and> disk V w p = None \<and> disk V w' p = Some Map.empty"
  using assms(1) [unfolded open_ok_def, rule_format, OF assms(2)]
  by (auto simp: undisturbed_def)

lemma Storage_open_session:
  assumes "db_ok D V" and "Storage_open D (Storage_new p) w = (True, st, w')"
  shows "\<exists>m. disk V w p = Some m \<and> session V p w st w' m"
proof -
  obtain h opt where o: "db_Open D opt p w = (Some h, w')" "\<not> create_if_missing opt"
    and st: "st_db st = Some h"
    using assms(2)
    by (auto simp: Storage_open_def Let_def default_options_def split: prod.splits if_splits)
  note f = open_Some [OF db_okD(1) [OF assms(1)] o(1)]
  show ?thesis
  proof (cases "disk V w p")
    case None
    with f(4) o(2) show ?thesis by simp
  next
    case (Some m)
    with f st show ?thesis by (auto simp: session_def)
  qed
qed

lemma Storage_open_failed:
  assumes "db_ok D V" and "Storage_open D (Storage_new p) w = (False, st, w')"
  shows "undisturbed V p w w'" and "disk V w' = disk V w" and "st_db st = None"
proof -
  obtain opt where o: "db_Open D opt p w = (None, w')" "\<not> create_if_missing opt"
    and st: "st_db st = None"
    using assms(2)
    by (auto simp: Storage_open_def Let_def default_options_def split: prod.splits if_splits)
  from open_None [OF db_okD(1) [OF assms(1)] o(1)] o(2)
  show "undisturbed V p w w'" and "disk V w' = disk V w"
    by (auto simp: undisturbed_def fun_eq_iff)
  show "st_db st = None" by (rule st)
qed

lemma Storage_create_session:
  assumes "db_ok D V" and "Storage_create D (Storage_new p) w = (True, st, w')"
  shows "disk V w p = None" and "session V p w st w' Map.empty"
proof -
  obtain h opt where o: "db_Open D opt p w = (Some h, w')" "error_if_exists opt"
    and st: "st_db st = Some h"
    using assms(2)
    by (auto simp: Storage_create_def Let_def default_options_def split: prod.splits if_splits)
  note f = open_Some [OF db_okD(1) [OF assms(1)] o(1)]
  show n: "disk V w p = None"
    using f(5) o(2) by (cases "disk V w p") auto
  show "session V p w st w' Map.empty"
    using f(1-4) n st by (auto simp: session_def)
qed

lemma Storage_create_failed:
  assumes "db_ok D V" and "Storage_create D (Storage_new p) w = (False, st, w')"
  shows "undisturbed V p w w'" and "st_db st = None"
    and "disk V w' p = disk V w p \<or> disk V w p = None \<and> disk V w' p = Some Map.empty"
proof -
  obtain opt where o: "db_Open D opt p w = (None, w')" and st: "st_db st = None"
    using assms(2)
    by (auto simp: Storage_create_def Let_def split: prod.splits if_splits)
  from open_None [OF db_okD(1) [OF assms(1)] o]
  show "undisturbed V p w w'"
    and "disk V w' p = disk V w p \<or> disk V w p = None \<and> disk V w' p = Some Map.empty"
    by auto
  show "st_db st = None" by (rule st)
qed

lemma Storage_get_session:
  assumes "db_ok D V" and s: "session V p w0 st w m" and "Storage_get D st k w = (r, w')"
  shows "session V p w0 st w' m" and "r = Some kv \<Longrightarrow> m k = Some (kv_value kv)"
proof -
  from s obtain h where h: "st_db st = Some h" "handles V w h = Some p"
    by (auto simp: session_def)
  obtain v where g: "db_Get D True h k w = (v, w')"
    and r: "r = map_option (\<lambda>x. \<lparr>kv_key = k, kv_value = x\<rparr>) v"
    using assms(3) h(1) by (auto simp: Storage_get_def split: prod.splits option.splits)
  from assms(1) have "get_ok D V" by (rule db_okD)
  note f = this [unfolded get_ok_def, rule_format, OF g]
  show "session V p w0 st w' m"
    using s f by (simp add: session_def)
  show "r = Some kv \<Longrightarrow> m k = Some (kv_value kv)"
    using f h(2) session_disk [OF s] r by auto
qed

lemma Storage_set_session:
  assumes "db_ok D V" and s: "session V p w0 st w m" and "Storage_set D st kvs w = (r, w')"
  shows "session V p w0 st w' (apply_puts (map (\<lambda>kv. (kv_key kv, kv_value kv)) kvs) m) \<or>
    \<not> r \<and> session V p w0 st w' m"
proof -
  from s obtain h where h: "st_db st = Some h" "handles V w h = Some p"
    by (auto simp: session_def)
  have g: "db_Write D True h (map (\<lambda>kv. (kv_key kv, kv_value kv)) kvs) w = (r, w')"
    using assms(3) h(1)
    by (auto simp: Storage_set_def Let_def split: prod.splits option.splits if_splits)
  from assms(1) have "write_ok D V" by (rule db_okD)
  from this [unfolded write_ok_def, rule_format, OF conjI [OF g conjI [OF h(2) session_disk [OF s]]]]
  show ?thesis
    using s by (auto simp: session_def)
qed

lemma Storage_dtor_session:
  assumes "db_ok D V" and "session V p w0 st w m"
  shows "undisturbed V p w0 (Storage_dtor D st w)" and "disk V (Storage_dtor D st w) = disk V w"
proof -
  from assms(2) obtain h where h: "st_db st = Some h" "handles V w0 h = None"
    "handles V w = (handles V w0)(h \<mapsto> p)"
    by (auto simp: session_def)
  from assms(1) have "delete_ok D V" by (rule db_okD)
  then have f: "disk V (Storage_dtor D st w) = disk V w"
    "handles V (Storage_dtor D st w) = (handles V w)(h := None)"
    using h(1) by (auto simp: Storage_dtor_def delete_ok_def)
  show "disk V (Storage_dtor D st w) = disk V w" by (rule f)
  show "undisturbed V p w0 (Storage_dtor D st w)"
    using f h assms(2) by (auto simp: undisturbed_def session_def fun_eq_iff)
qed

lemma Storage_dtor_closed [simp]: "st_db st = None \<Longrightarrow> Storage_dtor D st w = w"
  by (simp add: Storage_dtor_def)

lemma Storage_remove_effect:
  assumes "db_ok D V" and "Storage_remove D st w = (r, w')"
  shows "undisturbed V (st_path st) w w'" and "r \<Longrightarrow> disk V w' (st_path st) = None"
proof -
  have g: "db_DestroyDB D (st_path st) default_options w = (r, w')"
    using assms(2) by (auto simp: Storage_remove_def Let_def split: prod.splits if_splits)
  from assms(1) have "destroy_ok D V" by (rule db_okD)
  from this [unfolded destroy_ok_def, rule_format, OF g]
  show "undisturbed V (st_path st) w w'" and "r \<Longrightarrow> disk V w' (st_path st) = None"
    by (auto simp: undisturbed_def)
qed

text \<open>An operation that has finished without any effect on the databases.\<close>

definition unchanged :: "('w, 'h) db_view \<Rightarrow> 'w \<Rightarrow> 'w \<Rightarrow> bool" where
  "unchanged V w0 w \<longleftrightarrow> handles V w = handles V w0 \<and> disk V w = disk V w0"

lemma unchangedI: "undisturbed V p w0 w \<Longrightarrow> disk V w p = disk V w0 p \<Longrightarrow> unchanged V w0 w"
  by (auto simp: unchanged_def undisturbed_def fun_eq_iff)

lemma unchanged_refl [simp]: "unchanged V w w"
  by (simp add: unchanged_def)

lemma unchanged_trans: "unchanged V w0 w1 \<Longrightarrow> unchanged V w1 w2 \<Longrightarrow> unchanged V w0 w2"
  by (simp add: unchanged_def)

lemma unchanged_undisturbed: "unchanged V w0 w \<Longrightarrow> undisturbed V p w0 w"
  by (simp add: unchanged_def undisturbed_def)

lemma unchanged_disk: "unchanged V w0 w \<Longrightarrow> disk V w = disk V w0"
  by (simp add: unchanged_def)

lemma unchanged_handles: "unchanged V w0 w \<Longrightarrow> handles V w = handles V w0"
  by (simp add: unchanged_def)

lemma obs_unchanged: "(disk V w, handles V w) = (disk V w0, handles V w0) \<Longrightarrow> unchanged V w0 w"
  by (simp add: unchanged_def)

text \<open>
  The two ways through an operation that opens its database first: the open fails and nothing has
  changed, or the body runs in a session and its object is destroyed.
\<close>

lemma scoped_open_cases:
  assumes "db_ok D V"
    and "scoped_storage D p (\<lambda>st w. let (ok, st, w) = Storage_open D st w
           in if \<not> ok then (x, st, w) else body st w) w = (r, w')"
  obtains (failed) "r = x" "unchanged V w w'"
  | (opened) m st w1 st2 w2 where "disk V w p = Some m" "session V p w st w1 m"
      "body st w1 = (r, st2, w2)" "w' = Storage_dtor D st2 w2"
proof -
  obtain ok st w1 where o: "Storage_open D (Storage_new p) w = (ok, st, w1)"
    by (cases "Storage_open D (Storage_new p) w") auto
  show thesis
  proof (cases ok)
    case True
    with o have "Storage_open D (Storage_new p) w = (True, st, w1)" by simp
    from Storage_open_session [OF assms(1) this] obtain m where "disk V w p = Some m"
      and "session V p w st w1 m" by blast
    moreover obtain r' st2 w2 where "body st w1 = (r', st2, w2)"
      by (cases "body st w1") auto
    ultimately show thesis
      using opened assms(2) o True by (simp add: scoped_storage_def)
  next
    case False
    with o have "Storage_open D (Storage_new p) w = (False, st, w1)" by simp
    note f = Storage_open_failed [OF assms(1) this]
    have "r = x" and "w' = w1"
      using assms(2) o False f(3) by (simp_all add: scoped_storage_def)
    moreover from f have "unchanged V w w1" by (auto intro: unchangedI)
    ultimately show thesis using failed by simp
  qed
qed

text \<open>
  A storage object guards its database handle.  A second \<open>create\<close> or \<open>open\<close> is refused and
  keeps the handle; \<open>get\<close>, \<open>set\<close> and \<open>close\<close> without an open database fail and do nothing; after
  \<open>close\<close> or a failed \<open>open\<close> the destructor has nothing to release.
\<close>

lemma storage_guards_handle:
  "(st_db st \<noteq> None \<longrightarrow> Storage_create D st w = (False, st, w) \<and> Storage_open D st w = (False, st, w)) \<and>
   (st_db st = None \<longrightarrow>
      Storage_get D st k w = (None, w) \<and> Storage_set D st kvs w = (False, w) \<and>
      Storage_close D st w = (False, st, w) \<and> Storage_dtor D st w = w) \<and>
   (\<forall>st' w'. Storage_close D st w = (True, st', w') \<longrightarrow> st_db st' = None \<and> w' = Storage_dtor D st w) \<and>
   (\<forall>st' w'. Storage_open D st w = (False, st', w') \<and> st_db st = None \<longrightarrow> st_db st' = None)"
  by (auto simp: Storage_create_def Storage_open_def Storage_get_def Storage_set_def
      Storage_close_def Storage_dtor_def Let_def split: option.splits prod.splits if_splits)

section \<open>Progress without faults\<close>

lemma Storage_open_live:
  assumes "db_live D V" and "p \<notin> ran (handles V w)" and "disk V w p = Some m"
  shows "\<exists>st w'. Storage_open D (Storage_new p) w = (True, st, w')"
proof -
  let ?opt = "default_options\<lparr>paranoid_checks := True, compression := NoCompression\<rparr>"
  have "fst (db_Open D ?opt p w) \<noteq> None"
    using assms by (simp add: db_live_def default_options_def)
  then show ?thesis
    by (cases "db_Open D ?opt p w") (auto simp: Storage_open_def)
qed

lemma Storage_create_live:
  assumes "db_live D V" and "p \<notin> ran (handles V w)" and "disk V w p = None"
  shows "\<exists>st w'. Storage_create D (Storage_new p) w = (True, st, w')"
proof -
  let ?opt = "default_options\<lparr>create_if_missing := True, error_if_exists := True,
    paranoid_checks := True, compression := NoCompression\<rparr>"
  have "fst (db_Open D ?opt p w) \<noteq> None"
    using assms by (simp add: db_live_def default_options_def)
  then show ?thesis
    by (cases "db_Open D ?opt p w") (auto simp: Storage_create_def)
qed

lemma session_handle:
  "session V p w0 st w m \<Longrightarrow> \<exists>h. st_db st = Some h \<and> handles V w h = Some p"
  by (auto simp: session_def)

lemma Storage_get_live:
  assumes "db_live D V" and s: "session V p w0 st w m" and "m k = Some v"
  shows "\<exists>w'. Storage_get D st k w = (Some \<lparr>kv_key = k, kv_value = v\<rparr>, w')"
proof -
  from session_handle [OF s] obtain h where h: "st_db st = Some h" "handles V w h = Some p"
    by blast
  have "fst (db_Get D True h k w) = Some v"
    using assms(1,3) h(2) session_disk [OF s] by (simp add: db_live_def)
  then show ?thesis
    using h(1) by (cases "db_Get D True h k w") (simp add: Storage_get_def)
qed

lemma Storage_set_live:
  assumes "db_live D V" and s: "session V p w0 st w m"
  shows "\<exists>w'. Storage_set D st kvs w = (True, w')"
proof -
  from session_handle [OF s] obtain h where h: "st_db st = Some h" "handles V w h = Some p"
    by blast
  have "fst (db_Write D True h b w)" for b
    using assms(1) h(2) session_disk [OF s] by (simp add: db_live_def)
  then show ?thesis
    using h(1) by (auto simp: Storage_set_def Let_def split: prod.splits) (metis fst_conv)
qed

lemma Storage_remove_live:
  "db_live D V \<Longrightarrow> st_path st \<notin> ran (handles V w) \<Longrightarrow> \<exists>w'. Storage_remove D st w = (True, w')"
  by (auto simp: Storage_remove_def db_live_def Let_def split: prod.splits) (metis fst_conv)

section \<open>The interface of the chain to its storage\<close>

text \<open>
  What a client may rely on while it holds a storage object: \<open>sess V p w0 s w m\<close> says that \<open>s\<close>,
  opened on \<open>p\<close> in the world \<open>w0\<close>, shows the contents \<open>m\<close> in the world \<open>w\<close>.
\<close>

locale kv_session =
  fixes lawful :: "'d \<Rightarrow> 'v \<Rightarrow> bool"
    and content :: "'v \<Rightarrow> 'w \<Rightarrow> string \<Rightarrow> kv_map option"
    and frame :: "'v \<Rightarrow> string \<Rightarrow> 'w \<Rightarrow> 'w \<Rightarrow> bool"
    and sess :: "'v \<Rightarrow> string \<Rightarrow> 'w \<Rightarrow> 's \<Rightarrow> 'w \<Rightarrow> kv_map \<Rightarrow> bool"
    and get :: "'d \<Rightarrow> 's \<Rightarrow> bytes \<Rightarrow> 'w \<Rightarrow> key_value option \<times> 'w"
    and set_all :: "'d \<Rightarrow> 's \<Rightarrow> key_value list \<Rightarrow> 'w \<Rightarrow> bool \<times> 'w"
    and dtor :: "'d \<Rightarrow> 's \<Rightarrow> 'w \<Rightarrow> 'w"
  assumes sess_content: "sess V p w0 s w m \<Longrightarrow> content V w p = Some m"
    and get_keeps: "lawful D V \<Longrightarrow> sess V p w0 s w m \<Longrightarrow> get D s k w = (r, w') \<Longrightarrow> sess V p w0 s w' m"
    and get_sound: "lawful D V \<Longrightarrow> sess V p w0 s w m \<Longrightarrow> get D s k w = (Some kv, w') \<Longrightarrow>
      m k = Some (kv_value kv)"
    and set_atomic: "lawful D V \<Longrightarrow> sess V p w0 s w m \<Longrightarrow> set_all D s kvs w = (ok, w') \<Longrightarrow>
      sess V p w0 s w' (apply_puts (map (\<lambda>kv. (kv_key kv, kv_value kv)) kvs) m) \<or>
      \<not> ok \<and> sess V p w0 s w' m"
    and dtor_frame: "lawful D V \<Longrightarrow> sess V p w0 s w m \<Longrightarrow> frame V p w0 (dtor D s w)"
    and dtor_content: "lawful D V \<Longrightarrow> sess V p w0 s w m \<Longrightarrow> content V (dtor D s w) = content V w"
begin

lemma finish:
  "lawful D V \<Longrightarrow> sess V p w0 s w m \<Longrightarrow>
    frame V p w0 (dtor D s w) \<and> content V (dtor D s w) p = Some m"
  using dtor_frame dtor_content sess_content by metis

lemma read_finish:
  assumes "lawful D V" and "sess V p w0 s w m" and "get D s k w = (r, w')"
  shows "frame V p w0 (dtor D s w') \<and> content V (dtor D s w') p = Some m"
  using finish [OF assms(1) get_keeps [OF assms]] .

lemma write_finish:
  assumes "lawful D V" and "sess V p w0 s w m" and "set_all D s kvs w = (r, w')"
  shows "frame V p w0 (dtor D s w')"
    and "content V (dtor D s w') p =
        Some (apply_puts (map (\<lambda>kv. (kv_key kv, kv_value kv)) kvs) m) \<or>
      \<not> r \<and> content V (dtor D s w') p = Some m"
  using set_atomic [OF assms] finish [OF assms(1)] by blast+

lemma read_your_write:
  assumes "lawful D V" and "sess V p w0 s w m" and "set_all D s kvs w = (True, w1)"
    and "get D s k w1 = (Some kv, w2)"
  shows "apply_puts (map (\<lambda>kv. (kv_key kv, kv_value kv)) kvs) m k = Some (kv_value kv)"
  using set_atomic [OF assms(1-3)] get_sound [OF assms(1) _ assms(4)] by blast

end

interpretation kv: kv_session db_ok disk undisturbed session Storage_get Storage_set Storage_dtor
  by unfold_locales
    (blast intro: session_disk Storage_get_session Storage_set_session Storage_dtor_session
      dest: Storage_set_session)+

end
