(* ===== verification/Chain.thy ===== *)
theory Chain
  imports Block Storage
begin

text \<open>
  \<open>Storage::Chain\<close> and its \<open>Header\<close> (src/Storage/Chain.cpp): one database per chain, holding a
  header under \<open>__HEADER\<close> and the block number \<open>i\<close> under \<open>__BLOCK/i\<close>.  The first part translates
  the class; the second states what a database means (\<open>ledger\<close>, the header and its blocks) and
  shows what each operation does to the databases, input/output faults included.
\<close>

section \<open>The header\<close>

record header =
  hdr_version :: size_t
  hdr_index :: size_t
  hdr_data :: bytes
  hdr_privateKey :: private_key
  hdr_publicKey :: public_key

text \<open>The constructor without an index.\<close>

definition header_new :: "size_t \<Rightarrow> bytes \<Rightarrow> private_key \<Rightarrow> public_key \<Rightarrow> header" where
  "header_new version data privateKey publicKey =
     \<lparr>hdr_version = version, hdr_index = 0, hdr_data = data, hdr_privateKey = privateKey,
      hdr_publicKey = publicKey\<rparr>"

definition Header_pack :: "pb_lib \<Rightarrow> header \<Rightarrow> bytes option" where
  "Header_pack P header =
     header_Serialize P
       (pb_header_default
          \<lparr>pbh_version := hdr_version header,
           pbh_index := hdr_index header,
           pbh_data := hdr_data header,
           pbh_private_key := data_bytes (hdr_privateKey header),
           pbh_public_key := data_bytes (hdr_publicKey header)\<rparr>)"

definition Header_unpack :: "pb_lib \<Rightarrow> bytes \<Rightarrow> header option" where
  "Header_unpack P inbuf =
     (case header_Parse P inbuf of
        None \<Rightarrow> None
      | Some data \<Rightarrow>
          if length (pbh_private_key data) \<noteq> 32 then None
          else let privateKey = data_of_bytes (pbh_private_key data) in
          if length (pbh_public_key data) \<noteq> 33 then None
          else let publicKey = data_of_bytes (pbh_public_key data) in
          Some \<lparr>hdr_version = pbh_version data, hdr_index = pbh_index data,
                hdr_data = pbh_data data, hdr_privateKey = privateKey,
                hdr_publicKey = publicKey\<rparr>)"

interpretation header_codec: codec pb_ok Header_pack Header_unpack
  by unfold_locales
    (auto simp: pb_ok_def Header_pack_def Header_unpack_def pb_header_default_def Let_def)

section \<open>The chain\<close>

record chain =
  chain_path :: string

definition makeBlockName :: "size_t \<Rightarrow> bytes" where
  "makeBlockName index = DB_BLOCK_KEY @ to_string index"

definition Chain_create ::
  "pb_lib \<Rightarrow> ('w, 'h) db_lib \<Rightarrow> chain \<Rightarrow> bytes \<Rightarrow> private_key \<Rightarrow> public_key \<Rightarrow> 'w \<Rightarrow> bool \<times> 'w" where
  "Chain_create P D c data privateKey publicKey w =
     (let header = header_new DB_VERSION data privateKey publicKey in
      case Header_pack P header of
        None \<Rightarrow> (False, w)
      | Some buffer \<Rightarrow>
          scoped_storage D (chain_path c)
            (\<lambda>st w.
               let (ok, st, w) = Storage_create D st w in
               if \<not> ok then (False, st, w)
               else
                 let (ok, w) = Storage_set D st [\<lparr>kv_key = DB_HEADER_KEY, kv_value = buffer\<rparr>] w in
                 if \<not> ok then (False, st, w) else (True, st, w)) w)"

text \<open>The private overload of \<open>getHeader\<close>, on an open storage: it checks the version.\<close>

definition Chain_getHeader_in ::
  "pb_lib \<Rightarrow> ('w, 'h) db_lib \<Rightarrow> 'h storage \<Rightarrow> 'w \<Rightarrow> header option \<times> 'w" where
  "Chain_getHeader_in P D st w =
     (case Storage_get D st DB_HEADER_KEY w of
        (None, w) \<Rightarrow> (None, w)
      | (Some value, w) \<Rightarrow>
          (case Header_unpack P (kv_value value) of
             None \<Rightarrow> (None, w)
           | Some header \<Rightarrow>
               if hdr_version header \<noteq> DB_VERSION then (None, w) else (Some header, w)))"

text \<open>The public overload: it opens the database itself and does not check the version.\<close>

definition Chain_getHeader ::
  "pb_lib \<Rightarrow> ('w, 'h) db_lib \<Rightarrow> chain \<Rightarrow> 'w \<Rightarrow> header option \<times> 'w" where
  "Chain_getHeader P D c w =
     scoped_storage D (chain_path c)
       (\<lambda>st w.
          let (ok, st, w) = Storage_open D st w in
          if \<not> ok then (None, st, w)
          else
            case Storage_get D st DB_HEADER_KEY w of
              (None, w) \<Rightarrow> (None, st, w)
            | (Some value, w) \<Rightarrow> (Header_unpack P (kv_value value), st, w)) w"

definition Chain_addBlock ::
  "pb_lib \<Rightarrow> ('w, 'h) db_lib \<Rightarrow> chain \<Rightarrow> block \<Rightarrow> 'w \<Rightarrow> bool \<times> 'w" where
  "Chain_addBlock P D c block w =
     scoped_storage D (chain_path c)
       (\<lambda>st w.
          let (ok, st, w) = Storage_open D st w in
          if \<not> ok then (False, st, w)
          else
            case Chain_getHeader_in P D st w of
              (None, w) \<Rightarrow> (False, st, w)
            | (Some header, w) \<Rightarrow>
                let header = header\<lparr>hdr_index := hdr_index header + 1\<rparr> in
                case Header_pack P header of
                  None \<Rightarrow> (False, st, w)
                | Some headerData \<Rightarrow>
                    (case Container_pack P (block_data block) of
                       None \<Rightarrow> (False, st, w)
                     | Some blockData \<Rightarrow>
                         let (ok, w) = Storage_set D st
                               [\<lparr>kv_key = DB_HEADER_KEY, kv_value = headerData\<rparr>,
                                \<lparr>kv_key = makeBlockName (hdr_index header), kv_value = blockData\<rparr>] w
                         in if \<not> ok then (False, st, w) else (True, st, w))) w"

definition Chain_getBlock ::
  "pb_lib \<Rightarrow> ('w, 'h) db_lib \<Rightarrow> chain \<Rightarrow> size_t \<Rightarrow> 'w \<Rightarrow> block option \<times> 'w" where
  "Chain_getBlock P D c index w =
     scoped_storage D (chain_path c)
       (\<lambda>st w.
          let (ok, st, w) = Storage_open D st w in
          if \<not> ok then (None, st, w)
          else
            case Chain_getHeader_in P D st w of
              (None, w) \<Rightarrow> (None, st, w)
            | (Some header, w) \<Rightarrow>
                if index = 0 \<or> hdr_index header < index then (None, st, w)
                else
                  case Storage_get D st (makeBlockName index) w of
                    (None, w) \<Rightarrow> (None, st, w)
                  | (Some data, w) \<Rightarrow>
                      (case Container_unpack P (kv_value data) of
                         None \<Rightarrow> (None, st, w)
                       | Some container \<Rightarrow> (Some (block_new container), st, w))) w"

text \<open>
  The loop of \<open>getBlocks\<close>, over the out parameter \<open>blocks\<close>.  Its counter is a \<open>size_t\<close>, so with
  the last index \<open>2^64 - 1\<close> the loop condition never fails: the result is an option, \<open>None\<close> for a
  loop that does not end.
\<close>

partial_function (option) getBlocks_loop ::
  "pb_lib \<Rightarrow> ('w, 'h) db_lib \<Rightarrow> 'h storage \<Rightarrow> size_t \<Rightarrow> size_t \<Rightarrow> block list \<Rightarrow> 'w
     \<Rightarrow> (bool \<times> block list \<times> 'w) option" where
  "getBlocks_loop L D st bound i blocks w =
     (if i \<le> bound then
        (case Storage_get D st (makeBlockName i) w of
           (None, w) \<Rightarrow> Some (False, blocks, w)
         | (Some value, w) \<Rightarrow>
             (case Container_unpack L (kv_value value) of
                None \<Rightarrow> Some (False, blocks, w)
              | Some container \<Rightarrow>
                  getBlocks_loop L D st bound (i + 1) (blocks @ [block_new container]) w))
      else Some (True, blocks, w))"

text \<open>
  The scope of the local \<open>Storage\<close> object is written out, because the body may not return.
\<close>

definition Chain_getBlocks ::
  "pb_lib \<Rightarrow> ('w, 'h) db_lib \<Rightarrow> chain \<Rightarrow> block list \<Rightarrow> 'w \<Rightarrow> (bool \<times> block list \<times> 'w) option" where
  "Chain_getBlocks P D c blocks w =
     (let (ok, st, w) = Storage_open D (Storage_new (chain_path c)) w in
      if \<not> ok then Some (False, blocks, Storage_dtor D st w)
      else
        case Chain_getHeader_in P D st w of
          (None, w) \<Rightarrow> Some (False, blocks, Storage_dtor D st w)
        | (Some header, w) \<Rightarrow>
            (case getBlocks_loop P D st (hdr_index header) 1 blocks w of
               None \<Rightarrow> None
             | Some (r, blocks, w) \<Rightarrow> Some (r, blocks, Storage_dtor D st w)))"

definition Chain_remove :: "('w, 'h) db_lib \<Rightarrow> chain \<Rightarrow> 'w \<Rightarrow> bool \<times> 'w" where
  "Chain_remove D c w =
     scoped_storage D (chain_path c) (\<lambda>st w. let (ok, w) = Storage_remove D st w in (ok, st, w)) w"

section \<open>What a database means\<close>

definition stored_header :: "pb_lib \<Rightarrow> kv_map \<Rightarrow> header option" where
  "stored_header P m = Option.bind (m DB_HEADER_KEY) (Header_unpack P)"

definition stored_block :: "pb_lib \<Rightarrow> kv_map \<Rightarrow> size_t \<Rightarrow> block option" where
  "stored_block P m i = map_option block_new (Option.bind (m (makeBlockName i)) (Container_unpack P))"

definition stored_blocks :: "pb_lib \<Rightarrow> kv_map \<Rightarrow> nat \<Rightarrow> nat \<Rightarrow> block list option" where
  "stored_blocks P m i n = those (map (\<lambda>k. stored_block P m (of_nat k)) [i ..< n])"

text \<open>The abstract state of a chain: a supported header and as many blocks as it counts.\<close>

definition ledger :: "pb_lib \<Rightarrow> kv_map \<Rightarrow> (header \<times> block list) option" where
  "ledger P m =
     (case stored_header P m of
        None \<Rightarrow> None
      | Some h \<Rightarrow>
          if hdr_version h \<noteq> DB_VERSION then None
          else map_option (Pair h) (stored_blocks P m 1 (Suc (unat (hdr_index h)))))"

lemma makeBlockName_inject [simp]: "makeBlockName i = makeBlockName j \<longleftrightarrow> i = j"
  by (simp add: makeBlockName_def)

lemma makeBlockName_not_header [simp]:
  "makeBlockName i \<noteq> DB_HEADER_KEY" "DB_HEADER_KEY \<noteq> makeBlockName i"
  by (simp_all add: makeBlockName_def DB_BLOCK_KEY_def DB_HEADER_KEY_def)

section \<open>Effects on the databases\<close>

lemma Chain_getHeader_in_session:
  assumes "db_ok D V" and "session V p w0 st w m" and "Chain_getHeader_in P D st w = (r, w')"
  shows "session V p w0 st w' m"
    and "r = Some h \<Longrightarrow> stored_header P m = Some h \<and> hdr_version h = DB_VERSION"
proof -
  obtain v where g: "Storage_get D st DB_HEADER_KEY w = (v, w')"
    using assms(3) by (auto simp: Chain_getHeader_in_def split: prod.splits option.splits if_splits)
  show "session V p w0 st w' m" by (rule kv.get_keeps [OF assms(1,2) g])
  show "stored_header P m = Some h \<and> hdr_version h = DB_VERSION" if "r = Some h"
  proof -
    from that assms(3) g obtain x where "v = Some x" "Header_unpack P (kv_value x) = Some h"
      "hdr_version h = DB_VERSION"
      by (auto simp: Chain_getHeader_in_def split: prod.splits option.splits if_splits)
    with kv.get_sound [OF assms(1,2)] g show ?thesis by (auto simp: stored_header_def)
  qed
qed

lemma Chain_getHeader_effect:
  assumes "db_ok D V" and "Chain_getHeader P D c w = (r, w')"
  shows "unchanged V w w'"
    and "r = Some h \<Longrightarrow> \<exists>m. disk V w (chain_path c) = Some m \<and> stored_header P m = Some h"
proof -
  have "unchanged V w w' \<and>
    (r = Some h \<longrightarrow> (\<exists>m. disk V w (chain_path c) = Some m \<and> stored_header P m = Some h))" for h
    using assms unfolding Chain_getHeader_def
  proof (cases rule: scoped_open_cases)
    case failed
    then show ?thesis by simp
  next
    case (opened m st w1 st2 w2)
    obtain v where g: "Storage_get D st DB_HEADER_KEY w1 = (v, w2)" and [simp]: "st2 = st"
      and r: "r = Option.bind v (\<lambda>kv. Header_unpack P (kv_value kv))"
      using opened(3) by (auto split: prod.splits option.splits)
    from kv.read_finish [OF assms(1) opened(2) g] opened(1,4)
    have "unchanged V w w'" by (auto intro: unchangedI)
    moreover have "stored_header P m = Some h" if "r = Some h"
      using that r kv.get_sound [OF assms(1) opened(2)] g
      by (cases v) (auto simp: stored_header_def)
    ultimately show ?thesis using opened(1) by blast
  qed
  then show "unchanged V w w'"
    and "r = Some h \<Longrightarrow> \<exists>m. disk V w (chain_path c) = Some m \<and> stored_header P m = Some h"
    by blast+
qed

text \<open>
  Adding a block is one batch: either the database has the new header and the new block, or
  nothing has changed; only the first can be reported as success.
\<close>

definition appended :: "pb_lib \<Rightarrow> block \<Rightarrow> kv_map \<Rightarrow> kv_map \<Rightarrow> bool" where
  "appended P b m m' \<longleftrightarrow>
     (\<exists>h hb bb. stored_header P m = Some h \<and> hdr_version h = DB_VERSION \<and>
        Header_pack P (h\<lparr>hdr_index := hdr_index h + 1\<rparr>) = Some hb \<and>
        Container_pack P (block_data b) = Some bb \<and>
        m' = m(DB_HEADER_KEY \<mapsto> hb, makeBlockName (hdr_index h + 1) \<mapsto> bb))"

lemma Chain_addBlock_effect:
  assumes "db_ok D V" and "Chain_addBlock P D c b w = (r, w')"
  shows "(\<exists>m m'. disk V w (chain_path c) = Some m \<and> disk V w' (chain_path c) = Some m' \<and>
           undisturbed V (chain_path c) w w' \<and> appended P b m m') \<or>
         \<not> r \<and> unchanged V w w'"
  using assms unfolding Chain_addBlock_def
proof (cases rule: scoped_open_cases)
  case failed
  then show ?thesis by simp
next
  case (opened m st w1 st2 w2)
  obtain ho w3 where gh: "Chain_getHeader_in P D st w1 = (ho, w3)"
    by (cases "Chain_getHeader_in P D st w1")
  note s = Chain_getHeader_in_session [OF assms(1) opened(2) gh]
  show ?thesis
  proof (cases "\<exists>h hb bb. ho = Some h \<and> Container_pack P (block_data b) = Some bb \<and>
      Header_pack P (h\<lparr>hdr_index := hdr_index h + 1\<rparr>) = Some hb")
    case False
    then have "\<not> r" and "w' = Storage_dtor D st w3"
      using opened(3,4) gh by (auto simp: Let_def split: option.splits)
    with kv.finish [OF assms(1) s(1)] opened(1) show ?thesis
      by (auto intro: unchangedI)
  next
    case True
    then obtain h hb bb where f: "ho = Some h"
      "Header_pack P (h\<lparr>hdr_index := hdr_index h + 1\<rparr>) = Some hb"
      "Container_pack P (block_data b) = Some bb" by blast
    have set: "Storage_set D st [\<lparr>kv_key = DB_HEADER_KEY, kv_value = hb\<rparr>,
         \<lparr>kv_key = makeBlockName (hdr_index h + 1), kv_value = bb\<rparr>] w3 = (r, w2)" "st2 = st"
      using opened(3) gh f by (auto split: prod.splits if_splits)
    note fin = kv.write_finish [OF assms(1) s(1) set(1), simplified]
    have w': "w' = Storage_dtor D st w2" using opened(4) set(2) by simp
    have "appended P b m (m(DB_HEADER_KEY \<mapsto> hb, makeBlockName (hdr_index h + 1) \<mapsto> bb))"
      using s(2) [OF f(1)] f(2,3) by (auto simp: appended_def)
    with fin opened(1) show ?thesis
      unfolding w' by (metis unchangedI)
  qed
qed

lemma Chain_create_effect:
  assumes db: "db_ok D V" and c: "Chain_create P D c data priv pub w = (r, w')"
  shows "undisturbed V (chain_path c) w w'"
    and "r \<Longrightarrow> disk V w (chain_path c) = None \<and>
      (\<exists>b. Header_pack P (header_new DB_VERSION data priv pub) = Some b \<and>
        disk V w' (chain_path c) = Some [DB_HEADER_KEY \<mapsto> b])"
    and "disk V w (chain_path c) = None \<or> \<not> r \<and> disk V w' (chain_path c) = disk V w (chain_path c)"
proof -
  let ?p = "chain_path c" and ?hp = "Header_pack P (header_new DB_VERSION data priv pub)"
  have "undisturbed V ?p w w' \<and>
    (r \<longrightarrow> disk V w ?p = None \<and>
      (\<exists>b. ?hp = Some b \<and> disk V w' ?p = Some [DB_HEADER_KEY \<mapsto> b])) \<and>
    (disk V w ?p = None \<or> \<not> r \<and> disk V w' ?p = disk V w ?p)"
  proof (cases ?hp)
    case None
    with c show ?thesis by (simp add: Chain_create_def)
  next
    case (Some b)
    obtain ok st w1 where o: "Storage_create D (Storage_new ?p) w = (ok, st, w1)"
      by (cases "Storage_create D (Storage_new ?p) w") auto
    show ?thesis
    proof (cases ok)
      case False
      with o have "Storage_create D (Storage_new ?p) w = (False, st, w1)" by simp
      note f = Storage_create_failed [OF db this]
      have "\<not> r" and "w' = w1"
        using c o False Some f(2) by (auto simp: Chain_create_def scoped_storage_def)
      with f show ?thesis by auto
    next
      case True
      with o have "Storage_create D (Storage_new ?p) w = (True, st, w1)" by simp
      note s = Storage_create_session [OF db this]
      obtain w2 where set: "Storage_set D st [\<lparr>kv_key = DB_HEADER_KEY, kv_value = b\<rparr>] w1 = (r, w2)"
        and w': "w' = Storage_dtor D st w2"
        using c o True Some
        by (auto simp: Chain_create_def scoped_storage_def split: prod.splits if_splits)
      show ?thesis
        using kv.write_finish [OF db s(2) set] s(1) Some by (auto simp: w')
    qed
  qed
  then show "undisturbed V ?p w w'"
    and "r \<Longrightarrow> disk V w ?p = None \<and> (\<exists>b. ?hp = Some b \<and> disk V w' ?p = Some [DB_HEADER_KEY \<mapsto> b])"
    and "disk V w ?p = None \<or> \<not> r \<and> disk V w' ?p = disk V w ?p"
    by blast+
qed

lemma Chain_getBlock_effect:
  assumes "db_ok D V" and "Chain_getBlock P D c i w = (r, w')"
  shows "unchanged V w w' \<and>
    (\<forall>b. r = Some b \<longrightarrow> (\<exists>m h. disk V w (chain_path c) = Some m \<and> stored_header P m = Some h \<and>
       hdr_version h = DB_VERSION \<and> i \<noteq> 0 \<and> i \<le> hdr_index h \<and> stored_block P m i = Some b))"
  using assms unfolding Chain_getBlock_def
proof (cases rule: scoped_open_cases)
  case failed
  then show ?thesis by simp
next
  case (opened m st w1 st2 w2)
  obtain ho w3 where gh: "Chain_getHeader_in P D st w1 = (ho, w3)"
    by (cases "Chain_getHeader_in P D st w1")
  note s = Chain_getHeader_in_session [OF assms(1) opened(2) gh]
  show ?thesis
  proof (cases "\<exists>h. ho = Some h \<and> i \<noteq> 0 \<and> \<not> hdr_index h < i")
    case False
    then have "r = None" and "w' = Storage_dtor D st w3"
      using opened(3,4) gh by (auto split: option.splits if_splits)
    with kv.finish [OF assms(1) s(1)] opened(1) show ?thesis
      by (auto intro: unchangedI)
  next
    case True
    then obtain h where h: "ho = Some h" "i \<noteq> 0" "i \<le> hdr_index h" by auto
    obtain v where g: "Storage_get D st (makeBlockName i) w3 = (v, w2)" and [simp]: "st2 = st"
      and r: "r = map_option block_new (Option.bind v (\<lambda>kv. Container_unpack P (kv_value kv)))"
      using opened(3) gh h
      by (auto simp: not_less [symmetric] split: prod.splits option.splits)
    have "unchanged V w w'"
      using kv.read_finish [OF assms(1) s(1) g] opened(1,4) by (auto intro: unchangedI)
    moreover have "stored_block P m i = Some b" if "r = Some b" for b
      using that r kv.get_sound [OF assms(1) s(1)] g
      by (cases v) (auto simp: stored_block_def)
    ultimately show ?thesis using opened(1) h s(2) by blast
  qed
qed

text \<open>
  The loop ends whenever the last index is not the largest \<open>size_t\<close>; it appends a prefix of the
  stored blocks, all of them exactly when it reports success.
\<close>

lemma getBlocks_loop_session:
  assumes db: "db_ok D V" and bound: "bound \<noteq> - 1" and s: "session V p w0 st w m"
  shows "\<exists>r bs w'. getBlocks_loop P D st bound i blocks w = Some (r, blocks @ bs, w') \<and>
    session V p w0 st w' m \<and>
    (r \<longrightarrow> stored_blocks P m (unat i) (Suc (unat bound)) = Some bs)"
  using s
proof (induction "Suc (unat bound) - unat i" arbitrary: i blocks w)
  case 0
  then have "\<not> i \<le> bound" by (simp add: word_le_nat_alt)
  with 0 show ?case
    by (auto simp: getBlocks_loop.simps stored_blocks_def intro!: exI)
next
  case (Suc k)
  then have le: "i \<le> bound" by (simp add: word_le_nat_alt)
  then have "i < - 1" using bound
    by (metis word_order.extremum_strict word_order.not_eq_extremum nless_le order_le_less_trans)
  then have i1: "unat (i + 1) = Suc (unat i)" by (rule unat_word_Suc)
  obtain v w1 where g: "Storage_get D st (makeBlockName i) w = (v, w1)"
    by (cases "Storage_get D st (makeBlockName i) w")
  note s1 = kv.get_keeps [OF db Suc.prems g]
  show ?case
  proof (cases "\<exists>kv c. v = Some kv \<and> Container_unpack P (kv_value kv) = Some c")
    case False
    then have "getBlocks_loop P D st bound i blocks w = Some (False, blocks, w1)"
      using le g by (auto simp: getBlocks_loop.simps [of P D st bound i] split: option.splits)
    with s1 show ?thesis by fastforce
  next
    case True
    then obtain kv c where kv: "v = Some kv" and c: "Container_unpack P (kv_value kv) = Some c"
      by blast
    have step: "getBlocks_loop P D st bound i blocks w =
        getBlocks_loop P D st bound (i + 1) (blocks @ [block_new c]) w1"
      using le g kv c by (simp add: getBlocks_loop.simps [of P D st bound i])
    have "stored_block P m i = Some (block_new c)"
      using kv.get_sound [OF db Suc.prems] g kv c by (auto simp: stored_block_def)
    moreover have "[unat i ..< Suc (unat bound)] = unat i # [unat (i + 1) ..< Suc (unat bound)]"
      using le i1 by (simp add: upt_conv_Cons word_le_nat_alt del: upt_Suc)
    ultimately have sb: "stored_blocks P m (unat i) (Suc (unat bound)) =
        map_option ((#) (block_new c)) (stored_blocks P m (unat (i + 1)) (Suc (unat bound)))"
      by (simp add: stored_blocks_def del: upt_Suc)
    have "k = Suc (unat bound) - unat (i + 1)" using Suc.hyps(2) i1 by simp
    from Suc.hyps(1) [OF this s1, of "blocks @ [block_new c]"] show ?thesis
      by (auto simp: step sb)
  qed
qed

text \<open>What \<open>getBlocks\<close> can do: it returns, changes nothing, and success means the ledger.\<close>

lemma Chain_getBlocks_effect:
  assumes db: "db_ok D V"
    and bound: "\<And>m h. disk V w (chain_path c) = Some m \<Longrightarrow> stored_header P m = Some h \<Longrightarrow>
      hdr_index h \<noteq> - 1"
  shows "\<exists>r bs w'. Chain_getBlocks P D c blocks w = Some (r, blocks @ bs, w') \<and> unchanged V w w' \<and>
    (r \<longrightarrow> (\<exists>m h. disk V w (chain_path c) = Some m \<and> ledger P m = Some (h, bs)))"
proof -
  let ?p = "chain_path c"
  obtain ok st w1 where o: "Storage_open D (Storage_new ?p) w = (ok, st, w1)"
    by (cases "Storage_open D (Storage_new ?p) w") auto
  show ?thesis
  proof (cases ok)
    case False
    with o have "Storage_open D (Storage_new ?p) w = (False, st, w1)" by simp
    note f = Storage_open_failed [OF db this]
    then have "unchanged V w w1" by (auto intro: unchangedI)
    with o False f(3) show ?thesis by (auto simp: Chain_getBlocks_def)
  next
    case True
    with o have "Storage_open D (Storage_new ?p) w = (True, st, w1)" by simp
    from Storage_open_session [OF db this] obtain m where m: "disk V w ?p = Some m"
      and s: "session V ?p w st w1 m" by blast
    obtain ho w2 where gh: "Chain_getHeader_in P D st w1 = (ho, w2)"
      by (cases "Chain_getHeader_in P D st w1")
    note s2 = Chain_getHeader_in_session [OF db s gh]
    show ?thesis
    proof (cases ho)
      case None
      then have "Chain_getBlocks P D c blocks w = Some (False, blocks, Storage_dtor D st w2)"
        using o True gh by (simp add: Chain_getBlocks_def)
      with kv.finish [OF db s2(1)] m show ?thesis by (fastforce intro: unchangedI)
    next
      case (Some h)
      note h = s2(2) [OF Some]
      from h have b: "hdr_index h \<noteq> - 1" using bound [OF m] by simp
      obtain r bs w3 where l: "getBlocks_loop P D st (hdr_index h) 1 blocks w2 = Some (r, blocks @ bs, w3)"
        and s3: "session V ?p w st w3 m"
        and r: "r \<longrightarrow> stored_blocks P m (unat (1 :: size_t)) (Suc (unat (hdr_index h))) = Some bs"
        using getBlocks_loop_session [OF db b s2(1), where i = 1 and blocks = blocks and P = P] by blast
      have "Chain_getBlocks P D c blocks w = Some (r, blocks @ bs, Storage_dtor D st w3)"
        using o True gh Some l by (simp add: Chain_getBlocks_def)
      moreover have "unchanged V w (Storage_dtor D st w3)"
        using kv.finish [OF db s3] m by (auto intro: unchangedI)
      ultimately show ?thesis
        using m h r by (auto simp: ledger_def simp del: upt_Suc)
    qed
  qed
qed

lemma Chain_remove_effect:
  assumes "db_ok D V" and "Chain_remove D c w = (r, w')"
  shows "undisturbed V (chain_path c) w w'" and "r \<Longrightarrow> disk V w' (chain_path c) = None"
proof -
  have "Storage_remove D (Storage_new (chain_path c)) w = (r, w')"
    using assms(2) by (auto simp: Chain_remove_def scoped_storage_def split: prod.splits)
  from Storage_remove_effect [OF assms(1) this]
  show "undisturbed V (chain_path c) w w'" and "r \<Longrightarrow> disk V w' (chain_path c) = None"
    by simp_all
qed

section \<open>The ledger of a database\<close>

lemma block_new_data [simp]: "block_new (block_data b) = b" "block_data (block_new c) = c"
  by (simp_all add: block_new_def)

lemma stored_header_update [simp]:
  "pb_ok P \<Longrightarrow> Header_pack P h = Some hb \<Longrightarrow>
    stored_header P (m(DB_HEADER_KEY \<mapsto> hb)) = Some h"
  by (simp add: stored_header_def header_codec.dec_enc)

lemma stored_header_block [simp]:
  "stored_header P (m(makeBlockName i \<mapsto> x)) = stored_header P m"
  by (simp add: stored_header_def)

lemma stored_block_update [simp]:
  "stored_block P (m(DB_HEADER_KEY \<mapsto> x)) i = stored_block P m i"
  "i \<noteq> j \<Longrightarrow> stored_block P (m(makeBlockName j \<mapsto> x)) i = stored_block P m i"
  "pb_ok P \<Longrightarrow> Container_pack P (block_data b) = Some bb \<Longrightarrow>
    stored_block P (m(makeBlockName i \<mapsto> bb)) i = Some b"
  by (simp_all add: stored_block_def block_codec.dec_enc)

lemma stored_blocks_empty [simp]: "stored_blocks P m i i = Some []"
  by (simp add: stored_blocks_def)

lemma stored_blocks_cong:
  "(\<And>k. i \<le> k \<Longrightarrow> k < n \<Longrightarrow> stored_block P m (of_nat k) = stored_block P m' (of_nat k)) \<Longrightarrow>
    stored_blocks P m i n = stored_blocks P m' i n"
  by (auto simp: stored_blocks_def intro!: arg_cong [where f = those] map_cong)

lemma stored_blocks_Suc:
  "i \<le> n \<Longrightarrow> stored_blocks P m i n = Some bs \<Longrightarrow> stored_block P m (of_nat n) = Some b \<Longrightarrow>
    stored_blocks P m i (Suc n) = Some (bs @ [b])"
  by (simp add: stored_blocks_def those_append)

lemma stored_blocks_nth:
  assumes "stored_blocks P m 1 (Suc n) = Some bs" and "0 < k" and "k \<le> n"
  shows "stored_block P m (of_nat k) = Some (bs ! (k - 1))"
  using those_nth [OF assms(1) [unfolded stored_blocks_def], of "k - 1"] assms(2,3)
  by (simp del: upt_Suc)

lemma ledgerD:
  "ledger P m = Some (h, bs) \<Longrightarrow> stored_header P m = Some h \<and> hdr_version h = DB_VERSION \<and>
    stored_blocks P m 1 (Suc (unat (hdr_index h))) = Some bs"
  by (auto simp: ledger_def split: option.splits if_splits)

lemma ledger_length: "ledger P m = Some (h, bs) \<Longrightarrow> length bs = unat (hdr_index h)"
  using those_length by (fastforce dest!: ledgerD simp: stored_blocks_def simp del: upt_Suc)

lemma ledger_nth:
  "ledger P m = Some (h, bs) \<Longrightarrow> 0 < i \<Longrightarrow> i \<le> hdr_index h \<Longrightarrow>
    stored_block P m i = Some (bs ! (unat i - 1))"
  using stored_blocks_nth [of P m "unat (hdr_index h)" bs "unat i"]
  by (auto dest!: ledgerD simp: word_le_nat_alt word_less_nat_alt)

lemma ledger_created:
  "pb_ok P \<Longrightarrow> Header_pack P (header_new DB_VERSION d priv pub) = Some b \<Longrightarrow>
    ledger P [DB_HEADER_KEY \<mapsto> b] = Some (header_new DB_VERSION d priv pub, [])"
  by (simp add: ledger_def header_new_def del: upt_Suc)

lemma unat_plus_one: "(i :: size_t) \<noteq> - 1 \<Longrightarrow> unat (i + 1) = Suc (unat i)"
  by (rule unat_word_Suc [of i "- 1"]) (metis word_order.not_eq_extremum)

lemma of_nat_unat_neq: "k \<le> unat i \<Longrightarrow> (i :: size_t) \<noteq> - 1 \<Longrightarrow> of_nat k \<noteq> i + 1"
proof
  assume "k \<le> unat i" and i: "i \<noteq> - 1" and "of_nat k = i + 1"
  then have "Suc (unat i) = unat (of_nat k :: size_t)" by (simp add: unat_plus_one)
  also have "\<dots> \<le> k" by (simp add: unat_of_nat)
  finally show False using \<open>k \<le> unat i\<close> by simp
qed

lemma ledger_appended:
  assumes "pb_ok P" and "appended P b m m'" and l: "ledger P m = Some (h, bs)"
    and i: "hdr_index h \<noteq> - 1"
  shows "ledger P m' = Some (h\<lparr>hdr_index := hdr_index h + 1\<rparr>, bs @ [b])"
proof -
  let ?n = "unat (hdr_index h)"
  note d = ledgerD [OF l]
  from assms(2) d obtain hb bb where pk: "Header_pack P (h\<lparr>hdr_index := hdr_index h + 1\<rparr>) = Some hb"
      "Container_pack P (block_data b) = Some bb"
    and m': "m' = m(DB_HEADER_KEY \<mapsto> hb, makeBlockName (hdr_index h + 1) \<mapsto> bb)"
    by (auto simp: appended_def)
  have "stored_blocks P m' 1 (Suc ?n) = stored_blocks P m 1 (Suc ?n)"
    by (rule stored_blocks_cong) (auto simp: m' of_nat_unat_neq [OF _ i])
  with d have "stored_blocks P m' 1 (Suc ?n) = Some bs" by simp
  moreover have "stored_block P m' (of_nat (Suc ?n)) = Some b"
    using assms(1) pk(2) by (simp add: m' add.commute)
  ultimately have "stored_blocks P m' 1 (Suc (Suc ?n)) = Some (bs @ [b])"
    by (intro stored_blocks_Suc) simp_all
  then show ?thesis
    using assms(1) pk(1) d by (simp add: ledger_def m' unat_plus_one [OF i] del: upt_Suc)
qed

text \<open>At the last index the counter wraps around and the chain looks empty.\<close>

lemma ledger_appended_wraps:
  assumes "pb_ok P" and "appended P b m m'" and "stored_header P m = Some h"
    and "hdr_index h = - 1"
  shows "ledger P m' = Some (h\<lparr>hdr_index := 0\<rparr>, [])"
  using assms by (auto simp: appended_def ledger_def simp del: upt_Suc)

text \<open>
  The same without the bound, for a call that has returned: at the last index the loop can only
  come back with a failure.
\<close>

lemma getBlocks_loop_returned:
  assumes ret: "getBlocks_loop P D st bound i blocks w = Some x"
  shows "db_ok D V \<longrightarrow> session V p w0 st w m \<longrightarrow>
    session V p w0 st (snd (snd x)) m \<and> (bound = - 1 \<longrightarrow> \<not> fst x)"
proof (rule getBlocks_loop.raw_induct [where
    P = "\<lambda>P D st bound i blocks w x. db_ok D V \<longrightarrow> session V p w0 st w m \<longrightarrow>
      session V p w0 st (snd (snd x)) m \<and> (bound = - 1 \<longrightarrow> \<not> fst x)", OF _ ret],
    intro impI)
  fix f P D st and bound i :: size_t and blocks :: "block list" and w and x :: "bool \<times> block list \<times> 'a"
  assume IH: "\<And>P D st bound i blocks w x. f P D st bound i blocks w = Some x \<Longrightarrow>
      db_ok D V \<longrightarrow> session V p w0 st w m \<longrightarrow>
      session V p w0 st (snd (snd x)) m \<and> (bound = - 1 \<longrightarrow> \<not> fst x)"
    and step: "(if i \<le> bound then
        (case Storage_get D st (makeBlockName i) w of
           (None, w) \<Rightarrow> Some (False, blocks, w)
         | (Some value, w) \<Rightarrow>
             (case Container_unpack P (kv_value value) of
                None \<Rightarrow> Some (False, blocks, w)
              | Some container \<Rightarrow>
                  f P D st bound (i + 1) (blocks @ [block_new container]) w))
      else Some (True, blocks, w)) = Some x"
    and db: "db_ok D V" and s: "session V p w0 st w m"
  obtain v w1 where g: "Storage_get D st (makeBlockName i) w = (v, w1)"
    by (cases "Storage_get D st (makeBlockName i) w")
  note s1 = kv.get_keeps [OF db s g]
  show "session V p w0 st (snd (snd x)) m \<and> (bound = - 1 \<longrightarrow> \<not> fst x)"
    using step g s s1 IH db
    by (auto split: if_splits option.splits)
qed

lemma Chain_getBlocks_returned:
  assumes db: "db_ok D V" and g: "Chain_getBlocks P D c blocks w = Some (r, bs, w')"
  shows "unchanged V w w' \<and> (r \<longrightarrow>
    (\<exists>m h new. bs = blocks @ new \<and> disk V w (chain_path c) = Some m \<and>
       ledger P m = Some (h, new) \<and> hdr_index h \<noteq> - 1))"
proof (cases "\<exists>m h. disk V w (chain_path c) = Some m \<and> stored_header P m = Some h \<and> hdr_index h = - 1")
  case False
  have "\<exists>r bs w'. Chain_getBlocks P D c blocks w = Some (r, blocks @ bs, w') \<and> unchanged V w w' \<and>
      (r \<longrightarrow> (\<exists>m h. disk V w (chain_path c) = Some m \<and> ledger P m = Some (h, bs)))"
    by (rule Chain_getBlocks_effect [OF db]) (use False in blast)
  with g obtain new where "bs = blocks @ new" and "unchanged V w w'" and
      "r \<longrightarrow> (\<exists>m h. disk V w (chain_path c) = Some m \<and> ledger P m = Some (h, new))" by auto
  with False show ?thesis using ledgerD by blast
next
  case True
  then obtain m h where m: "disk V w (chain_path c) = Some m" "stored_header P m = Some h"
    "hdr_index h = - 1" by blast
  obtain ok st w1 where o: "Storage_open D (Storage_new (chain_path c)) w = (ok, st, w1)"
    by (cases "Storage_open D (Storage_new (chain_path c)) w") auto
  show ?thesis
  proof (cases ok)
    case False
    with o have "Storage_open D (Storage_new (chain_path c)) w = (False, st, w1)" by simp
    note f = Storage_open_failed [OF db this]
    then have "unchanged V w w1" by (auto intro: unchangedI)
    with g o False f(3) show ?thesis by (auto simp: Chain_getBlocks_def)
  next
    case True
    with o have "Storage_open D (Storage_new (chain_path c)) w = (True, st, w1)" by simp
    from Storage_open_session [OF db this] m(1) have s: "session V (chain_path c) w st w1 m" by simp
    obtain ho w2 where gh: "Chain_getHeader_in P D st w1 = (ho, w2)"
      by (cases "Chain_getHeader_in P D st w1")
    note s2 = Chain_getHeader_in_session [OF db s gh]
    obtain w3 where s3: "session V (chain_path c) w st w3 m" and w': "w' = Storage_dtor D st w3"
      and "\<not> r"
    proof (cases ho)
      case None
      with g o True gh that [OF s2(1)] show thesis by (auto simp: Chain_getBlocks_def)
    next
      case (Some h')
      with s2(2) m(2) have [simp]: "h' = h" by simp
      from g o True gh Some obtain w3
        where l: "getBlocks_loop P D st (hdr_index h) 1 blocks w2 = Some (r, bs, w3)"
        and "w' = Storage_dtor D st w3"
        by (auto simp: Chain_getBlocks_def split: option.splits)
      with getBlocks_loop_returned [OF l, of V "chain_path c" w m] db s2(1) m(3)
      have "session V (chain_path c) w st w3 m" and "\<not> r" by simp_all
      with \<open>w' = Storage_dtor D st w3\<close> show thesis using that by blast
    qed
    with kv.finish [OF db s3] m(1) show ?thesis by (auto intro: unchangedI)
  qed
qed

section \<open>Progress without faults\<close>

lemma scoped_open_live:
  assumes "db_ok D V" and "db_live D V" and "p \<notin> ran (handles V w)" and "disk V w p = Some m"
  obtains st w1 where "Storage_open D (Storage_new p) w = (True, st, w1)" "session V p w st w1 m"
proof -
  from Storage_open_live [OF assms(2-4)] obtain st w1
    where o: "Storage_open D (Storage_new p) w = (True, st, w1)" by blast
  from Storage_open_session [OF assms(1) o] assms(4) have "session V p w st w1 m" by simp
  with o show thesis by (rule that)
qed

lemma Chain_getHeader_in_live:
  assumes "db_ok D V" and "db_live D V" and "session V p w0 st w m"
    and "stored_header P m = Some h" and "hdr_version h = DB_VERSION"
  obtains w1 where "Chain_getHeader_in P D st w = (Some h, w1)" "session V p w0 st w1 m"
proof -
  from assms(4) obtain v where v: "m DB_HEADER_KEY = Some v" "Header_unpack P v = Some h"
    by (cases "m DB_HEADER_KEY") (auto simp: stored_header_def)
  from Storage_get_live [OF assms(2,3) v(1)] obtain w1
    where "Storage_get D st DB_HEADER_KEY w = (Some \<lparr>kv_key = DB_HEADER_KEY, kv_value = v\<rparr>, w1)"
    by blast
  with v(2) assms(5) have g: "Chain_getHeader_in P D st w = (Some h, w1)"
    by (simp add: Chain_getHeader_in_def)
  from g Chain_getHeader_in_session(1) [OF assms(1,3) g] show thesis by (rule that)
qed

lemma Header_pack_live:
  assumes "pb_live P" and "length (hdr_data h) \<le> MAX_DATA_LENGTH"
  shows "\<exists>b. Header_pack P h = Some b"
proof -
  have "bytes_size (hdr_data h) \<le> length (hdr_data h) + 6"
    using assms(2) by (intro bytes_size_le) (simp add: MAX_DATA_LENGTH_def PB_MAX_SIZE_def)
  moreover have "bytes_size (data_bytes (hdr_privateKey h)) \<le> 38"
    "bytes_size (data_bytes (hdr_publicKey h)) \<le> 39"
    using bytes_size_le [of "data_bytes (hdr_privateKey h)"] bytes_size_le [of "data_bytes (hdr_publicKey h)"]
    by (simp_all add: PB_MAX_SIZE_def)
  ultimately show ?thesis
    using assms uint_size_le(1) [of "hdr_version h"] uint_size_le(1) [of "hdr_index h"]
    by (auto simp: pb_live_def Header_pack_def pb_header_default_def header_size_def
        MAX_DATA_LENGTH_def PB_MAX_SIZE_def)
qed

lemma Chain_create_live:
  assumes "db_ok D V" and "db_live D V" and "pb_live P" and "length d \<le> MAX_DATA_LENGTH"
    and "chain_path c \<notin> ran (handles V w)" and "disk V w (chain_path c) = None"
  shows "\<exists>w'. Chain_create P D c d priv pub w = (True, w')"
proof -
  from Header_pack_live [OF assms(3)] assms(4) obtain b
    where b: "Header_pack P (header_new DB_VERSION d priv pub) = Some b"
    by (fastforce simp: header_new_def)
  from Storage_create_live [OF assms(2,5,6)] obtain st w1
    where o: "Storage_create D (Storage_new (chain_path c)) w = (True, st, w1)" by blast
  from Storage_set_live [OF assms(2) Storage_create_session(2) [OF assms(1) o]] obtain w2
    where "Storage_set D st [\<lparr>kv_key = DB_HEADER_KEY, kv_value = b\<rparr>] w1 = (True, w2)" by blast
  with b o show ?thesis by (simp add: Chain_create_def scoped_storage_def)
qed

lemma Chain_getHeader_live:
  assumes "db_ok D V" and "db_live D V" and "chain_path c \<notin> ran (handles V w)"
    and m: "disk V w (chain_path c) = Some m" and "stored_header P m = Some h"
  shows "\<exists>w'. Chain_getHeader P D c w = (Some h, w')"
proof -
  obtain st w1 where o: "Storage_open D (Storage_new (chain_path c)) w = (True, st, w1)"
    and s: "session V (chain_path c) w st w1 m"
    using scoped_open_live [OF assms(1-4)] .
  from assms(5) obtain v where v: "m DB_HEADER_KEY = Some v" "Header_unpack P v = Some h"
    by (cases "m DB_HEADER_KEY") (auto simp: stored_header_def)
  from Storage_get_live [OF assms(2) s v(1)] o v(2) show ?thesis
    by (auto simp: Chain_getHeader_def scoped_storage_def)
qed

lemma Chain_addBlock_live:
  assumes "db_ok D V" and "db_live D V" and "pb_live P" and "chain_path c \<notin> ran (handles V w)"
    and m: "disk V w (chain_path c) = Some m" and h: "stored_header P m = Some h"
    and v: "hdr_version h = DB_VERSION" and "length (hdr_data h) \<le> MAX_DATA_LENGTH"
    and "length (c_data (block_data b)) \<le> MAX_DATA_LENGTH"
  shows "\<exists>w'. Chain_addBlock P D c b w = (True, w')"
proof -
  obtain st w1 where o: "Storage_open D (Storage_new (chain_path c)) w = (True, st, w1)"
    and s: "session V (chain_path c) w st w1 m"
    using scoped_open_live [OF assms(1,2,4,5)] .
  obtain w2 where g: "Chain_getHeader_in P D st w1 = (Some h, w2)"
    and s2: "session V (chain_path c) w st w2 m"
    using Chain_getHeader_in_live [OF assms(1,2) s h v] .
  from Header_pack_live [OF assms(3), of "h\<lparr>hdr_index := hdr_index h + 1\<rparr>"] assms(8) obtain hb
    where hb: "Header_pack P (h\<lparr>hdr_index := hdr_index h + 1\<rparr>) = Some hb" by auto
  from Container_pack_live [OF assms(3,9)] obtain bb
    where bb: "Container_pack P (block_data b) = Some bb" by blast
  from Storage_set_live [OF assms(2) s2] obtain w3
    where "Storage_set D st [\<lparr>kv_key = DB_HEADER_KEY, kv_value = hb\<rparr>,
      \<lparr>kv_key = makeBlockName (hdr_index h + 1), kv_value = bb\<rparr>] w2 = (True, w3)" by blast
  with o g hb bb show ?thesis
    by (simp add: Chain_addBlock_def scoped_storage_def)
qed

lemma Chain_getBlock_live:
  assumes "db_ok D V" and "db_live D V" and "chain_path c \<notin> ran (handles V w)"
    and m: "disk V w (chain_path c) = Some m" and h: "stored_header P m = Some h"
    and v: "hdr_version h = DB_VERSION" and "i \<noteq> 0" and "i \<le> hdr_index h"
    and b: "stored_block P m i = Some b"
  shows "\<exists>w'. Chain_getBlock P D c i w = (Some b, w')"
proof -
  obtain st w1 where o: "Storage_open D (Storage_new (chain_path c)) w = (True, st, w1)"
    and s: "session V (chain_path c) w st w1 m"
    using scoped_open_live [OF assms(1-4)] .
  obtain w2 where g: "Chain_getHeader_in P D st w1 = (Some h, w2)"
    and s2: "session V (chain_path c) w st w2 m"
    using Chain_getHeader_in_live [OF assms(1,2) s h v] .
  from b obtain x k where x: "m (makeBlockName i) = Some x" "Container_unpack P x = Some k"
    "b = block_new k"
    by (cases "m (makeBlockName i)") (auto simp: stored_block_def)
  from Storage_get_live [OF assms(2) s2 x(1)] o g x(2,3) assms(7,8) show ?thesis
    by (auto simp: Chain_getBlock_def scoped_storage_def)
qed

lemma getBlocks_loop_live:
  assumes db: "db_ok D V" "db_live D V" and bound: "bound \<noteq> - 1" and s: "session V p w0 st w m"
    and "stored_blocks P m (unat i) (Suc (unat bound)) = Some bs"
  shows "\<exists>w'. getBlocks_loop P D st bound i blocks w = Some (True, blocks @ bs, w')"
  using s assms(5)
proof (induction "Suc (unat bound) - unat i" arbitrary: i blocks w bs)
  case 0
  then have "\<not> i \<le> bound" by (simp add: word_le_nat_alt)
  with 0 show ?case by (auto simp: getBlocks_loop.simps stored_blocks_def)
next
  case (Suc k)
  then have le: "i \<le> bound" by (simp add: word_le_nat_alt)
  with bound have i1: "unat (i + 1) = Suc (unat i)"
    by (metis unat_plus_one word_order.extremum_uniqueI)
  have "[unat i ..< Suc (unat bound)] = unat i # [unat (i + 1) ..< Suc (unat bound)]"
    using le i1 by (simp add: upt_conv_Cons word_le_nat_alt del: upt_Suc)
  with Suc.prems(2) obtain b bs' where b: "stored_block P m i = Some b" and bs: "bs = b # bs'"
    and r: "stored_blocks P m (unat (i + 1)) (Suc (unat bound)) = Some bs'"
    by (auto simp: stored_blocks_def simp del: upt_Suc split: option.splits)
  from b obtain x c where x: "m (makeBlockName i) = Some x" "Container_unpack P x = Some c"
    "b = block_new c"
    by (cases "m (makeBlockName i)") (auto simp: stored_block_def)
  from Storage_get_live [OF db(2) Suc.prems(1) x(1)] obtain w1
    where g: "Storage_get D st (makeBlockName i) w =
      (Some \<lparr>kv_key = makeBlockName i, kv_value = x\<rparr>, w1)" by blast
  have "k = Suc (unat bound) - unat (i + 1)" using Suc.hyps(2) i1 by simp
  from Suc.hyps(1) [OF this kv.get_keeps [OF db(1) Suc.prems(1) g] r, of "blocks @ [b]"]
  show ?case
    using le g x by (simp add: getBlocks_loop.simps [of P D st bound i] bs)
qed

lemma Chain_getBlocks_live:
  assumes "db_ok D V" and "db_live D V" and "chain_path c \<notin> ran (handles V w)"
    and m: "disk V w (chain_path c) = Some m" and l: "ledger P m = Some (h, bs)"
    and i: "hdr_index h \<noteq> - 1"
  shows "\<exists>w'. Chain_getBlocks P D c blocks w = Some (True, blocks @ bs, w')"
proof -
  obtain st w1 where o: "Storage_open D (Storage_new (chain_path c)) w = (True, st, w1)"
    and s: "session V (chain_path c) w st w1 m"
    using scoped_open_live [OF assms(1-4)] .
  note d = ledgerD [OF l]
  obtain w2 where g: "Chain_getHeader_in P D st w1 = (Some h, w2)"
    and s2: "session V (chain_path c) w st w2 m"
    using Chain_getHeader_in_live [OF assms(1,2) s] d by blast
  from d have "stored_blocks P m (unat (1 :: size_t)) (Suc (unat (hdr_index h))) = Some bs"
    by simp
  from getBlocks_loop_live [OF assms(1,2) i s2 this, of blocks] o g show ?thesis
    by (auto simp: Chain_getBlocks_def)
qed

lemma Chain_remove_live:
  assumes "db_live D V" and "chain_path c \<notin> ran (handles V w)"
  shows "\<exists>w'. Chain_remove D c w = (True, w')"
  using Storage_remove_live [of D V "Storage_new (chain_path c)" w] assms
  by (auto simp: Chain_remove_def scoped_storage_def)

end
