(* ===== verification/Manager.thy ===== *)
theory Manager
  imports Chain
begin

text \<open>
  \<open>Storage::Manager\<close> (src/Storage/Manager.cpp): the chains of one directory, each under its number.
  It creates keys, links, hashes and signs new blocks, and verifies whole chains.  The external
  libraries are collected in the record \<open>env\<close>.
\<close>

record ('w, 'h, 'c, 'pk, 'sg) env =
  env_db :: "('w, 'h) db_lib"
  env_rand :: "'w rand_lib"
  env_sha :: "'c sha_lib"
  env_ec :: "('pk, 'sg) ec_lib"
  env_pb :: pb_lib

record manager =
  storageDir :: string

definition makeStoragePath :: "manager \<Rightarrow> size_t \<Rightarrow> string" where
  "makeStoragePath M chainId =
     (let name = to_string chainId @ ''.blockchain'' in path_append (storageDir M) name)"

definition Manager_createChain ::
  "('w, 'h, 'c, 'pk, 'sg) env \<Rightarrow> manager \<Rightarrow> size_t \<Rightarrow> bytes \<Rightarrow> 'w \<Rightarrow> chain option \<times> 'w" where
  "Manager_createChain E M chainId data w =
     (case generatePrivateKey (env_rand E) (env_ec E) w of
        (None, w) \<Rightarrow> (None, w)
      | (Some privateKey, w) \<Rightarrow>
          (case createPublicKey (env_ec E) privateKey of
             None \<Rightarrow> (None, w)
           | Some publicKey \<Rightarrow>
               let chain = \<lparr>chain_path = makeStoragePath M chainId\<rparr>;
                   (ok, w) = Chain_create (env_pb E) (env_db E) chain data privateKey publicKey w
               in if \<not> ok then (None, w) else (Some chain, w)))"

definition Manager_addBlock ::
  "('w, 'h, 'c, 'pk, 'sg) env \<Rightarrow> manager \<Rightarrow> size_t \<Rightarrow> bytes \<Rightarrow> 'w \<Rightarrow> block option \<times> 'w" where
  "Manager_addBlock E M chainId data w =
     (let chain = \<lparr>chain_path = makeStoragePath M chainId\<rparr> in
      case Chain_getHeader (env_pb E) (env_db E) chain w of
        (None, w) \<Rightarrow> (None, w)
      | (Some header, w) \<Rightarrow>
      let (prevHash, w) =
            (if hdr_index header = 0 then
               (getHashN (env_sha E)
                  [hdr_data header, data_bytes (hdr_privateKey header),
                   data_bytes (hdr_publicKey header)] 2, w)
             else
               case Chain_getBlock (env_pb E) (env_db E) chain (hdr_index header) w of
                 (None, w) \<Rightarrow> (None, w)
               | (Some lastBlock, w) \<Rightarrow> (Some (c_hash (block_data lastBlock)), w))
      in case prevHash of
        None \<Rightarrow> (None, w)
      | Some prevHash \<Rightarrow>
      case generateNonce (env_rand E) w of
        (None, w) \<Rightarrow> (None, w)
      | (Some nonce, w) \<Rightarrow>
      case getHash (env_sha E) [data_bytes prevHash, data_bytes nonce, data] of
        None \<Rightarrow> (None, w)
      | Some bodyHash \<Rightarrow>
      case getSignature (env_ec E) bodyHash (hdr_privateKey header) of
        None \<Rightarrow> (None, w)
      | Some signature \<Rightarrow>
      case getHash (env_sha E)
             [data_bytes prevHash, data_bytes nonce, data, data_bytes signature] of
        None \<Rightarrow> (None, w)
      | Some hash \<Rightarrow>
      let block = block_new \<lparr>c_hash = hash, c_prevHash = prevHash, c_nonce = nonce,
                             c_data = data, c_signature = signature\<rparr>;
          (ok, w) = Chain_addBlock (env_pb E) (env_db E) chain block w
      in if \<not> ok then (None, w) else (Some block, w))"

definition Manager_getBlock ::
  "('w, 'h, 'c, 'pk, 'sg) env \<Rightarrow> manager \<Rightarrow> size_t \<Rightarrow> size_t \<Rightarrow> 'w \<Rightarrow> block option \<times> 'w" where
  "Manager_getBlock E M chainId index w =
     Chain_getBlock (env_pb E) (env_db E) \<lparr>chain_path = makeStoragePath M chainId\<rparr> index w"

definition Manager_getBlocks ::
  "('w, 'h, 'c, 'pk, 'sg) env \<Rightarrow> manager \<Rightarrow> size_t \<Rightarrow> block list \<Rightarrow> 'w
     \<Rightarrow> (bool \<times> block list \<times> 'w) option" where
  "Manager_getBlocks E M chainId blocks w =
     Chain_getBlocks (env_pb E) (env_db E) \<lparr>chain_path = makeStoragePath M chainId\<rparr> blocks w"

definition Manager_removeChain ::
  "('w, 'h, 'c, 'pk, 'sg) env \<Rightarrow> manager \<Rightarrow> size_t \<Rightarrow> 'w \<Rightarrow> bool \<times> 'w" where
  "Manager_removeChain E M chainId w =
     Chain_remove (env_db E) \<lparr>chain_path = makeStoragePath M chainId\<rparr> w"

text \<open>
  The loop of \<open>verifyChain\<close>.  The body hash is passed on without a null check; the result \<open>None\<close>
  is the null dereference in \<open>verifySignature\<close>.
\<close>

function verify_loop ::
  "'c sha_lib \<Rightarrow> ('pk, 'sg) ec_lib \<Rightarrow> header \<Rightarrow> block list \<Rightarrow> nat \<Rightarrow> bool option" where
  "verify_loop S Ec header blocks index =
     (if index < length blocks then
        case (if index = 0 then
                getHashN S
                  [hdr_data header, data_bytes (hdr_privateKey header),
                   data_bytes (hdr_publicKey header)] 2
              else
                let lastBlock = blocks ! (index - 1) in Some (c_hash (block_data lastBlock))) of
          None \<Rightarrow> Some False
        | Some prevHash \<Rightarrow>
            let block = block_data (blocks ! index);
                bodyHash = getHash S
                  [data_bytes prevHash, data_bytes (c_nonce block), c_data block]
            in case verifySignature Ec bodyHash (hdr_publicKey header) (c_signature block) of
                 None \<Rightarrow> None
               | Some ok \<Rightarrow>
                   if \<not> ok then Some False
                   else
                     case getHash S
                            [data_bytes prevHash, data_bytes (c_nonce block), c_data block,
                             data_bytes (c_signature block)] of
                       None \<Rightarrow> Some False
                     | Some hash \<Rightarrow>
                         if data_bytes (c_hash block) \<noteq> data_bytes hash then Some False
                         else verify_loop S Ec header blocks (index + 1)
      else Some True)"
  by pat_completeness auto
termination
  by (relation "measure (\<lambda>(S, Ec, header, blocks, index). length blocks - index)") auto

declare verify_loop.simps [simp del]

definition Manager_verifyChain ::
  "('w, 'h, 'c, 'pk, 'sg) env \<Rightarrow> manager \<Rightarrow> size_t \<Rightarrow> 'w \<Rightarrow> (bool \<times> 'w) option" where
  "Manager_verifyChain E M chainId w =
     (let chain = \<lparr>chain_path = makeStoragePath M chainId\<rparr> in
      case Chain_getHeader (env_pb E) (env_db E) chain w of
        (None, w) \<Rightarrow> Some (False, w)
      | (Some header, w) \<Rightarrow>
          (case Chain_getBlocks (env_pb E) (env_db E) chain [] w of
             None \<Rightarrow> None
           | Some (ok, blocks, w) \<Rightarrow>
               if \<not> ok then Some (False, w)
               else map_option (\<lambda>valid. (valid, w))
                      (verify_loop (env_sha E) (env_ec E) header blocks 0)))"

definition Manager_getChainHeader ::
  "('w, 'h, 'c, 'pk, 'sg) env \<Rightarrow> manager \<Rightarrow> size_t \<Rightarrow> 'w \<Rightarrow> header option \<times> 'w" where
  "Manager_getChainHeader E M chainId w =
     (case Chain_getHeader (env_pb E) (env_db E) \<lparr>chain_path = makeStoragePath M chainId\<rparr> w of
        (None, w) \<Rightarrow> (None, w)
      | (Some header, w) \<Rightarrow> (Some header, w))"

text \<open>The out parameters \<open>version\<close> and \<open>index\<close> keep their values when the call fails.\<close>

definition Manager_getChainInfo ::
  "('w, 'h, 'c, 'pk, 'sg) env \<Rightarrow> manager \<Rightarrow> size_t \<Rightarrow> size_t \<times> size_t \<Rightarrow> 'w
     \<Rightarrow> bool \<times> (size_t \<times> size_t) \<times> 'w" where
  "Manager_getChainInfo E M chainId out w =
     (case Chain_getHeader (env_pb E) (env_db E) \<lparr>chain_path = makeStoragePath M chainId\<rparr> w of
        (None, w) \<Rightarrow> (False, out, w)
      | (Some header, w) \<Rightarrow> (True, (hdr_version header, hdr_index header), w))"

lemma makeStoragePath_inject [simp]:
  "makeStoragePath M a = makeStoragePath M b \<longleftrightarrow> a = b"
  by (simp add: makeStoragePath_def Let_def)

end
