(* ===== verification/Hash_Chain.thy ===== *)
theory Hash_Chain
  imports Manager
begin

text \<open>
  What \<open>verifyChain\<close> checks, as a recursion over the list of blocks, and what follows from it: the
  index loop of the code computes exactly this predicate, appending a properly linked block keeps
  it, prefixes keep it, and two verified chains that end in the same hash have the same contents
  unless they exhibit a collision of the hash function.
\<close>

section \<open>The reference predicate\<close>

definition genesis_hash :: "'c sha_lib \<Rightarrow> header \<Rightarrow> hash option" where
  "genesis_hash S h =
     getHashN S [hdr_data h, data_bytes (hdr_privateKey h), data_bytes (hdr_publicKey h)] 2"

text \<open>The strings that are signed and hashed for a block whose predecessor has the hash \<open>prev\<close>.\<close>

definition signed_part :: "hash \<Rightarrow> block \<Rightarrow> bytes list" where
  "signed_part prev b =
     [data_bytes prev, data_bytes (c_nonce (block_data b)), c_data (block_data b)]"

definition hashed_part :: "hash \<Rightarrow> block \<Rightarrow> bytes list" where
  "hashed_part prev b = signed_part prev b @ [data_bytes (c_signature (block_data b))]"

definition link_ok :: "'c sha_lib \<Rightarrow> ('pk, 'sg) ec_lib \<Rightarrow> public_key \<Rightarrow> hash \<Rightarrow> block \<Rightarrow> bool" where
  "link_ok S Ec pub prev b \<longleftrightarrow>
     verifySignature Ec (getHash S (signed_part prev b)) pub (c_signature (block_data b)) = Some True \<and>
     getHash S (hashed_part prev b) = Some (c_hash (block_data b))"

fun links :: "'c sha_lib \<Rightarrow> ('pk, 'sg) ec_lib \<Rightarrow> public_key \<Rightarrow> hash \<Rightarrow> block list \<Rightarrow> bool" where
  "links S Ec pub prev [] \<longleftrightarrow> True"
| "links S Ec pub prev (b # bs) \<longleftrightarrow>
     link_ok S Ec pub prev b \<and> links S Ec pub (c_hash (block_data b)) bs"

definition verified :: "'c sha_lib \<Rightarrow> ('pk, 'sg) ec_lib \<Rightarrow> header \<Rightarrow> block list \<Rightarrow> bool" where
  "verified S Ec h bs \<longleftrightarrow>
     bs = [] \<or> (\<exists>g. genesis_hash S h = Some g \<and> links S Ec (hdr_publicKey h) g bs)"

definition tip_hash :: "hash \<Rightarrow> block list \<Rightarrow> hash" where
  "tip_hash g bs = (if bs = [] then g else c_hash (block_data (last bs)))"

lemma tip_hash_simps [simp]:
  "tip_hash g [] = g" "tip_hash g (bs @ [b]) = c_hash (block_data b)"
  by (simp_all add: tip_hash_def)

lemma links_append:
  "links S Ec pub g (bs @ cs) \<longleftrightarrow> links S Ec pub g bs \<and> links S Ec pub (tip_hash g bs) cs"
  by (induction bs arbitrary: g) (auto simp: tip_hash_def)

lemma genesis_hash_index [simp]: "genesis_hash S (h\<lparr>hdr_index := i\<rparr>) = genesis_hash S h"
  by (simp add: genesis_hash_def)

lemma verified_index [simp]: "verified S Ec (h\<lparr>hdr_index := i\<rparr>) bs = verified S Ec h bs"
  by (simp add: verified_def)

lemma verified_Nil [simp]: "verified S Ec h []"
  by (simp add: verified_def)

lemma verified_snoc:
  "genesis_hash S h = Some g \<Longrightarrow> verified S Ec h bs \<Longrightarrow>
    link_ok S Ec (hdr_publicKey h) (tip_hash g bs) b \<Longrightarrow> verified S Ec h (bs @ [b])"
  by (auto simp: verified_def links_append)

lemma verified_prefix: "verified S Ec h (bs @ cs) \<Longrightarrow> verified S Ec h bs"
  by (auto simp: verified_def links_append)

lemma verified_genesis: "verified S Ec h bs \<Longrightarrow> bs \<noteq> [] \<Longrightarrow> \<exists>g. genesis_hash S h = Some g"
  by (auto simp: verified_def)

section \<open>The loop computes the predicate\<close>

text \<open>One turn of the loop: \<open>None\<close> is the null dereference, \<open>Some True\<close> goes on.\<close>

definition verify_turn ::
  "'c sha_lib \<Rightarrow> ('pk, 'sg) ec_lib \<Rightarrow> public_key \<Rightarrow> hash \<Rightarrow> block \<Rightarrow> bool option" where
  "verify_turn S Ec pub prev b =
     (case verifySignature Ec (getHash S (signed_part prev b)) pub (c_signature (block_data b)) of
        None \<Rightarrow> None
      | Some ok \<Rightarrow> Some (ok \<and> getHash S (hashed_part prev b) = Some (c_hash (block_data b))))"

definition previous :: "'c sha_lib \<Rightarrow> header \<Rightarrow> block list \<Rightarrow> nat \<Rightarrow> hash option" where
  "previous S h bs i =
     (if i = 0 then genesis_hash S h else Some (c_hash (block_data (bs ! (i - 1)))))"

lemma verify_loop_unfold:
  "verify_loop S Ec h bs i =
     (if i < length bs then
        case previous S h bs i of
          None \<Rightarrow> Some False
        | Some prev \<Rightarrow>
            (case verify_turn S Ec (hdr_publicKey h) prev (bs ! i) of
               None \<Rightarrow> None
             | Some go \<Rightarrow> if go then verify_loop S Ec h bs (Suc i) else Some False)
      else Some True)"
proof (cases "previous S h bs i")
  case None
  then show ?thesis
    by (simp add: verify_loop.simps [of S Ec h bs i] previous_def genesis_hash_def split: if_splits)
next
  case (Some prev)
  let ?b = "bs ! i"
  have p: "(if i = 0 then getHashN S [hdr_data h, data_bytes (hdr_privateKey h),
        data_bytes (hdr_publicKey h)] 2
      else let lastBlock = bs ! (i - 1) in Some (c_hash (block_data lastBlock))) = Some prev"
    using Some by (simp add: previous_def genesis_hash_def Let_def split: if_splits)
  show ?thesis
    unfolding verify_loop.simps [of S Ec h bs i] p Some
    by (cases "verifySignature Ec (getHash S (signed_part prev ?b)) (hdr_publicKey h)
          (c_signature (block_data ?b))";
        cases "getHash S (hashed_part prev ?b)")
      (auto simp: verify_turn_def signed_part_def hashed_part_def Let_def data_bytes_inject)
qed

lemma verify_turn_link:
  "verify_turn S Ec pub prev b = Some True \<longleftrightarrow> link_ok S Ec pub prev b"
  by (auto simp: verify_turn_def link_ok_def split: option.splits)

lemma verify_loop_step:
  "i < length bs \<Longrightarrow> previous S h bs i = Some prev \<Longrightarrow>
    verify_loop S Ec h bs i = Some True \<longleftrightarrow>
    link_ok S Ec (hdr_publicKey h) prev (bs ! i) \<and> verify_loop S Ec h bs (Suc i) = Some True"
  by (simp add: verify_loop_unfold [of S Ec h bs i] verify_turn_link [symmetric] split: option.split)

lemma verify_loop_links:
  assumes "genesis_hash S h = Some g" and "i \<le> length bs"
  shows "verify_loop S Ec h bs i = Some True \<longleftrightarrow>
    links S Ec (hdr_publicKey h) (tip_hash g (take i bs)) (drop i bs)"
  using assms(2)
proof (induction "length bs - i" arbitrary: i)
  case 0
  then show ?case by (simp add: verify_loop.simps [of S Ec h bs i])
next
  case (Suc k)
  then have i: "i < length bs" by simp
  let ?prev = "tip_hash g (take i bs)"
  have "previous S h bs i = Some ?prev"
    using i assms(1) by (cases i) (simp_all add: previous_def take_Suc_conv_app_nth)
  note step = verify_loop_step [OF i this, of Ec]
  have "verify_loop S Ec h bs (Suc i) = Some True \<longleftrightarrow>
      links S Ec (hdr_publicKey h) (tip_hash g (take (Suc i) bs)) (drop (Suc i) bs)"
    using Suc.hyps(2) i by (intro Suc.hyps(1)) simp_all
  with step i show ?case
    by (simp add: Cons_nth_drop_Suc [symmetric] take_Suc_conv_app_nth)
qed

lemma verify_loop_verified: "verify_loop S Ec h bs 0 = Some True \<longleftrightarrow> verified S Ec h bs"
proof (cases "bs = []")
  case True
  then show ?thesis by (simp add: verify_loop.simps)
next
  case False
  show ?thesis
  proof (cases "genesis_hash S h")
    case None
    with False show ?thesis
      by (simp add: verify_loop.simps [of S Ec h bs 0] verified_def genesis_hash_def)
  next
    case (Some g)
    with verify_loop_links [OF Some, of 0 bs] False show ?thesis
      by (simp add: verified_def)
  qed
qed

text \<open>Without a failing hash function the loop ends in a verdict.\<close>

text \<open>A prefix verifies when all turns before its end succeed.\<close>

definition turn_succeeds :: "'c sha_lib \<Rightarrow> ('pk, 'sg) ec_lib \<Rightarrow> header \<Rightarrow> block list \<Rightarrow> nat \<Rightarrow> bool" where
  "turn_succeeds S Ec h bs i \<longleftrightarrow>
     (\<exists>prev. previous S h bs i = Some prev \<and> link_ok S Ec (hdr_publicKey h) prev (bs ! i))"

lemma previous_tip:
  "genesis_hash S h = Some g \<Longrightarrow> i < length bs \<Longrightarrow> previous S h bs i = Some (tip_hash g (take i bs))"
  by (cases i) (simp_all add: previous_def take_Suc_conv_app_nth)

lemma verified_take:
  "i \<le> length bs \<Longrightarrow> verified S Ec h (take i bs) \<longleftrightarrow> (\<forall>k < i. turn_succeeds S Ec h bs k)"
proof (induction i)
  case 0
  then show ?case by simp
next
  case (Suc i)
  then have i: "i < length bs" and IH: "verified S Ec h (take i bs) \<longleftrightarrow> (\<forall>k < i. turn_succeeds S Ec h bs k)"
    by simp_all
  show ?case
  proof (cases "genesis_hash S h")
    case None
    then have "\<not> turn_succeeds S Ec h bs 0" by (simp add: turn_succeeds_def previous_def)
    moreover have "\<not> verified S Ec h (take (Suc i) bs)" using None i by (auto simp: verified_def)
    ultimately show ?thesis by auto
  next
    case (Some g)
    have t: "turn_succeeds S Ec h bs i \<longleftrightarrow>
        link_ok S Ec (hdr_publicKey h) (tip_hash g (take i bs)) (bs ! i)"
      by (simp add: turn_succeeds_def previous_tip [OF Some i])
    have "verified S Ec h (take (Suc i) bs) \<longleftrightarrow>
        verified S Ec h (take i bs) \<and> turn_succeeds S Ec h bs i"
      using Some i by (auto simp: t verified_def take_Suc_conv_app_nth links_append)
    with IH show ?thesis by (auto simp: less_Suc_eq)
  qed
qed

text \<open>The loop crashes in the turn where the hash of a body is null and gets used.\<close>

definition null_body_hash :: "'c sha_lib \<Rightarrow> ('pk, 'sg) ec_lib \<Rightarrow> header \<Rightarrow> block list \<Rightarrow> nat \<Rightarrow> bool" where
  "null_body_hash S Ec h bs i \<longleftrightarrow>
     (\<exists>prev. previous S h bs i = Some prev \<and> getHash S (signed_part prev (bs ! i)) = None \<and>
        ec_pubkey_parse Ec (hdr_publicKey h) \<noteq> None \<and>
        ecdsa_signature_parse_compact Ec (c_signature (block_data (bs ! i))) \<noteq> None)"

lemma verify_turn_None:
  "verify_turn S Ec pub prev b = None \<longleftrightarrow>
    getHash S (signed_part prev b) = None \<and> ec_pubkey_parse Ec pub \<noteq> None \<and>
    ecdsa_signature_parse_compact Ec (c_signature (block_data b)) \<noteq> None"
  by (auto simp: verify_turn_def verifySignature_def split: option.split)

lemma null_body_hash_turn:
  "null_body_hash S Ec h bs i \<longleftrightarrow>
    (\<exists>prev. previous S h bs i = Some prev \<and> verify_turn S Ec (hdr_publicKey h) prev (bs ! i) = None)"
  by (simp only: null_body_hash_def verify_turn_None)

lemma verify_loop_turn:
  "i < length bs \<Longrightarrow> verify_loop S Ec h bs i = None \<longleftrightarrow>
    null_body_hash S Ec h bs i \<or> turn_succeeds S Ec h bs i \<and> verify_loop S Ec h bs (Suc i) = None"
  by (subst verify_loop_unfold)
    (simp add: null_body_hash_turn turn_succeeds_def verify_turn_link [symmetric] split: option.split)

lemma verify_loop_None:
  "i \<le> length bs \<Longrightarrow> verify_loop S Ec h bs i = None \<longleftrightarrow>
    (\<exists>j. i \<le> j \<and> j < length bs \<and> null_body_hash S Ec h bs j \<and>
       (\<forall>k. i \<le> k \<and> k < j \<longrightarrow> turn_succeeds S Ec h bs k))"
proof (induction "length bs - i" arbitrary: i)
  case 0
  then show ?case by (auto simp: verify_loop.simps [of S Ec h bs i])
next
  case (Suc n)
  then have i: "i < length bs" and IH: "verify_loop S Ec h bs (Suc i) = None \<longleftrightarrow>
      (\<exists>j. Suc i \<le> j \<and> j < length bs \<and> null_body_hash S Ec h bs j \<and>
         (\<forall>k. Suc i \<le> k \<and> k < j \<longrightarrow> turn_succeeds S Ec h bs k))"
    by simp_all
  show ?case
    unfolding verify_loop_turn [OF i] IH
    using i by (auto simp: le_eq_less_or_eq [of i] Suc_le_eq)
qed

lemma verify_loop_total: "sha_live S \<Longrightarrow> verify_loop S Ec h bs i \<noteq> None"
proof (induction "length bs - i" arbitrary: i)
  case 0
  then show ?case by (simp add: verify_loop.simps [of S Ec h bs i])
next
  case (Suc k)
  then have "verify_loop S Ec h bs (Suc i) \<noteq> None" by simp
  moreover have "\<exists>y. verify_turn S Ec (hdr_publicKey h) prev b = Some y" for prev b
    using verifySignature_Some [OF getHash_live [OF \<open>sha_live S\<close>]]
    by (force simp: verify_turn_def split: option.splits)
  then have "verify_turn S Ec (hdr_publicKey h) prev b \<noteq> None" for prev b by (metis option.distinct(1))
  ultimately show ?case
    by (subst verify_loop_unfold) (simp split: option.split del: not_None_eq)
qed

section \<open>Tamper evidence\<close>

definition contents :: "block \<Rightarrow> nonce \<times> bytes \<times> signature \<times> hash" where
  "contents b = (c_nonce (block_data b), c_data (block_data b), c_signature (block_data b),
     c_hash (block_data b))"

text \<open>
  Everything that is hashed for a chain: the digest of the header (it is hashed twice) and for each
  block the bytes its hash is computed from.
\<close>

fun hash_inputs :: "bytes \<Rightarrow> hash \<Rightarrow> block list \<Rightarrow> bytes list" where
  "hash_inputs g0 prev [] = [g0]"
| "hash_inputs g0 prev (b # bs) =
     concat (hashed_part prev b) # hash_inputs g0 (c_hash (block_data b)) bs"

definition header_digest :: "(bytes \<Rightarrow> hash) \<Rightarrow> header \<Rightarrow> bytes" where
  "header_digest H h =
     data_bytes (H (hdr_data h @ data_bytes (hdr_privateKey h) @ data_bytes (hdr_publicKey h)))"

definition chain_inputs :: "(bytes \<Rightarrow> hash) \<Rightarrow> header \<Rightarrow> block list \<Rightarrow> bytes list" where
  "chain_inputs H h bs = hash_inputs (header_digest H h) (H (header_digest H h)) bs"

lemma genesis_hash_eq: "sha_ok S H \<Longrightarrow> genesis_hash S h = Some g \<Longrightarrow> g = H (header_digest H h)"
  using getHashN_two by (fastforce simp: genesis_hash_def header_digest_def)

lemma hash_inputs_append:
  "set (hash_inputs g0 g (bs @ [b])) =
    insert (concat (hashed_part (tip_hash g bs) b)) (set (hash_inputs g0 g bs))"
  by (induction bs arbitrary: g) (auto simp: tip_hash_def)

lemma hash_inputs_first: "g0 \<in> set (hash_inputs g0 g bs)"
  by (induction bs arbitrary: g) auto

lemma hashed_part_inject:
  "concat (hashed_part p b) = concat (hashed_part q c) \<longleftrightarrow>
    p = q \<and> c_nonce (block_data b) = c_nonce (block_data c) \<and>
    c_data (block_data b) = c_data (block_data c) \<and>
    c_signature (block_data b) = c_signature (block_data c)"
  by (simp add: hashed_part_def signed_part_def)

lemma length_hashed_part: "104 \<le> length (concat (hashed_part p b))"
  by (simp add: hashed_part_def signed_part_def)

lemma links_tip:
  "sha_ok S H \<Longrightarrow> links S Ec pub g (bs @ [b]) \<Longrightarrow>
    c_hash (block_data b) = H (concat (hashed_part (tip_hash g bs) b))"
  using getHash_eq by (fastforce simp: links_append link_ok_def)

text \<open>
  Two chains over the same genesis hash that end in the same hash are equal, or the hashed bytes
  contain a collision.  Their lengths need not agree: the digest of the header is too short to be
  the hashed part of a block.
\<close>

lemma links_collision:
  assumes sha: "sha_ok S H" and g: "g = H g0" "length g0 = 32"
  shows "links S Ec pub g bs \<Longrightarrow> links S Ec pub g cs \<Longrightarrow> tip_hash g bs = tip_hash g cs \<Longrightarrow>
    map contents bs = map contents cs \<or>
    (\<exists>x \<in> set (hash_inputs g0 g bs). \<exists>y \<in> set (hash_inputs g0 g cs). x \<noteq> y \<and> H x = H y)"
proof (induction bs arbitrary: cs rule: rev_induct)
  case Nil
  show ?case
  proof (cases cs rule: rev_cases)
    case (snoc cs' c)
    let ?y = "concat (hashed_part (tip_hash g cs') c)"
    have "H g0 = H ?y" using Nil snoc links_tip [OF sha] g(1) by fastforce
    moreover have "g0 \<noteq> ?y" using g(2) length_hashed_part [of "tip_hash g cs'" c] by auto
    ultimately show ?thesis by (auto simp: snoc hash_inputs_append)
  qed simp
next
  case (snoc b bs)
  let ?x = "concat (hashed_part (tip_hash g bs) b)"
  have hx: "c_hash (block_data b) = H ?x" by (rule links_tip [OF sha snoc.prems(1)])
  show ?case
  proof (cases cs rule: rev_cases)
    case Nil
    have "H ?x = H g0" using snoc.prems(3) hx g(1) Nil by simp
    moreover have "?x \<noteq> g0" using g(2) length_hashed_part [of "tip_hash g bs" b] by auto
    ultimately show ?thesis by (auto simp: Nil hash_inputs_append)
  next
    case cs: (snoc cs' c)
    let ?y = "concat (hashed_part (tip_hash g cs') c)"
    have hy: "c_hash (block_data c) = H ?y" using links_tip [OF sha] snoc.prems(2) cs by blast
    have eq: "H ?x = H ?y" using snoc.prems(3) hx hy cs by simp
    show ?thesis
    proof (cases "?x = ?y")
      case False
      with eq show ?thesis by (auto simp: cs hash_inputs_append)
    next
      case True
      then have "tip_hash g bs = tip_hash g cs'" and "contents b = contents c"
        using snoc.prems(3) cs by (simp_all add: hashed_part_inject contents_def)
      with snoc.IH [of cs'] snoc.prems(1,2) show ?thesis
        by (auto simp: cs links_append hash_inputs_append)
    qed
  qed
qed

lemma verified_collision:
  assumes sha: "sha_ok S H" and v: "verified S Ec h bs" "verified S Ec h cs"
    and ne: "bs \<noteq> []" "cs \<noteq> []"
    and eq: "c_hash (block_data (last bs)) = c_hash (block_data (last cs))"
  shows "map contents bs = map contents cs \<or>
    (\<exists>x \<in> set (chain_inputs H h bs). \<exists>y \<in> set (chain_inputs H h cs). x \<noteq> y \<and> H x = H y)"
proof -
  from v ne obtain g where g: "genesis_hash S h = Some g"
    and l: "links S Ec (hdr_publicKey h) g bs" "links S Ec (hdr_publicKey h) g cs"
    by (auto simp: verified_def)
  have "length (header_digest H h) = 32" by (simp add: header_digest_def)
  from links_collision [OF sha genesis_hash_eq [OF sha g] this l] eq ne show ?thesis
    by (simp add: chain_inputs_def tip_hash_def genesis_hash_eq [OF sha g, symmetric])
qed

section \<open>What verification does not cover\<close>

definition with_prevHash :: "(block \<Rightarrow> hash) \<Rightarrow> block \<Rightarrow> block" where
  "with_prevHash f b = b\<lparr>block_data := (block_data b)\<lparr>c_prevHash := f b\<rparr>\<rparr>"

lemma with_prevHash_simps [simp]:
  "c_hash (block_data (with_prevHash f b)) = c_hash (block_data b)"
  "c_nonce (block_data (with_prevHash f b)) = c_nonce (block_data b)"
  "c_data (block_data (with_prevHash f b)) = c_data (block_data b)"
  "c_signature (block_data (with_prevHash f b)) = c_signature (block_data b)"
  by (simp_all add: with_prevHash_def)

lemma verify_loop_with_prevHash:
  "verify_loop S Ec h (map (with_prevHash f) bs) i = verify_loop S Ec h bs i"
proof (induction "length bs - i" arbitrary: i)
  case 0
  then show ?case by (simp add: verify_loop_unfold [of S Ec h _ i])
next
  case (Suc k)
  then have "verify_loop S Ec h (map (with_prevHash f) bs) (Suc i) = verify_loop S Ec h bs (Suc i)"
    and "i < length bs" by simp_all
  moreover from this have "previous S h (map (with_prevHash f) bs) i = previous S h bs i"
    by (simp add: previous_def)
  moreover have "verify_turn S Ec pub prev (with_prevHash f b) = verify_turn S Ec pub prev b"
    for pub prev b by (simp add: verify_turn_def signed_part_def hashed_part_def split: option.split)
  ultimately show ?case by (simp add: verify_loop_unfold [of S Ec h _ i] split: option.split)
qed

end
