(* ===== verification/Chain_Service.thy ===== *)
theory Chain_Service
  imports Hash_Chain "HOL-Library.Sublist"
begin

text \<open>
  What the operations of the manager do to the chains.  The abstract state of chain \<open>i\<close> is its
  ledger, \<open>chain_ledger\<close>; creating a chain makes an empty one, adding a block appends a linked and
  signed block or changes nothing, every other operation but removal only reads, and no operation
  touches another chain or leaves a database open.  \<open>sound_chain\<close> is the invariant of the
  storage: the ledger exists and verifies.
\<close>

section \<open>The environment\<close>

definition env_ok :: "('w, 'h, 'c, 'pk, 'sg) env \<Rightarrow> ('w, 'h) db_view \<Rightarrow> bool" where
  "env_ok E V \<longleftrightarrow>
     db_ok (env_db E) V \<and> rand_ok (env_rand E) (\<lambda>w. (disk V w, handles V w)) \<and>
     ec_ok (env_ec E) \<and> pb_ok (env_pb E)"

definition env_live :: "('w, 'h, 'c, 'pk, 'sg) env \<Rightarrow> ('w, 'h) db_view \<Rightarrow> bool" where
  "env_live E V \<longleftrightarrow>
     db_live (env_db E) V \<and> rand_live (env_rand E) \<and> sha_live (env_sha E) \<and>
     ec_live (env_ec E) \<and> pb_live (env_pb E)"

lemma env_okD:
  "env_ok E V \<Longrightarrow> db_ok (env_db E) V"
  "env_ok E V \<Longrightarrow> rand_ok (env_rand E) (\<lambda>w. (disk V w, handles V w))"
  "env_ok E V \<Longrightarrow> ec_ok (env_ec E)"
  "env_ok E V \<Longrightarrow> pb_ok (env_pb E)"
  by (simp_all add: env_ok_def)

lemma env_liveD:
  "env_live E V \<Longrightarrow> db_live (env_db E) V" "env_live E V \<Longrightarrow> rand_live (env_rand E)"
  "env_live E V \<Longrightarrow> sha_live (env_sha E)" "env_live E V \<Longrightarrow> ec_live (env_ec E)"
  "env_live E V \<Longrightarrow> pb_live (env_pb E)"
  by (simp_all add: env_live_def)

lemma generateNonce_unchanged:
  "env_ok E V \<Longrightarrow> generateNonce (env_rand E) w = (r, w') \<Longrightarrow> unchanged V w w'"
  by (rule obs_unchanged) (rule generateNonce_obs [OF env_okD(2)])

lemma generatePrivateKey_unchanged:
  "env_ok E V \<Longrightarrow> generatePrivateKey (env_rand E) Ec w = (r, w') \<Longrightarrow> unchanged V w w'"
  by (rule obs_unchanged) (rule generatePrivateKey_obs [OF env_okD(2)])

section \<open>Ledgers\<close>

definition chain_ledger ::
  "('w, 'h, 'c, 'pk, 'sg) env \<Rightarrow> ('w, 'h) db_view \<Rightarrow> manager \<Rightarrow> 'w \<Rightarrow> size_t
     \<Rightarrow> (header \<times> block list) option" where
  "chain_ledger E V M w i = Option.bind (disk V w (makeStoragePath M i)) (ledger (env_pb E))"

text \<open>The hash a new block on top of \<open>bs\<close> has to refer to.\<close>

definition prev_hash :: "'c sha_lib \<Rightarrow> header \<Rightarrow> block list \<Rightarrow> hash option" where
  "prev_hash S h bs =
     (if bs = [] then genesis_hash S h else Some (c_hash (block_data (last bs))))"

text \<open>\<open>b\<close> is a block with the given data, linked to \<open>prev\<close>, hashed and signed.\<close>

definition new_block ::
  "('w, 'h, 'c, 'pk, 'sg) env \<Rightarrow> header \<Rightarrow> hash \<Rightarrow> bytes \<Rightarrow> block \<Rightarrow> bool" where
  "new_block E h prev d b \<longleftrightarrow>
     c_prevHash (block_data b) = prev \<and> c_data (block_data b) = d \<and>
     (\<exists>body. getHash (env_sha E) (signed_part prev b) = Some body \<and>
        getSignature (env_ec E) body (hdr_privateKey h) = Some (c_signature (block_data b))) \<and>
     getHash (env_sha E) (hashed_part prev b) = Some (c_hash (block_data b))"

lemma new_block_link:
  assumes "ec_ok (env_ec E)" and "createPublicKey (env_ec E) (hdr_privateKey h) = Some (hdr_publicKey h)"
    and "new_block E h prev d b"
  shows "link_ok (env_sha E) (env_ec E) (hdr_publicKey h) prev b"
  using assms verify_getSignature [OF assms(1,2)] by (auto simp: new_block_def link_ok_def)

lemma ledger_last:
  assumes "ledger P m = Some (h, bs)" and "hdr_index h \<noteq> 0"
  shows "bs \<noteq> [] \<and> stored_block P m (hdr_index h) = Some (last bs)"
proof -
  have len: "length bs = unat (hdr_index h)" by (rule ledger_length [OF assms(1)])
  with assms(2) have "bs \<noteq> []" by (auto simp: unat_eq_0)
  moreover have "0 < hdr_index h" using assms(2) by (simp add: word_neq_0_conv)
  ultimately show ?thesis
    using ledger_nth [OF assms(1)] len by (simp add: last_conv_nth)
qed

lemma ledger_index_zero: "ledger P m = Some (h, bs) \<Longrightarrow> hdr_index h = 0 \<longleftrightarrow> bs = []"
  by (drule ledger_length) (auto simp: unat_eq_0 [symmetric])

section \<open>Creating a chain\<close>

lemma Manager_createChain_effect:
  assumes ok: "env_ok E V" and c: "Manager_createChain E M i d w = (r, w')"
  shows "undisturbed V (makeStoragePath M i) w w'"
    and "r = Some ch \<Longrightarrow> chain_path ch = makeStoragePath M i \<and> disk V w (chain_path ch) = None \<and>
      (\<exists>priv pub. ec_seckey_verify (env_ec E) priv \<and> createPublicKey (env_ec E) priv = Some pub \<and>
        chain_ledger E V M w' i = Some (header_new DB_VERSION d priv pub, []))"
    and "disk V w (makeStoragePath M i) = Some m \<Longrightarrow>
      r = None \<and> disk V w' (makeStoragePath M i) = Some m"
proof -
  let ?p = "makeStoragePath M i" and ?c = "\<lparr>chain_path = makeStoragePath M i\<rparr>"
  obtain so w1 where g: "generatePrivateKey (env_rand E) (env_ec E) w = (so, w1)"
    by (cases "generatePrivateKey (env_rand E) (env_ec E) w")
  note u = generatePrivateKey_unchanged [OF ok g]
  have "undisturbed V ?p w w' \<and>
    (\<forall>ch. r = Some ch \<longrightarrow> ch = ?c \<and> disk V w ?p = None \<and>
      (\<exists>priv pub. ec_seckey_verify (env_ec E) priv \<and> createPublicKey (env_ec E) priv = Some pub \<and>
        chain_ledger E V M w' i = Some (header_new DB_VERSION d priv pub, []))) \<and>
    (disk V w ?p \<noteq> None \<longrightarrow> r = None \<and> disk V w' ?p = disk V w ?p)"
  proof (cases "Option.bind so (createPublicKey (env_ec E))")
    case None
    then have "r = None" and "w' = w1"
      using c g by (auto simp: Manager_createChain_def bind_eq_None_conv split: option.splits)
    with u show ?thesis by (simp add: unchanged_undisturbed unchanged_disk)
  next
    case (Some pub)
    then obtain priv where so: "so = Some priv" and pub: "createPublicKey (env_ec E) priv = Some pub"
      by (auto simp: bind_eq_Some_conv)
    have valid: "ec_seckey_verify (env_ec E) priv"
      using generatePrivateKey_valid g so by fastforce
    obtain ok' where cc: "Chain_create (env_pb E) (env_db E) ?c d priv pub w1 = (ok', w')"
      and r: "r = (if ok' then Some ?c else None)"
      using c g so pub
      by (auto simp: Manager_createChain_def Let_def split: prod.splits if_splits)
    note e = Chain_create_effect [OF env_okD(1) [OF ok] cc, simplified]
    have "undisturbed V ?p w w'"
      using u e(1) by (blast intro: undisturbed_trans unchanged_undisturbed)
    moreover have "disk V w ?p = None \<and>
        chain_ledger E V M w' i = Some (header_new DB_VERSION d priv pub, [])" if "ok'"
      using e(2) [OF that] ledger_created [OF env_okD(4) [OF ok]] unchanged_disk [OF u]
      by (auto simp: chain_ledger_def)
    ultimately show ?thesis
      using e(3) r valid pub unchanged_disk [OF u] by auto
  qed
  then show "undisturbed V ?p w w'"
    and "r = Some ch \<Longrightarrow> chain_path ch = ?p \<and> disk V w (chain_path ch) = None \<and>
      (\<exists>priv pub. ec_seckey_verify (env_ec E) priv \<and> createPublicKey (env_ec E) priv = Some pub \<and>
        chain_ledger E V M w' i = Some (header_new DB_VERSION d priv pub, []))"
    and "disk V w ?p = Some m \<Longrightarrow> r = None \<and> disk V w' ?p = Some m"
    by auto
qed

section \<open>Adding a block\<close>

text \<open>The hash the new block refers to, as the code finds it in the database.\<close>

definition found_prev :: "('w, 'h, 'c, 'pk, 'sg) env \<Rightarrow> kv_map \<Rightarrow> header \<Rightarrow> hash \<Rightarrow> bool" where
  "found_prev E m h prev \<longleftrightarrow>
     (if hdr_index h = 0 then genesis_hash (env_sha E) h = Some prev
      else \<exists>b. stored_block (env_pb E) m (hdr_index h) = Some b \<and> prev = c_hash (block_data b))"

lemma found_prev_ledger:
  "ledger (env_pb E) m = Some (h, bs) \<Longrightarrow> found_prev E m h prev \<Longrightarrow>
    prev_hash (env_sha E) h bs = Some prev"
  using ledger_last ledger_index_zero
  by (fastforce simp: found_prev_def prev_hash_def split: if_splits)

lemma Manager_addBlock_prev:
  assumes ok: "env_ok E V" and m: "disk V w p = Some m"
    and "(if hdr_index h = 0 then
            (getHashN (env_sha E) [hdr_data h, data_bytes (hdr_privateKey h),
               data_bytes (hdr_publicKey h)] 2, w)
          else case Chain_getBlock (env_pb E) (env_db E) \<lparr>chain_path = p\<rparr> (hdr_index h) w of
                 (None, w) \<Rightarrow> (None, w)
               | (Some lastBlock, w) \<Rightarrow> (Some (c_hash (block_data lastBlock)), w)) = (r, w')"
  shows "unchanged V w w' \<and> (\<forall>prev. r = Some prev \<longrightarrow> found_prev E m h prev)"
proof (cases "hdr_index h = 0")
  case True
  with assms(3) show ?thesis by (auto simp: found_prev_def genesis_hash_def)
next
  case False
  then obtain b where "Chain_getBlock (env_pb E) (env_db E) \<lparr>chain_path = p\<rparr> (hdr_index h) w = (b, w')"
    and "r = map_option (\<lambda>b. c_hash (block_data b)) b"
    using assms(3) by (auto split: prod.splits option.splits)
  with Chain_getBlock_effect [OF env_okD(1) [OF ok]] m False show ?thesis
    by (fastforce simp: found_prev_def)
qed

lemma Manager_addBlock_effect:
  assumes ok: "env_ok E V" and a: "Manager_addBlock E M i d w = (r, w')"
  shows "r = None \<and> unchanged V w w' \<or>
    (\<exists>m m' h prev b. disk V w (makeStoragePath M i) = Some m \<and>
       disk V w' (makeStoragePath M i) = Some m' \<and> undisturbed V (makeStoragePath M i) w w' \<and>
       stored_header (env_pb E) m = Some h \<and> found_prev E m h prev \<and> new_block E h prev d b \<and>
       appended (env_pb E) b m m' \<and> (r = None \<or> r = Some b))"
proof -
  let ?p = "makeStoragePath M i" and ?c = "\<lparr>chain_path = makeStoragePath M i\<rparr>"
  let ?prev = "\<lambda>h w. if hdr_index h = 0 then
            (getHashN (env_sha E) [hdr_data h, data_bytes (hdr_privateKey h),
               data_bytes (hdr_publicKey h)] 2, w)
          else case Chain_getBlock (env_pb E) (env_db E) ?c (hdr_index h) w of
                 (None, w) \<Rightarrow> (None, w)
               | (Some lastBlock, w) \<Rightarrow> (Some (c_hash (block_data lastBlock)), w)"
  obtain ho w1 where gh: "Chain_getHeader (env_pb E) (env_db E) ?c w = (ho, w1)"
    by (cases "Chain_getHeader (env_pb E) (env_db E) ?c w")
  note e1 = Chain_getHeader_effect [OF env_okD(1) [OF ok] gh, simplified]
  show ?thesis
  proof (cases ho)
    case None
    with a gh e1(1) show ?thesis by (simp add: Manager_addBlock_def)
  next
    case (Some h)
    from e1(2) [OF Some] obtain m where m: "disk V w ?p = Some m"
      and h: "stored_header (env_pb E) m = Some h" by blast
    have m1: "disk V w1 ?p = Some m" using m unchanged_disk [OF e1(1)] by simp
    obtain po w2 where pv: "?prev h w1 = (po, w2)" by (cases "?prev h w1")
    note e2 = Manager_addBlock_prev [OF ok m1 pv]
    obtain no w3 where gn: "generateNonce (env_rand E) w2 = (no, w3)"
      by (cases "generateNonce (env_rand E) w2")
    from e1(1) e2 have u2: "unchanged V w w2" by (blast intro: unchanged_trans)
    then have u3: "unchanged V w w3"
      using generateNonce_unchanged [OF ok gn] by (blast intro: unchanged_trans)
    show ?thesis
    proof (cases "\<exists>prev nonce body sig hash. po = Some prev \<and> no = Some nonce \<and>
        getHash (env_sha E) [data_bytes prev, data_bytes nonce, d] = Some body \<and>
        getSignature (env_ec E) body (hdr_privateKey h) = Some sig \<and>
        getHash (env_sha E) [data_bytes prev, data_bytes nonce, d, data_bytes sig] = Some hash")
      case False
      then have "r = None" and "w' = w2 \<or> w' = w3"
        using a gh Some pv gn
        by (auto simp: Manager_addBlock_def split: option.splits)
      with u2 u3 show ?thesis by blast
    next
      case True
      then obtain prev nonce body sig hash where f: "po = Some prev" "no = Some nonce"
        "getHash (env_sha E) [data_bytes prev, data_bytes nonce, d] = Some body"
        "getSignature (env_ec E) body (hdr_privateKey h) = Some sig"
        "getHash (env_sha E) [data_bytes prev, data_bytes nonce, d, data_bytes sig] = Some hash"
        by blast
      define b where "b = block_new \<lparr>c_hash = hash, c_prevHash = prev, c_nonce = nonce,
        c_data = d, c_signature = sig\<rparr>"
      have nb: "new_block E h prev d b"
        using f(3-5) by (simp add: new_block_def b_def signed_part_def hashed_part_def)
      obtain ok' where ab: "Chain_addBlock (env_pb E) (env_db E) ?c b w3 = (ok', w')"
        and r: "r = (if ok' then Some b else None)"
        using a gh Some pv gn f
        by (auto simp: Manager_addBlock_def b_def Let_def split: prod.splits if_splits)
      from Chain_addBlock_effect [OF env_okD(1) [OF ok] ab, simplified]
      show ?thesis
      proof (elim disjE exE conjE)
        fix m3 m'
        assume x: "disk V w3 ?p = Some m3" "disk V w' ?p = Some m'" "undisturbed V ?p w3 w'"
          "appended (env_pb E) b m3 m'"
        then have "m3 = m" "undisturbed V ?p w w'"
          using m u3 unchanged_disk [OF u3]
          by (auto intro: undisturbed_trans unchanged_undisturbed)
        with x m h e2 f(1) nb r show ?thesis by auto
      next
        assume "\<not> ok'" "unchanged V w3 w'"
        with u3 r show ?thesis by (auto intro: unchanged_trans)
      qed
    qed
  qed
qed

lemma Manager_addBlock_cases:
  assumes "env_ok E V" and "Manager_addBlock E M i d w = (r, w')"
  obtains (same) "r = None" "unchanged V w w'"
  | (new) m m' h prev b where "disk V w (makeStoragePath M i) = Some m"
      "disk V w' (makeStoragePath M i) = Some m'" "undisturbed V (makeStoragePath M i) w w'"
      "stored_header (env_pb E) m = Some h" "found_prev E m h prev" "new_block E h prev d b"
      "appended (env_pb E) b m m'" "r = None \<or> r = Some b"
  using Manager_addBlock_effect [OF assms] by blast

text \<open>The same in terms of ledgers: a refinement of appending to a list.\<close>

lemma Manager_addBlock_ledger:
  assumes ok: "env_ok E V" and a: "Manager_addBlock E M i d w = (r, w')"
    and l: "chain_ledger E V M w i = Some (h, bs)" and n: "hdr_index h \<noteq> - 1"
  shows "r = None \<and> chain_ledger E V M w' i = Some (h, bs) \<or>
    (\<exists>prev b. prev_hash (env_sha E) h bs = Some prev \<and> new_block E h prev d b \<and>
       chain_ledger E V M w' i = Some (h\<lparr>hdr_index := hdr_index h + 1\<rparr>, bs @ [b]) \<and>
       (r = None \<or> r = Some b))"
  using ok a
proof (cases rule: Manager_addBlock_cases)
  case same
  with l show ?thesis by (simp add: chain_ledger_def unchanged_disk)
next
  case x: (new m m' h' prev b)
  from l x(1) have lm: "ledger (env_pb E) m = Some (h, bs)" by (simp add: chain_ledger_def)
  with x(4) have [simp]: "h' = h" by (auto dest: ledgerD)
  from ledger_appended [OF env_okD(4) [OF ok] x(7) lm n] x(2)
  have "chain_ledger E V M w' i = Some (h\<lparr>hdr_index := hdr_index h + 1\<rparr>, bs @ [b])"
    by (simp add: chain_ledger_def)
  with found_prev_ledger [OF lm] x(5,6,8) show ?thesis by auto
qed

lemma Manager_addBlock_wraps:
  assumes ok: "env_ok E V" and a: "Manager_addBlock E M i d w = (r, w')"
    and l: "chain_ledger E V M w i = Some (h, bs)" and n: "hdr_index h = - 1"
  shows "r = None \<and> chain_ledger E V M w' i = Some (h, bs) \<or>
    chain_ledger E V M w' i = Some (h\<lparr>hdr_index := 0\<rparr>, [])"
  using ok a
proof (cases rule: Manager_addBlock_cases)
  case same
  with l show ?thesis by (simp add: chain_ledger_def unchanged_disk)
next
  case x: (new m m' h' prev b)
  from l x(1,4) have "h' = h" by (auto simp: chain_ledger_def dest: ledgerD)
  with ledger_appended_wraps [OF env_okD(4) [OF ok] x(7,4)] n x(2) show ?thesis
    by (simp add: chain_ledger_def)
qed

section \<open>Frames\<close>

lemma chain_ledger_unchanged: "unchanged V w w' \<Longrightarrow> chain_ledger E V M w' i = chain_ledger E V M w i"
  by (simp add: chain_ledger_def unchanged_disk)

lemma chain_ledger_other:
  "undisturbed V (makeStoragePath M j) w w' \<Longrightarrow> i \<noteq> j \<Longrightarrow>
    chain_ledger E V M w' i = chain_ledger E V M w i"
  by (simp add: chain_ledger_def undisturbed_disk)

lemma Manager_addBlock_undisturbed:
  assumes "env_ok E V" and "Manager_addBlock E M i d w = (r, w')"
  shows "undisturbed V (makeStoragePath M i) w w'"
  using Manager_addBlock_effect [OF assms] by (auto intro: unchanged_undisturbed)

lemma Manager_getBlock_effect:
  assumes "env_ok E V" and "Manager_getBlock E M i n w = (r, w')"
  shows "unchanged V w w'"
    and "r = Some b \<Longrightarrow> chain_ledger E V M w i = Some (h, bs) \<Longrightarrow>
      n \<noteq> 0 \<and> n \<le> hdr_index h \<and> b = bs ! (unat n - 1)"
proof -
  note e = Chain_getBlock_effect [OF env_okD(1) [OF assms(1)] assms(2) [unfolded Manager_getBlock_def]]
  then show "unchanged V w w'" by blast
  assume "r = Some b" and "chain_ledger E V M w i = Some (h, bs)"
  with e obtain m ha where l: "ledger (env_pb E) m = Some (h, bs)"
    and n: "stored_header (env_pb E) m = Some ha" "n \<noteq> 0" "n \<le> hdr_index ha"
      "stored_block (env_pb E) m n = Some b"
    by (auto simp: chain_ledger_def)
  from ledgerD [OF l] n ledger_nth [OF l, of n] show "n \<noteq> 0 \<and> n \<le> hdr_index h \<and> b = bs ! (unat n - 1)"
    by (simp add: word_neq_0_conv)
qed

lemma Manager_getBlocks_effect:
  assumes "env_ok E V" and "Manager_getBlocks E M i blocks w = Some (r, bs, w')"
  shows "unchanged V w w'"
    and "r \<Longrightarrow> \<exists>h new. bs = blocks @ new \<and> chain_ledger E V M w i = Some (h, new)"
  using Chain_getBlocks_returned [OF env_okD(1) [OF assms(1)] assms(2) [unfolded Manager_getBlocks_def]]
  by (auto simp: chain_ledger_def)

lemma Manager_getChainHeader_effect:
  assumes "env_ok E V" and "Manager_getChainHeader E M i w = (r, w')"
  shows "unchanged V w w'"
    and "r = Some h \<Longrightarrow> \<exists>m. disk V w (makeStoragePath M i) = Some m \<and>
      stored_header (env_pb E) m = Some h"
proof -
  have "Chain_getHeader (env_pb E) (env_db E) \<lparr>chain_path = makeStoragePath M i\<rparr> w = (r, w')"
    using assms(2) by (auto simp: Manager_getChainHeader_def split: prod.splits option.splits)
  from Chain_getHeader_effect [OF env_okD(1) [OF assms(1)] this]
  show "unchanged V w w'" and "r = Some h \<Longrightarrow> \<exists>m. disk V w (makeStoragePath M i) = Some m \<and>
      stored_header (env_pb E) m = Some h"
    by auto
qed

lemma Manager_getChainInfo_effect:
  assumes "env_ok E V" and "Manager_getChainInfo E M i out w = (r, out', w')"
  shows "unchanged V w w'" and "\<not> r \<Longrightarrow> out' = out"
    and "r \<Longrightarrow> \<exists>m h. disk V w (makeStoragePath M i) = Some m \<and>
      stored_header (env_pb E) m = Some h \<and> out' = (hdr_version h, hdr_index h)"
proof -
  obtain ho where g: "Chain_getHeader (env_pb E) (env_db E) \<lparr>chain_path = makeStoragePath M i\<rparr> w = (ho, w')"
    and h: "r \<longleftrightarrow> ho \<noteq> None" "out' = (case ho of None \<Rightarrow> out | Some h \<Rightarrow> (hdr_version h, hdr_index h))"
    using assms(2) by (auto simp: Manager_getChainInfo_def split: prod.splits option.splits)
  from Chain_getHeader_effect [OF env_okD(1) [OF assms(1)] g] h
  show "unchanged V w w'" and "\<not> r \<Longrightarrow> out' = out"
    and "r \<Longrightarrow> \<exists>m h. disk V w (makeStoragePath M i) = Some m \<and>
      stored_header (env_pb E) m = Some h \<and> out' = (hdr_version h, hdr_index h)"
    by auto
qed

lemma Manager_removeChain_effect:
  assumes "env_ok E V" and "Manager_removeChain E M i w = (r, w')"
  shows "undisturbed V (makeStoragePath M i) w w'" and "r \<Longrightarrow> disk V w' (makeStoragePath M i) = None"
  using Chain_remove_effect [OF env_okD(1) [OF assms(1)] assms(2) [unfolded Manager_removeChain_def]]
  by auto

lemma Manager_verifyChain_effect:
  assumes ok: "env_ok E V" and v: "Manager_verifyChain E M i w = Some (r, w')"
  shows "unchanged V w w'"
    and "r \<Longrightarrow> \<exists>h bs. chain_ledger E V M w i = Some (h, bs) \<and>
      verified (env_sha E) (env_ec E) h bs"
proof -
  let ?c = "\<lparr>chain_path = makeStoragePath M i\<rparr>"
  obtain ho w1 where gh: "Chain_getHeader (env_pb E) (env_db E) ?c w = (ho, w1)"
    by (cases "Chain_getHeader (env_pb E) (env_db E) ?c w")
  note e1 = Chain_getHeader_effect [OF env_okD(1) [OF ok] gh, simplified]
  have "unchanged V w w' \<and> (r \<longrightarrow> (\<exists>h bs. chain_ledger E V M w i = Some (h, bs) \<and>
      verified (env_sha E) (env_ec E) h bs))"
  proof (cases ho)
    case None
    with v gh e1(1) show ?thesis by (simp add: Manager_verifyChain_def)
  next
    case (Some h)
    from e1(2) [OF Some] obtain m where m: "disk V w (makeStoragePath M i) = Some m"
      and h: "stored_header (env_pb E) m = Some h" by blast
    obtain ok' bs where gb: "Chain_getBlocks (env_pb E) (env_db E) ?c [] w1 = Some (ok', bs, w')"
      and r: "r \<longrightarrow> ok' \<and> verify_loop (env_sha E) (env_ec E) h bs 0 = Some True"
      using v gh Some by (auto simp: Manager_verifyChain_def split: option.splits if_splits)
    note e2 = Chain_getBlocks_returned [OF env_okD(1) [OF ok] gb, simplified]
    have "unchanged V w w'" using e1(1) e2 by (blast intro: unchanged_trans)
    moreover have "ledger (env_pb E) m = Some (h, bs)" if ok'
    proof -
      from e2 that obtain h' where "ledger (env_pb E) m = Some (h', bs)"
        using m unchanged_disk [OF e1(1)] by auto
      with h show ?thesis by (auto dest: ledgerD)
    qed
    ultimately show ?thesis
      using m r by (auto simp: chain_ledger_def verify_loop_verified)
  qed
  then show "unchanged V w w'" and "r \<Longrightarrow> \<exists>h bs. chain_ledger E V M w i = Some (h, bs) \<and>
      verified (env_sha E) (env_ec E) h bs"
    by blast+
qed

section \<open>Sound chains\<close>

definition sound_chain ::
  "('w, 'h, 'c, 'pk, 'sg) env \<Rightarrow> ('w, 'h) db_view \<Rightarrow> manager \<Rightarrow> 'w \<Rightarrow> size_t \<Rightarrow> bool" where
  "sound_chain E V M w i \<longleftrightarrow>
     (\<exists>h bs. chain_ledger E V M w i = Some (h, bs) \<and> verified (env_sha E) (env_ec E) h bs \<and>
        createPublicKey (env_ec E) (hdr_privateKey h) = Some (hdr_publicKey h))"

lemma sound_chain_unchanged: "unchanged V w w' \<Longrightarrow> sound_chain E V M w' i = sound_chain E V M w i"
  by (simp add: sound_chain_def chain_ledger_unchanged)

lemma sound_chain_other:
  "undisturbed V (makeStoragePath M j) w w' \<Longrightarrow> i \<noteq> j \<Longrightarrow>
    sound_chain E V M w' i = sound_chain E V M w i"
  by (simp add: sound_chain_def chain_ledger_other)

lemma createChain_sound:
  assumes "env_ok E V" and "Manager_createChain E M i d w = (Some ch, w')"
  shows "sound_chain E V M w' i"
  using Manager_createChain_effect(2) [OF assms refl]
  by (auto simp: sound_chain_def header_new_def)

lemma verified_prev:
  assumes "prev_hash S h bs = Some prev" and "verified S Ec h bs"
    and "link_ok S Ec (hdr_publicKey h) prev b"
  shows "verified S Ec h (bs @ [b])"
proof -
  have "\<exists>g. genesis_hash S h = Some g"
    using assms(1) verified_genesis [OF assms(2)] by (cases "bs = []") (auto simp: prev_hash_def)
  then obtain g where g: "genesis_hash S h = Some g" by blast
  with assms(1) have "tip_hash g bs = prev" by (auto simp: prev_hash_def tip_hash_def split: if_splits)
  with verified_snoc [OF g assms(2)] assms(3) show ?thesis by simp
qed

lemma addBlock_sound:
  assumes ok: "env_ok E V" and a: "Manager_addBlock E M i d w = (r, w')"
    and s: "sound_chain E V M w i"
  shows "sound_chain E V M w' i"
proof -
  from s obtain h bs where l: "chain_ledger E V M w i = Some (h, bs)"
    and v: "verified (env_sha E) (env_ec E) h bs"
    and k: "createPublicKey (env_ec E) (hdr_privateKey h) = Some (hdr_publicKey h)"
    by (auto simp: sound_chain_def)
  show ?thesis
  proof (cases "hdr_index h = - 1")
    case True
    from Manager_addBlock_wraps [OF ok a l True] v k show ?thesis
      by (auto simp: sound_chain_def)
  next
    case False
    from Manager_addBlock_ledger [OF ok a l False]
    consider (same) "chain_ledger E V M w' i = Some (h, bs)"
      | (new) prev b where "prev_hash (env_sha E) h bs = Some prev" "new_block E h prev d b"
        "chain_ledger E V M w' i = Some (h\<lparr>hdr_index := hdr_index h + 1\<rparr>, bs @ [b])" by blast
    then show ?thesis
    proof cases
      case same
      with v k show ?thesis by (auto simp: sound_chain_def)
    next
      case (new prev b)
      from verified_prev [OF new(1) v new_block_link [OF env_okD(3) [OF ok] k new(2)]] new(3) k
      show ?thesis by (auto simp: sound_chain_def)
    qed
  qed
qed

section \<open>Progress without faults\<close>

definition accessible :: "('w, 'h) db_view \<Rightarrow> manager \<Rightarrow> 'w \<Rightarrow> size_t \<Rightarrow> bool" where
  "accessible V M w i \<longleftrightarrow> makeStoragePath M i \<notin> ran (handles V w)"

lemma accessible_undisturbed:
  "undisturbed V p w w' \<Longrightarrow> accessible V M w' i = accessible V M w i"
  by (simp add: accessible_def undisturbed_handles)

lemma accessible_unchanged: "unchanged V w w' \<Longrightarrow> accessible V M w' i = accessible V M w i"
  by (simp add: accessible_def unchanged_handles)

lemma Manager_createChain_live:
  assumes ok: "env_ok E V" and live: "env_live E V" and "length d \<le> MAX_DATA_LENGTH"
    and acc: "accessible V M w i" and new: "disk V w (makeStoragePath M i) = None"
    and key: "generatePrivateKey (env_rand E) (env_ec E) w = (Some priv, w1)"
  shows "\<exists>ch w'. Manager_createChain E M i d w = (Some ch, w')"
proof -
  note u = generatePrivateKey_unchanged [OF ok key]
  from env_liveD(4) [OF live] generatePrivateKey_valid [OF key] obtain pub
    where pub: "createPublicKey (env_ec E) priv = Some pub" by (auto simp: ec_live_def)
  have "\<exists>w'. Chain_create (env_pb E) (env_db E) \<lparr>chain_path = makeStoragePath M i\<rparr> d priv pub w1 =
      (True, w')"
    using u acc new by (intro Chain_create_live [OF env_okD(1) [OF ok] env_liveD(1,5) [OF live] assms(3)])
      (simp_all add: accessible_def unchanged_handles unchanged_disk)
  with key pub show ?thesis by (auto simp: Manager_createChain_def)
qed

lemma Manager_addBlock_live:
  assumes ok: "env_ok E V" and live: "env_live E V" and acc: "accessible V M w i"
    and l: "chain_ledger E V M w i = Some (h, bs)"
    and key: "ec_seckey_verify (env_ec E) (hdr_privateKey h)"
    and "length (hdr_data h) \<le> MAX_DATA_LENGTH" and "length d \<le> MAX_DATA_LENGTH"
  shows "\<exists>b w'. Manager_addBlock E M i d w = (Some b, w')"
proof -
  let ?p = "makeStoragePath M i" and ?c = "\<lparr>chain_path = makeStoragePath M i\<rparr>"
  from l obtain m where m: "disk V w ?p = Some m" and lm: "ledger (env_pb E) m = Some (h, bs)"
    by (auto simp: chain_ledger_def bind_eq_Some_conv)
  note h = ledgerD [OF lm] and db = env_okD(1) [OF ok] and dl = env_liveD(1) [OF live]
  have "\<exists>w1. Chain_getHeader (env_pb E) (env_db E) ?c w = (Some h, w1)"
    using acc m h by (intro Chain_getHeader_live [OF db dl, of ?c w m]) (simp_all add: accessible_def)
  then obtain w1 where gh: "Chain_getHeader (env_pb E) (env_db E) ?c w = (Some h, w1)" by blast
  note u1 = Chain_getHeader_effect(1) [OF db gh]
  obtain prev w2 where pv: "(if hdr_index h = 0 then
            (getHashN (env_sha E) [hdr_data h, data_bytes (hdr_privateKey h),
               data_bytes (hdr_publicKey h)] 2, w1)
          else case Chain_getBlock (env_pb E) (env_db E) ?c (hdr_index h) w1 of
                 (None, w) \<Rightarrow> (None, w)
               | (Some lastBlock, w) \<Rightarrow> (Some (c_hash (block_data lastBlock)), w)) = (Some prev, w2)"
  proof (cases "hdr_index h = 0")
    case True
    with getHashN_live [OF env_liveD(3) [OF live]] that show thesis by fastforce
  next
    case False
    have "\<exists>w2. Chain_getBlock (env_pb E) (env_db E) ?c (hdr_index h) w1 = (Some (last bs), w2)"
      using acc m h False ledger_last [OF lm False] u1
      by (intro Chain_getBlock_live [OF db dl, where c = ?c and w = w1 and m = m and h = h])
        (simp_all add: accessible_def unchanged_handles unchanged_disk)
    with False that show thesis by auto
  qed
  have m1: "disk V w1 ?p = Some m" using m unchanged_disk [OF u1] by simp
  have u2: "unchanged V w w2"
    using Manager_addBlock_prev [OF ok m1 pv] u1 by (blast intro: unchanged_trans)
  obtain nonce w3 where gn: "generateNonce (env_rand E) w2 = (Some nonce, w3)"
    using generateNonce_live [OF env_liveD(2) [OF live]] by blast
  have u3: "unchanged V w w3"
    using generateNonce_unchanged [OF ok gn] u2 by (blast intro: unchanged_trans)
  obtain body where body: "getHash (env_sha E) [data_bytes prev, data_bytes nonce, d] = Some body"
    using getHash_live [OF env_liveD(3) [OF live]] by fastforce
  obtain sig where sig: "getSignature (env_ec E) body (hdr_privateKey h) = Some sig"
    using env_liveD(4) [OF live] key by (auto simp: ec_live_def)
  obtain hash where hash:
    "getHash (env_sha E) [data_bytes prev, data_bytes nonce, d, data_bytes sig] = Some hash"
    using getHash_live [OF env_liveD(3) [OF live]] by fastforce
  let ?b = "block_new \<lparr>c_hash = hash, c_prevHash = prev, c_nonce = nonce, c_data = d,
    c_signature = sig\<rparr>"
  have "\<exists>w'. Chain_addBlock (env_pb E) (env_db E) ?c ?b w3 = (True, w')"
    using acc m h u3 assms(6,7)
    by (intro Chain_addBlock_live [OF db dl env_liveD(5) [OF live], where c = ?c and w = w3 and m = m and h = h])
      (simp_all add: accessible_def unchanged_handles unchanged_disk)
  with gh pv gn body sig hash show ?thesis by (auto simp: Manager_addBlock_def Let_def)
qed

lemma Manager_verifyChain_live:
  assumes ok: "env_ok E V" and live: "env_live E V" and acc: "accessible V M w i"
    and l: "chain_ledger E V M w i = Some (h, bs)" and n: "hdr_index h \<noteq> - 1"
  shows "\<exists>w'. Manager_verifyChain E M i w = Some (verified (env_sha E) (env_ec E) h bs, w')"
proof -
  let ?p = "makeStoragePath M i" and ?c = "\<lparr>chain_path = makeStoragePath M i\<rparr>"
  from l obtain m where m: "disk V w ?p = Some m" and lm: "ledger (env_pb E) m = Some (h, bs)"
    by (auto simp: chain_ledger_def bind_eq_Some_conv)
  note h = ledgerD [OF lm] and db = env_okD(1) [OF ok] and dl = env_liveD(1) [OF live]
  have "\<exists>w1. Chain_getHeader (env_pb E) (env_db E) ?c w = (Some h, w1)"
    using acc m h by (intro Chain_getHeader_live [OF db dl, of ?c w m]) (simp_all add: accessible_def)
  then obtain w1 where gh: "Chain_getHeader (env_pb E) (env_db E) ?c w = (Some h, w1)" by blast
  note u1 = Chain_getHeader_effect(1) [OF db gh]
  have "\<exists>w2. Chain_getBlocks (env_pb E) (env_db E) ?c [] w1 = Some (True, [] @ bs, w2)"
    using acc m u1 by (intro Chain_getBlocks_live [OF db dl _ _ lm n])
      (simp_all add: accessible_def unchanged_handles unchanged_disk)
  then obtain w2 where gb: "Chain_getBlocks (env_pb E) (env_db E) ?c [] w1 = Some (True, bs, w2)"
    by auto
  obtain v where "verify_loop (env_sha E) (env_ec E) h bs 0 = Some v"
    using verify_loop_total [OF env_liveD(3) [OF live]] by fastforce
  moreover from this have "v = verified (env_sha E) (env_ec E) h bs"
    using verify_loop_verified [of "env_sha E" "env_ec E" h bs] by (cases v) auto
  ultimately show ?thesis using gh gb by (simp add: Manager_verifyChain_def)
qed

lemma Manager_getBlock_live:
  assumes "env_ok E V" and "env_live E V" and "accessible V M w i"
    and "chain_ledger E V M w i = Some (h, bs)"
  shows "\<exists>w'. unchanged V w w' \<and> Manager_getBlock E M i n w =
    (if n = 0 \<or> hdr_index h < n then None else Some (bs ! (unat n - 1)), w')"
proof -
  obtain r w' where g: "Manager_getBlock E M i n w = (r, w')" by (cases "Manager_getBlock E M i n w")
  note e = Manager_getBlock_effect [OF assms(1) g]
  have "r = (if n = 0 \<or> hdr_index h < n then None else Some (bs ! (unat n - 1)))"
  proof (cases "n = 0 \<or> hdr_index h < n")
    case True
    with e(2) [OF _ assms(4)] show ?thesis by (cases r) (auto simp: not_less)
  next
    case False
    from assms(4) obtain m where m: "disk V w (makeStoragePath M i) = Some m"
      and l: "ledger (env_pb E) m = Some (h, bs)"
      by (auto simp: chain_ledger_def bind_eq_Some_conv)
    have "\<exists>w'. Chain_getBlock (env_pb E) (env_db E) \<lparr>chain_path = makeStoragePath M i\<rparr> n w =
        (Some (bs ! (unat n - 1)), w')"
      using assms(3) m ledgerD [OF l] ledger_nth [OF l, of n] False
      by (intro Chain_getBlock_live [OF env_okD(1) [OF assms(1)] env_liveD(1) [OF assms(2)],
            where m = m and h = h])
        (auto simp: accessible_def not_less word_neq_0_conv)
    with False g show ?thesis by (auto simp: Manager_getBlock_def)
  qed
  with e(1) g show ?thesis by auto
qed

lemma Manager_removeChain_live:
  assumes "env_live E V" and "accessible V M w i"
  shows "\<exists>w'. Manager_removeChain E M i w = (True, w')"
  using Chain_remove_live [OF env_liveD(1) [OF assms(1)], of "\<lparr>chain_path = makeStoragePath M i\<rparr>" w]
    assms(2) by (simp add: Manager_removeChain_def accessible_def)

text \<open>Adding a block without faults, as a step on the ledger.\<close>

lemma Manager_addBlock_appends:
  assumes "env_ok E V" and "env_live E V" and "accessible V M w i"
    and "chain_ledger E V M w i = Some (h, bs)" and "hdr_index h \<noteq> - 1"
    and "ec_seckey_verify (env_ec E) (hdr_privateKey h)"
    and "length (hdr_data h) \<le> MAX_DATA_LENGTH" and "length d \<le> MAX_DATA_LENGTH"
  shows "\<exists>b w'. Manager_addBlock E M i d w = (Some b, w') \<and> c_data (block_data b) = d \<and>
    chain_ledger E V M w' i = Some (h\<lparr>hdr_index := hdr_index h + 1\<rparr>, bs @ [b]) \<and>
    accessible V M w' i"
proof -
  from Manager_addBlock_live [OF assms(1-4,6-8)] obtain b w'
    where a: "Manager_addBlock E M i d w = (Some b, w')" by blast
  from Manager_addBlock_ledger [OF assms(1) a assms(4,5)] have
    "c_data (block_data b) = d \<and>
     chain_ledger E V M w' i = Some (h\<lparr>hdr_index := hdr_index h + 1\<rparr>, bs @ [b])"
    by (auto simp: new_block_def)
  with a accessible_undisturbed [OF Manager_addBlock_undisturbed [OF assms(1) a]] assms(3)
  show ?thesis by auto
qed

end
