(* ===== verification/History.thy ===== *)
theory History
  imports Chain_Service
begin

text \<open>
  Histories of operations.  The locale \<open>ledger_steps\<close> is the contract of a service over many
  chains: one step keeps a chain sound, extends its ledger by at most one block and closes every
  database it opens, unless the step removes that chain.  Whole histories then only ever append.
  The manager's operations are the first service that meets the contract, the request handler is
  the second.
\<close>

section \<open>The contract of a step\<close>

text \<open>Running a list of steps; \<open>None\<close> when one of them does not return.\<close>

fun run_steps :: "('c \<Rightarrow> 'w \<Rightarrow> 'w option) \<Rightarrow> 'c list \<Rightarrow> 'w \<Rightarrow> 'w option" where
  "run_steps step [] w = Some w"
| "run_steps step (c # cs) w =
     (case step c w of
        None \<Rightarrow> None
      | Some w' \<Rightarrow> run_steps step cs w')"

lemma run_steps_append:
  "run_steps step (xs @ ys) w = Option.bind (run_steps step xs w) (run_steps step ys)"
  by (induction xs arbitrary: w) (simp_all split: option.split)

definition same_chain :: "header \<Rightarrow> header \<Rightarrow> bool" where
  "same_chain h h' \<longleftrightarrow>
     hdr_version h' = hdr_version h \<and> hdr_data h' = hdr_data h \<and>
     hdr_privateKey h' = hdr_privateKey h \<and> hdr_publicKey h' = hdr_publicKey h"

lemma same_chain_refl [simp]: "same_chain h h"
  by (simp add: same_chain_def)

lemma same_chain_index [simp]: "same_chain h (h\<lparr>hdr_index := i\<rparr>)"
  by (simp add: same_chain_def)

lemma same_chain_trans: "same_chain a b \<Longrightarrow> same_chain b c \<Longrightarrow> same_chain a c"
  by (simp add: same_chain_def)

locale ledger_steps =
  fixes good :: "'e \<Rightarrow> 'v \<Rightarrow> bool"
    and state :: "'e \<Rightarrow> 'v \<Rightarrow> 'm \<Rightarrow> 'w \<Rightarrow> size_t \<Rightarrow> (header \<times> block list) option"
    and sound :: "'e \<Rightarrow> 'v \<Rightarrow> 'm \<Rightarrow> 'w \<Rightarrow> size_t \<Rightarrow> bool"
    and opened :: "'v \<Rightarrow> 'w \<Rightarrow> 'h \<Rightarrow> string option"
    and step :: "'e \<Rightarrow> 'm \<Rightarrow> 'c \<Rightarrow> 'w \<Rightarrow> 'w option"
    and removes :: "'e \<Rightarrow> 'm \<Rightarrow> 'c \<Rightarrow> size_t \<Rightarrow> bool"
  assumes step_extends: "good E V \<Longrightarrow> step E M c w = Some w' \<Longrightarrow> \<not> removes E M c i \<Longrightarrow>
      state E V M w i = Some (h, bs) \<Longrightarrow> length bs < 2 ^ 64 - 1 \<Longrightarrow>
      \<exists>h' new. state E V M w' i = Some (h', bs @ new) \<and> length new \<le> 1 \<and> same_chain h h'"
    and step_sound: "good E V \<Longrightarrow> step E M c w = Some w' \<Longrightarrow> \<not> removes E M c i \<Longrightarrow>
      sound E V M w i \<Longrightarrow> sound E V M w' i"
    and step_opened: "good E V \<Longrightarrow> step E M c w = Some w' \<Longrightarrow> opened V w' = opened V w"
begin

lemma run_sound:
  "good E V \<Longrightarrow> run_steps (step E M) cs w = Some w' \<Longrightarrow> (\<And>c. c \<in> set cs \<Longrightarrow> \<not> removes E M c i) \<Longrightarrow>
    sound E V M w i \<Longrightarrow> sound E V M w' i"
proof (induction cs arbitrary: w)
  case Nil
  then show ?case by simp
next
  case (Cons c cs)
  then obtain w1 where "step E M c w = Some w1" "run_steps (step E M) cs w1 = Some w'"
    by (auto split: option.splits)
  with Cons step_sound [of E V M c w w1 i] show ?case by simp
qed

lemma run_opened:
  "good E V \<Longrightarrow> run_steps (step E M) cs w = Some w' \<Longrightarrow> opened V w' = opened V w"
proof (induction cs arbitrary: w)
  case Nil
  then show ?case by simp
next
  case (Cons c cs)
  then obtain w1 where "step E M c w = Some w1" "run_steps (step E M) cs w1 = Some w'"
    by (auto split: option.splits)
  with Cons step_opened [of E V M c w w1] show ?case by simp
qed

lemma run_append_only:
  "good E V \<Longrightarrow> run_steps (step E M) cs w = Some w' \<Longrightarrow> (\<And>c. c \<in> set cs \<Longrightarrow> \<not> removes E M c i) \<Longrightarrow>
    state E V M w i = Some (h, bs) \<Longrightarrow> length bs + length cs < 2 ^ 64 \<Longrightarrow>
    \<exists>h' new. state E V M w' i = Some (h', bs @ new) \<and> length new \<le> length cs \<and> same_chain h h'"
proof (induction cs arbitrary: w h bs)
  case Nil
  then show ?case by simp
next
  case (Cons c cs)
  then obtain w1 where s: "step E M c w = Some w1" and r: "run_steps (step E M) cs w1 = Some w'"
    by (auto split: option.splits)
  from step_extends [OF Cons.prems(1) s _ Cons.prems(4)] Cons.prems(3,5) obtain h1 new1
    where l: "state E V M w1 i = Some (h1, bs @ new1)" and n: "length new1 \<le> 1" "same_chain h h1"
    by fastforce
  from Cons.IH [OF Cons.prems(1) r _ l] Cons.prems(3,5) n(1) obtain h' new
    where "state E V M w' i = Some (h', (bs @ new1) @ new)" "length new \<le> length cs"
      "same_chain h1 h'" by auto
  with n show ?case by (intro exI [of _ h'] exI [of _ "new1 @ new"]) (auto intro: same_chain_trans)
qed

end

section \<open>The operations of the manager as steps\<close>

datatype command =
  CreateChain size_t bytes
| AddBlock size_t bytes
| GetBlock size_t size_t
| GetBlocks size_t
| RemoveChain size_t
| VerifyChain size_t
| GetChainHeader size_t
| GetChainInfo size_t

fun run_command ::
  "('w, 'h, 'c, 'pk, 'sg) env \<Rightarrow> manager \<Rightarrow> command \<Rightarrow> 'w \<Rightarrow> 'w option" where
  "run_command E M (CreateChain i d) w = Some (snd (Manager_createChain E M i d w))"
| "run_command E M (AddBlock i d) w = Some (snd (Manager_addBlock E M i d w))"
| "run_command E M (GetBlock i n) w = Some (snd (Manager_getBlock E M i n w))"
| "run_command E M (GetBlocks i) w = map_option (snd \<circ> snd) (Manager_getBlocks E M i [] w)"
| "run_command E M (RemoveChain i) w = Some (snd (Manager_removeChain E M i w))"
| "run_command E M (VerifyChain i) w = map_option snd (Manager_verifyChain E M i w)"
| "run_command E M (GetChainHeader i) w = Some (snd (Manager_getChainHeader E M i w))"
| "run_command E M (GetChainInfo i) w = Some (snd (snd (Manager_getChainInfo E M i (0, 0) w)))"

fun removes_chain :: "command \<Rightarrow> size_t \<Rightarrow> bool" where
  "removes_chain (RemoveChain j) i \<longleftrightarrow> i = j"
| "removes_chain _ i \<longleftrightarrow> False"

text \<open>Every command but three only reads; those three work on one chain.\<close>

lemma run_command_frame:
  assumes ok: "env_ok E V" and r: "run_command E M c w = Some w'"
  shows "unchanged V w w' \<or>
    (\<exists>j. undisturbed V (makeStoragePath M j) w w' \<and>
       ((\<exists>d. c = CreateChain j d) \<or> (\<exists>d. c = AddBlock j d) \<or> c = RemoveChain j))"
proof (cases c)
  case (CreateChain j d)
  with r Manager_createChain_effect(1) [OF ok surjective_pairing] show ?thesis by auto
next
  case (AddBlock j d)
  with r Manager_addBlock_undisturbed [OF ok surjective_pairing] show ?thesis by auto
next
  case (GetBlock j n)
  with r Manager_getBlock_effect(1) [OF ok surjective_pairing] show ?thesis by auto
next
  case (GetBlocks j)
  with r Manager_getBlocks_effect(1) [OF ok] show ?thesis by auto
next
  case (RemoveChain j)
  with r Manager_removeChain_effect(1) [OF ok surjective_pairing] show ?thesis by auto
next
  case (VerifyChain j)
  with r Manager_verifyChain_effect(1) [OF ok] show ?thesis by auto
next
  case (GetChainHeader j)
  with r Manager_getChainHeader_effect(1) [OF ok surjective_pairing] show ?thesis by auto
next
  case (GetChainInfo j)
  obtain a b where "Manager_getChainInfo E M j (0, 0) w = (a, b, w')"
    using r GetChainInfo by (cases "Manager_getChainInfo E M j (0, 0) w") auto
  with Manager_getChainInfo_effect(1) [OF ok] show ?thesis by blast
qed

lemma ledger_bound:
  assumes "chain_ledger E V M w i = Some (h, bs)" and "length bs < 2 ^ 64 - 1"
  shows "hdr_index h \<noteq> - 1"
proof
  assume "hdr_index h = - 1"
  moreover have "length bs = unat (hdr_index h)"
    using assms(1) by (auto simp: chain_ledger_def bind_eq_Some_conv dest: ledger_length)
  ultimately show False using assms(2) by (simp add: unsigned_minus_1_eq_mask mask_eq_exp_minus_1)
qed

text \<open>
  Creating a chain never changes one that exists: a database under its path is left alone.
\<close>

lemma createChain_existing:
  assumes ok: "env_ok E V" and c: "Manager_createChain E M j d w = (r, w')"
    and l: "chain_ledger E V M w i = Some x"
  shows "chain_ledger E V M w' i = Some x"
proof (cases "i = j")
  case True
  with l Manager_createChain_effect(3) [OF ok c] show ?thesis
    by (auto simp: chain_ledger_def bind_eq_Some_conv)
next
  case False
  from chain_ledger_other [OF Manager_createChain_effect(1) [OF ok c] this, of E] l
  show ?thesis by simp
qed

lemma createChain_keeps_sound:
  "env_ok E V \<Longrightarrow> Manager_createChain E M j d w = (r, w') \<Longrightarrow> sound_chain E V M w i \<Longrightarrow>
    sound_chain E V M w' i"
  using createChain_existing by (fastforce simp: sound_chain_def)

lemma addBlock_keeps_sound:
  assumes "env_ok E V" and "Manager_addBlock E M j d w = (r, w')" and "sound_chain E V M w i"
  shows "sound_chain E V M w' i"
  using assms addBlock_sound [OF assms(1,2)]
    sound_chain_other [OF Manager_addBlock_undisturbed [OF assms(1,2)], of i E]
  by (cases "i = j") simp_all

lemma extends_refl:
  "chain_ledger E V M w' i = Some (h, bs) \<Longrightarrow>
    \<exists>h' new. chain_ledger E V M w' i = Some (h', bs @ new) \<and> length new \<le> 1 \<and> same_chain h h'"
  by (intro exI [of _ h] exI [of _ "[]"]) simp

lemma addBlock_extends:
  assumes ok: "env_ok E V" and a: "Manager_addBlock E M j d w = (r, w')"
    and l: "chain_ledger E V M w i = Some (h, bs)" and n: "length bs < 2 ^ 64 - 1"
  shows "\<exists>h' new. chain_ledger E V M w' i = Some (h', bs @ new) \<and> length new \<le> 1 \<and> same_chain h h'"
proof (cases "i = j")
  case True
  with a have "Manager_addBlock E M i d w = (r, w')" by simp
  from Manager_addBlock_ledger [OF ok this l ledger_bound [OF l n]]
  consider (same) "chain_ledger E V M w' i = Some (h, bs)"
    | (new) b where "chain_ledger E V M w' i = Some (h\<lparr>hdr_index := hdr_index h + 1\<rparr>, bs @ [b])"
    by blast
  then show ?thesis
  proof cases
    case same
    then show ?thesis by (rule extends_refl)
  next
    case (new b)
    then show ?thesis
      by (intro exI [of _ "h\<lparr>hdr_index := hdr_index h + 1\<rparr>"] exI [of _ "[b]"]) simp
  qed
next
  case False
  from chain_ledger_other [OF Manager_addBlock_undisturbed [OF ok a] this, of E] l show ?thesis
    by (intro extends_refl) simp
qed

lemma run_command_extends:
  assumes ok: "env_ok E V" and r: "run_command E M c w = Some w'" and "\<not> removes_chain c i"
    and l: "chain_ledger E V M w i = Some (h, bs)" and n: "length bs < 2 ^ 64 - 1"
  shows "\<exists>h' new. chain_ledger E V M w' i = Some (h', bs @ new) \<and> length new \<le> 1 \<and> same_chain h h'"
  using run_command_frame [OF ok r]
proof (elim disjE exE conjE)
  assume "unchanged V w w'"
  with l show ?thesis by (intro extends_refl) (simp add: chain_ledger_unchanged)
next
  fix j d assume "c = CreateChain j d"
  with r have w': "w' = snd (Manager_createChain E M j d w)" by simp
  show ?thesis
    unfolding w' by (intro extends_refl createChain_existing [OF ok surjective_pairing l])
next
  fix j d assume "c = AddBlock j d"
  with r have w': "w' = snd (Manager_addBlock E M j d w)" by simp
  show ?thesis unfolding w' by (rule addBlock_extends [OF ok surjective_pairing l n])
next
  fix j assume u: "undisturbed V (makeStoragePath M j) w w'" and "c = RemoveChain j"
  with assms(3) chain_ledger_other [OF u, of i E] l show ?thesis by (intro extends_refl) simp
qed

lemma run_command_sound:
  assumes ok: "env_ok E V" and r: "run_command E M c w = Some w'" and "\<not> removes_chain c i"
    and s: "sound_chain E V M w i"
  shows "sound_chain E V M w' i"
  using run_command_frame [OF ok r]
proof (elim disjE exE conjE)
  assume "unchanged V w w'"
  with s show ?thesis by (simp add: sound_chain_unchanged)
next
  fix j d assume "c = CreateChain j d"
  with r have w': "w' = snd (Manager_createChain E M j d w)" by simp
  show ?thesis unfolding w' by (rule createChain_keeps_sound [OF ok surjective_pairing s])
next
  fix j d assume "c = AddBlock j d"
  with r have w': "w' = snd (Manager_addBlock E M j d w)" by simp
  show ?thesis unfolding w' by (rule addBlock_keeps_sound [OF ok surjective_pairing s])
next
  fix j assume u: "undisturbed V (makeStoragePath M j) w w'" and "c = RemoveChain j"
  with assms(3) sound_chain_other [OF u, of i E] s show ?thesis by simp
qed

lemma run_command_handles:
  "env_ok E V \<Longrightarrow> run_command E M c w = Some w' \<Longrightarrow> handles V w' = handles V w"
  by (drule (1) run_command_frame) (auto dest: unchanged_handles undisturbed_handles)

interpretation mgr: ledger_steps env_ok chain_ledger sound_chain handles run_command
  "\<lambda>E M. removes_chain"
  by unfold_locales (blast intro: run_command_extends run_command_sound run_command_handles)+

end
