(* ===== verification/Message.thy ===== *)
theory Message
  imports Messages
begin

text \<open>
  \<open>Network::Message\<close> (Network/Message.cpp): a buffer of its own with a copy of the bytes it is
  made from.  \<open>_data\<close> and \<open>_length\<close> are one byte list; \<open>data()\<close> and \<open>length()\<close> read it.
\<close>

record message =
  msg_data :: bytes

definition Message_new :: "bytes \<Rightarrow> nat \<Rightarrow> message" where
  "Message_new data len = \<lparr>msg_data = take len data\<rparr>"

definition Message_data :: "message \<Rightarrow> bytes" where
  "Message_data msg = msg_data msg"

definition Message_length :: "message \<Rightarrow> nat" where
  "Message_length msg = length (msg_data msg)"

lemma Message_new_whole [simp]: "Message_new data (length data) = \<lparr>msg_data = data\<rparr>"
  by (simp add: Message_new_def)

lemma Message_data_new [simp]: "Message_data (Message_new data n) = take n data"
  by (simp add: Message_new_def Message_data_def)

lemma Message_length_new [simp]: "Message_length (Message_new data n) = min (length data) n"
  by (simp add: Message_new_def Message_length_def)

text \<open>
  \<open>Network::IHandler\<close>: what a server asks of its handler.  \<open>handle\<close> gives the reply to a message,
  \<open>None\<close> inside when there is none to send; the result is \<open>None\<close> when the call does not return.
\<close>

type_synonym 'w message_handler = "message \<Rightarrow> 'w \<Rightarrow> (message option \<times> 'w) option"

end
