(* ===== verification/Handler.thy ===== *)
theory Handler
  imports History Message
begin

text \<open>
  The request handler (src/Handler.cpp): it parses a message, checks the password, dispatches the
  request to the manager and serialises the answer.  A handler that does not return (see
  \<open>Chain_getBlocks\<close> and \<open>verify_loop\<close>) is the result \<open>None\<close>; the inner option is the message
  pointer, null when the answer cannot be serialised.
\<close>

section \<open>Answers\<close>

datatype status =
  SUCCESS
| ERROR
| DATA_ERROR
| NOT_SUPPORTED
| NOT_AUTHORIZED

fun status_code :: "status \<Rightarrow> 32 word" where
  "status_code SUCCESS = 0"
| "status_code ERROR = 1"
| "status_code DATA_ERROR = 2"
| "status_code NOT_SUPPORTED = 3"
| "status_code NOT_AUTHORIZED = 4"

record handler =
  hdl_manager :: manager
  hdl_password :: string

definition makeResponse :: "pb_lib \<Rightarrow> response \<Rightarrow> message option" where
  "makeResponse P resp =
     (case response_Serialize P resp of
        None \<Rightarrow> None
      | Some data \<Rightarrow> Some (Message_new data (length data)))"

definition makeStatus :: "pb_lib \<Rightarrow> status \<Rightarrow> string \<Rightarrow> message option" where
  "makeStatus P status text =
     (let resp = response_default;
          resp = resp\<lparr>resp_status := Some \<lparr>sr_status = status_code status, sr_message = ''''\<rparr>\<rparr>;
          resp =
            (if text \<noteq> '''' then
               resp\<lparr>resp_status := Some \<lparr>sr_status = status_code status, sr_message = text\<rparr>\<rparr>
             else resp)
      in case response_Serialize P resp of
           None \<Rightarrow> None
         | Some data \<Rightarrow> Some (Message_new data (length data)))"

text \<open>The answer \<open>SUCCESS\<close> to which the handlers add their results.\<close>

definition success_response :: response where
  "success_response =
     response_default\<lparr>resp_status := Some \<lparr>sr_status = status_code SUCCESS, sr_message = ''''\<rparr>\<rparr>"

definition setBlockData :: "block \<Rightarrow> pb_block" where
  "setBlockData block =
     \<lparr>pbb_hash = data_bytes (c_hash (block_data block)),
      pbb_prev_hash = data_bytes (c_prevHash (block_data block)),
      pbb_nonce = data_bytes (c_nonce (block_data block)),
      pbb_data = c_data (block_data block),
      pbb_signature = data_bytes (c_signature (block_data block))\<rparr>"

section \<open>Authorization\<close>

text \<open>\<open>memcmp\<close> over the length of the computed hash.\<close>

definition checkAuth :: "'c sha_lib \<Rightarrow> handler \<Rightarrow> auth_data \<Rightarrow> bool" where
  "checkAuth S H data =
     (if length (password_hash data) \<noteq> 32 then False
      else
        case getHash S [PASSWORD_SALT, hdl_password H] of
          None \<Rightarrow> False
        | Some hash \<Rightarrow>
            take (data_length hash) (data_bytes hash) =
              take (data_length hash) (password_hash data))"

section \<open>The requests\<close>

definition handlePingRequest :: "pb_lib \<Rightarrow> message option" where
  "handlePingRequest P = makeStatus P SUCCESS ''''"

definition handleCreateChainRequest ::
  "('w, 'h, 'c, 'pk, 'sg) env \<Rightarrow> handler \<Rightarrow> chain_data_request \<Rightarrow> 'w \<Rightarrow> message option \<times> 'w" where
  "handleCreateChainRequest E H req w =
     (if length (cdr_data req) > MAX_DATA_LENGTH then
        (makeStatus (env_pb E) DATA_ERROR
           ''Can't create chain (Data field size is too large)'', w)
      else
        case Manager_createChain E (hdl_manager H) (cdr_chain_id req) (cdr_data req) w of
          (None, w) \<Rightarrow> (makeStatus (env_pb E) ERROR ''Can't create chain'', w)
        | (Some chain, w) \<Rightarrow> (makeStatus (env_pb E) SUCCESS '''', w))"

definition handleRemoveChainRequest ::
  "('w, 'h, 'c, 'pk, 'sg) env \<Rightarrow> handler \<Rightarrow> chain_request \<Rightarrow> 'w \<Rightarrow> message option \<times> 'w" where
  "handleRemoveChainRequest E H req w =
     (let (ok, w) = Manager_removeChain E (hdl_manager H) (cr_chain_id req) w
      in if \<not> ok then (makeStatus (env_pb E) ERROR ''Can't remove chain'', w)
         else (makeStatus (env_pb E) SUCCESS '''', w))"

definition handleAddBlockRequest ::
  "('w, 'h, 'c, 'pk, 'sg) env \<Rightarrow> handler \<Rightarrow> chain_data_request \<Rightarrow> 'w \<Rightarrow> message option \<times> 'w" where
  "handleAddBlockRequest E H req w =
     (if length (cdr_data req) > MAX_DATA_LENGTH then
        (makeStatus (env_pb E) DATA_ERROR
           ''Can't create chain (Data field size is too large)'', w)
      else
        case Manager_addBlock E (hdl_manager H) (cdr_chain_id req) (cdr_data req) w of
          (None, w) \<Rightarrow> (makeStatus (env_pb E) ERROR ''Can't add block'', w)
        | (Some block, w) \<Rightarrow>
            let resp = success_response\<lparr>resp_add_block := Some (Some (setBlockData block))\<rparr>
            in (makeResponse (env_pb E) resp, w))"

definition handleGetBlockRequest ::
  "('w, 'h, 'c, 'pk, 'sg) env \<Rightarrow> handler \<Rightarrow> get_block_request \<Rightarrow> 'w \<Rightarrow> message option \<times> 'w" where
  "handleGetBlockRequest E H req w =
     (case Manager_getBlock E (hdl_manager H) (gbr_chain_id req) (gbr_block_id req) w of
        (None, w) \<Rightarrow> (makeStatus (env_pb E) ERROR ''Can't get block'', w)
      | (Some block, w) \<Rightarrow>
          let resp = success_response\<lparr>resp_get_block := Some (Some (setBlockData block))\<rparr>
          in (makeResponse (env_pb E) resp, w))"

text \<open>
  \<open>add_blocks\<close> creates the response field when it adds the first block: with no block the field
  stays absent.
\<close>

definition add_blocks :: "response \<Rightarrow> block \<Rightarrow> response" where
  "add_blocks resp block =
     resp\<lparr>resp_get_blocks :=
       Some ((case resp_get_blocks resp of None \<Rightarrow> [] | Some bs \<Rightarrow> bs) @ [setBlockData block])\<rparr>"

definition handleGetBlocksRequest ::
  "('w, 'h, 'c, 'pk, 'sg) env \<Rightarrow> handler \<Rightarrow> chain_request \<Rightarrow> 'w
     \<Rightarrow> (message option \<times> 'w) option" where
  "handleGetBlocksRequest E H req w =
     (case Manager_getBlocks E (hdl_manager H) (cr_chain_id req) [] w of
        None \<Rightarrow> None
      | Some (ok, blocks, w) \<Rightarrow>
          if \<not> ok then Some (makeStatus (env_pb E) ERROR ''Can't get blocks'', w)
          else Some (makeResponse (env_pb E) (foldl add_blocks success_response blocks), w))"

definition handleVerifyChainRequest ::
  "('w, 'h, 'c, 'pk, 'sg) env \<Rightarrow> handler \<Rightarrow> chain_request \<Rightarrow> 'w
     \<Rightarrow> (message option \<times> 'w) option" where
  "handleVerifyChainRequest E H req w =
     (case Manager_verifyChain E (hdl_manager H) (cr_chain_id req) w of
        None \<Rightarrow> None
      | Some (ok, w) \<Rightarrow>
          if \<not> ok then Some (makeStatus (env_pb E) ERROR ''Chain is not valid'', w)
          else Some (makeStatus (env_pb E) SUCCESS '''', w))"

definition handleGetChainHeaderRequest ::
  "('w, 'h, 'c, 'pk, 'sg) env \<Rightarrow> handler \<Rightarrow> chain_request \<Rightarrow> 'w \<Rightarrow> message option \<times> 'w" where
  "handleGetChainHeaderRequest E H req w =
     (case Manager_getChainHeader E (hdl_manager H) (cr_chain_id req) w of
        (None, w) \<Rightarrow> (makeStatus (env_pb E) ERROR ''Can't get header'', w)
      | (Some header, w) \<Rightarrow>
          let resp = success_response\<lparr>resp_get_chain_header := Some (Some
                \<lparr>pbh_version = hdr_version header, pbh_index = hdr_index header,
                 pbh_data = hdr_data header,
                 pbh_private_key = data_bytes (hdr_privateKey header),
                 pbh_public_key = data_bytes (hdr_publicKey header)\<rparr>)\<rparr>
          in (makeResponse (env_pb E) resp, w))"

definition handleGetChainKeysRequest ::
  "('w, 'h, 'c, 'pk, 'sg) env \<Rightarrow> handler \<Rightarrow> chain_request \<Rightarrow> 'w \<Rightarrow> message option \<times> 'w" where
  "handleGetChainKeysRequest E H req w =
     (case Manager_getChainHeader E (hdl_manager H) (cr_chain_id req) w of
        (None, w) \<Rightarrow> (makeStatus (env_pb E) ERROR ''Can't get header'', w)
      | (Some header, w) \<Rightarrow>
          let resp = success_response\<lparr>resp_get_chain_keys := Some
                \<lparr>ck_private_key = data_bytes (hdr_privateKey header),
                 ck_public_key = data_bytes (hdr_publicKey header)\<rparr>\<rparr>
          in (makeResponse (env_pb E) resp, w))"

definition handleGetChainInfoRequest ::
  "('w, 'h, 'c, 'pk, 'sg) env \<Rightarrow> handler \<Rightarrow> chain_request \<Rightarrow> 'w \<Rightarrow> message option \<times> 'w" where
  "handleGetChainInfoRequest E H req w =
     (let (ok, (version, index), w) =
            Manager_getChainInfo E (hdl_manager H) (cr_chain_id req) (0, 0) w
      in if \<not> ok then (makeStatus (env_pb E) ERROR ''Can't get chain info'', w)
         else
           let resp = success_response\<lparr>resp_get_chain_info := Some
                 \<lparr>ci_chain_id = cr_chain_id req, ci_version = version, ci_index = index\<rparr>\<rparr>
           in (makeResponse (env_pb E) resp, w))"

section \<open>Dispatch\<close>

text \<open>
  The request fields are not a \<open>oneof\<close>: a message may set several, and the first in this order is
  served.
\<close>

definition dispatch ::
  "('w, 'h, 'c, 'pk, 'sg) env \<Rightarrow> handler \<Rightarrow> request \<Rightarrow> 'w \<Rightarrow> (message option \<times> 'w) option" where
  "dispatch E H req w =
     (if req_ping req \<noteq> None then Some (handlePingRequest (env_pb E), w)
      else if req_create_chain req \<noteq> None then
        Some (handleCreateChainRequest E H (the (req_create_chain req)) w)
      else if req_remove_chain req \<noteq> None then
        Some (handleRemoveChainRequest E H (the (req_remove_chain req)) w)
      else if req_add_block req \<noteq> None then
        Some (handleAddBlockRequest E H (the (req_add_block req)) w)
      else if req_get_block req \<noteq> None then
        Some (handleGetBlockRequest E H (the (req_get_block req)) w)
      else if req_get_blocks req \<noteq> None then
        handleGetBlocksRequest E H (the (req_get_blocks req)) w
      else if req_verify_chain req \<noteq> None then
        handleVerifyChainRequest E H (the (req_verify_chain req)) w
      else if req_get_chain_header req \<noteq> None then
        Some (handleGetChainHeaderRequest E H (the (req_get_chain_header req)) w)
      else if req_get_chain_keys req \<noteq> None then
        Some (handleGetChainKeysRequest E H (the (req_get_chain_keys req)) w)
      else if req_get_chain_info req \<noteq> None then
        Some (handleGetChainInfoRequest E H (the (req_get_chain_info req)) w)
      else Some (makeStatus (env_pb E) NOT_SUPPORTED ''Method isn't supported'', w))"

definition handleMessage ::
  "('w, 'h, 'c, 'pk, 'sg) env \<Rightarrow> handler \<Rightarrow> message \<Rightarrow> 'w \<Rightarrow> (message option \<times> 'w) option" where
  "handleMessage E H msg w =
     (case request_Parse (env_pb E) (take (Message_length msg) (Message_data msg)) of
        None \<Rightarrow> Some (makeStatus (env_pb E) DATA_ERROR ''Can't parse data'', w)
      | Some req \<Rightarrow>
          if hdl_password H \<noteq> '''' then
            case req_auth_data req of
              None \<Rightarrow> Some (makeStatus (env_pb E) NOT_AUTHORIZED ''No authorization data'', w)
            | Some auth \<Rightarrow>
                if \<not> checkAuth (env_sha E) H auth then
                  Some (makeStatus (env_pb E) NOT_AUTHORIZED ''Invalid password'', w)
                else dispatch E H req w
          else dispatch E H req w)"

section \<open>The commands behind the requests\<close>

text \<open>The requests the handler serves: all without a password, those with its hash otherwise.\<close>

definition authorized :: "('w, 'h, 'c, 'pk, 'sg) env \<Rightarrow> handler \<Rightarrow> request \<Rightarrow> bool" where
  "authorized E H req \<longleftrightarrow>
     hdl_password H = '''' \<or>
     (\<exists>auth hash. req_auth_data req = Some auth \<and>
        getHash (env_sha E) [PASSWORD_SALT, hdl_password H] = Some hash \<and>
        password_hash auth = data_bytes hash)"

text \<open>The operation a request stands for; \<open>None\<close> when it needs none.\<close>

definition data_command :: "(size_t \<Rightarrow> bytes \<Rightarrow> command) \<Rightarrow> chain_data_request \<Rightarrow> command option" where
  "data_command op r =
     (if length (cdr_data r) > MAX_DATA_LENGTH then None
      else Some (op (cdr_chain_id r) (cdr_data r)))"

definition requested :: "request \<Rightarrow> command option" where
  "requested req =
     (if req_ping req \<noteq> None then None
      else if req_create_chain req \<noteq> None then data_command CreateChain (the (req_create_chain req))
      else if req_remove_chain req \<noteq> None then
        Some (RemoveChain (cr_chain_id (the (req_remove_chain req))))
      else if req_add_block req \<noteq> None then data_command AddBlock (the (req_add_block req))
      else if req_get_block req \<noteq> None then
        Some (GetBlock (gbr_chain_id (the (req_get_block req))) (gbr_block_id (the (req_get_block req))))
      else if req_get_blocks req \<noteq> None then
        Some (GetBlocks (cr_chain_id (the (req_get_blocks req))))
      else if req_verify_chain req \<noteq> None then
        Some (VerifyChain (cr_chain_id (the (req_verify_chain req))))
      else if req_get_chain_header req \<noteq> None then
        Some (GetChainHeader (cr_chain_id (the (req_get_chain_header req))))
      else if req_get_chain_keys req \<noteq> None then
        Some (GetChainHeader (cr_chain_id (the (req_get_chain_keys req))))
      else map_option (\<lambda>r. GetChainInfo (cr_chain_id r)) (req_get_chain_info req))"

definition command_of ::
  "('w, 'h, 'c, 'pk, 'sg) env \<Rightarrow> handler \<Rightarrow> message \<Rightarrow> command option" where
  "command_of E H msg =
     (case request_Parse (env_pb E) (msg_data msg) of
        None \<Rightarrow> None
      | Some req \<Rightarrow> if authorized E H req then requested req else None)"

lemma checkAuth_authorized:
  "hdl_password H \<noteq> '''' \<Longrightarrow>
    authorized E H req \<longleftrightarrow> (\<exists>auth. req_auth_data req = Some auth \<and> checkAuth (env_sha E) H auth)"
  by (cases "req_auth_data req") (auto simp: authorized_def checkAuth_def data_length_def split: option.splits)

lemma handleMessage_authorized:
  assumes "request_Parse (env_pb E) (msg_data msg) = Some req" and "authorized E H req"
  shows "handleMessage E H msg w = dispatch E H req w"
proof (cases "hdl_password H = ''''")
  case True
  with assms(1) show ?thesis by (simp add: handleMessage_def Message_data_def Message_length_def)
next
  case False
  with assms checkAuth_authorized [OF False, of E req] show ?thesis
    by (auto simp: handleMessage_def Message_data_def Message_length_def)
qed

lemma handleMessage_unauthorized:
  assumes "request_Parse (env_pb E) (msg_data msg) = Some req" and "\<not> authorized E H req"
  shows "\<exists>text. text \<noteq> '''' \<and> handleMessage E H msg w = Some (makeStatus (env_pb E) NOT_AUTHORIZED text, w)"
proof -
  have p: "hdl_password H \<noteq> ''''" using assms(2) by (auto simp: authorized_def)
  with assms checkAuth_authorized [OF p, of E req] show ?thesis
    by (cases "req_auth_data req")
      (auto simp: handleMessage_def Message_data_def Message_length_def)
qed

text \<open>What a message does to the world is what its command does.\<close>

definition effect_of ::
  "('w, 'h, 'c, 'pk, 'sg) env \<Rightarrow> handler \<Rightarrow> command option \<Rightarrow> 'w \<Rightarrow> 'w option" where
  "effect_of E H co w = (case co of None \<Rightarrow> Some w | Some c \<Rightarrow> run_command E (hdl_manager H) c w)"

lemmas request_handlers =
  handleCreateChainRequest_def handleRemoveChainRequest_def handleAddBlockRequest_def
  handleGetBlockRequest_def handleGetBlocksRequest_def handleVerifyChainRequest_def
  handleGetChainHeaderRequest_def handleGetChainKeysRequest_def handleGetChainInfoRequest_def

lemma handler_worlds:
  "Some (snd (handleCreateChainRequest E H cd w)) = effect_of E H (data_command CreateChain cd) w"
  "Some (snd (handleRemoveChainRequest E H c w)) = effect_of E H (Some (RemoveChain (cr_chain_id c))) w"
  "Some (snd (handleAddBlockRequest E H cd w)) = effect_of E H (data_command AddBlock cd) w"
  "Some (snd (handleGetBlockRequest E H gb w)) =
    effect_of E H (Some (GetBlock (gbr_chain_id gb) (gbr_block_id gb))) w"
  "map_option snd (handleGetBlocksRequest E H c w) =
    effect_of E H (Some (GetBlocks (cr_chain_id c))) w"
  "map_option snd (handleVerifyChainRequest E H c w) =
    effect_of E H (Some (VerifyChain (cr_chain_id c))) w"
  "Some (snd (handleGetChainHeaderRequest E H c w)) =
    effect_of E H (Some (GetChainHeader (cr_chain_id c))) w"
  "Some (snd (handleGetChainKeysRequest E H c w)) =
    effect_of E H (Some (GetChainHeader (cr_chain_id c))) w"
  "Some (snd (handleGetChainInfoRequest E H c w)) =
    effect_of E H (Some (GetChainInfo (cr_chain_id c))) w"
  by (auto simp: request_handlers effect_of_def data_command_def Let_def
      split: prod.splits option.splits)

lemma dispatch_effect: "map_option snd (dispatch E H req w) = effect_of E H (requested req) w"
  by (auto simp: dispatch_def requested_def handler_worlds effect_of_def [of E H None])

lemma handleMessage_effect:
  "map_option snd (handleMessage E H msg w) = effect_of E H (command_of E H msg) w"
proof (cases "request_Parse (env_pb E) (msg_data msg)")
  case None
  then show ?thesis
    by (simp add: handleMessage_def command_of_def effect_of_def Message_data_def Message_length_def)
next
  case (Some req)
  show ?thesis
  proof (cases "hdl_password H = ''''")
    case True
    with Some show ?thesis
      by (simp add: handleMessage_def command_of_def Message_data_def Message_length_def
          dispatch_effect authorized_def)
  next
    case False
    with Some checkAuth_authorized [OF False, of E req] show ?thesis
      by (auto simp: handleMessage_def command_of_def Message_data_def Message_length_def
          dispatch_effect effect_of_def [of E H None] split: option.splits)
  qed
qed

section \<open>Histories of messages\<close>

definition message_step ::
  "('w, 'h, 'c, 'pk, 'sg) env \<Rightarrow> handler \<Rightarrow> message \<Rightarrow> 'w \<Rightarrow> 'w option" where
  "message_step E H msg w = map_option snd (handleMessage E H msg w)"

definition message_removes ::
  "('w, 'h, 'c, 'pk, 'sg) env \<Rightarrow> handler \<Rightarrow> message \<Rightarrow> size_t \<Rightarrow> bool" where
  "message_removes E H msg i \<longleftrightarrow>
     (case command_of E H msg of None \<Rightarrow> False | Some c \<Rightarrow> removes_chain c i)"

text \<open>A message is a step of the manager or no step at all.\<close>

lemma message_step_cases [consumes 1, case_names nothing command]:
  assumes "message_step E H msg w = Some w'"
  obtains "command_of E H msg = None" "w' = w"
    | c where "command_of E H msg = Some c" "run_command E (hdl_manager H) c w = Some w'"
      "\<And>i. message_removes E H msg i \<longleftrightarrow> removes_chain c i"
  using assms that
  by (cases "command_of E H msg")
    (auto simp: message_step_def handleMessage_effect effect_of_def message_removes_def)

lemma message_step_extends:
  assumes "env_ok E V" and "message_step E H msg w = Some w'" and "\<not> message_removes E H msg i"
    and "chain_ledger E V (hdl_manager H) w i = Some (h, bs)" and "length bs < 2 ^ 64 - 1"
  shows "\<exists>h' new. chain_ledger E V (hdl_manager H) w' i = Some (h', bs @ new) \<and>
    length new \<le> 1 \<and> same_chain h h'"
  using assms(2)
proof (cases rule: message_step_cases)
  case nothing
  with assms(4) show ?thesis by (auto intro: extends_refl)
next
  case (command c)
  with assms(3) run_command_extends [OF assms(1) command(2) _ assms(4,5)] show ?thesis by simp
qed

lemma message_step_sound:
  assumes "env_ok E V" and "message_step E H msg w = Some w'" and "\<not> message_removes E H msg i"
    and "sound_chain E V (hdl_manager H) w i"
  shows "sound_chain E V (hdl_manager H) w' i"
  using assms(2)
proof (cases rule: message_step_cases)
  case nothing
  with assms(4) show ?thesis by simp
next
  case (command c)
  with assms(3) run_command_sound [OF assms(1) command(2) _ assms(4)] show ?thesis by simp
qed

lemma message_step_handles:
  assumes "env_ok E V" and "message_step E H msg w = Some w'"
  shows "handles V w' = handles V w"
  using assms(2)
proof (cases rule: message_step_cases)
  case nothing
  then show ?thesis by simp
next
  case (command c)
  with run_command_handles [OF assms(1) command(2)] show ?thesis by simp
qed

interpretation srv: ledger_steps env_ok
  "\<lambda>E V H. chain_ledger E V (hdl_manager H)" "\<lambda>E V H. sound_chain E V (hdl_manager H)" handles
  message_step message_removes
  by unfold_locales (blast intro: message_step_extends message_step_sound message_step_handles)+

end
