(* ===== verification/Memory_Env.thy ===== *)
theory Memory_Env
  imports Handler
begin

text \<open>
  An instance of the external libraries that runs in memory: databases are maps, the random
  generator counts, the hash is the first bytes of its input, a signature is the signed hash next
  to the key, and messages are encoded field by field.  It meets every law the development assumes
  of the libraries (\<open>mem_env_ok\<close>, \<open>mem_env_live\<close>, \<open>mem_sha_ok\<close>), so those laws are consistent
  and the properties can be applied to concrete runs.  It is no model of the real libraries.
\<close>

section \<open>Encoding messages\<close>

definition inverts :: "(bytes \<Rightarrow> ('a \<times> bytes) option) \<Rightarrow> ('a \<Rightarrow> bytes) \<Rightarrow> bool" where
  "inverts d e \<longleftrightarrow> (\<forall>x r. d (e x @ r) = Some (x, r))"

definition enc_bytes :: "bytes \<Rightarrow> bytes" where
  "enc_bytes b = replicate (length b) (CHR 0x01) @ CHR 0x00 # b"

definition dec_bytes :: "bytes \<Rightarrow> (bytes \<times> bytes) option" where
  "dec_bytes s =
     (let n = length (takeWhile (\<lambda>c. c = CHR 0x01) s); r = drop (Suc n) s
      in if length r < n then None else Some (take n r, drop n r))"

definition enc_word :: "'n::len word \<Rightarrow> bytes" where
  "enc_word w = enc_bytes (digits_of (unat w))"

definition dec_word :: "bytes \<Rightarrow> ('n::len word \<times> bytes) option" where
  "dec_word s = map_option (\<lambda>(b, r). (word_of_nat (decimal_value b), r)) (dec_bytes s)"

fun enc_option :: "('a \<Rightarrow> bytes) \<Rightarrow> 'a option \<Rightarrow> bytes" where
  "enc_option e None = [CHR 0x00]"
| "enc_option e (Some x) = CHR 0x01 # e x"

fun dec_option :: "(bytes \<Rightarrow> ('a \<times> bytes) option) \<Rightarrow> bytes \<Rightarrow> ('a option \<times> bytes) option" where
  "dec_option d [] = None"
| "dec_option d (c # s) =
     (if c = CHR 0x00 then Some (None, s) else map_option (\<lambda>(x, r). (Some x, r)) (d s))"

fun enc_pair :: "('a \<Rightarrow> bytes) \<Rightarrow> ('b \<Rightarrow> bytes) \<Rightarrow> 'a \<times> 'b \<Rightarrow> bytes" where
  "enc_pair e f (x, y) = e x @ f y"

definition dec_pair ::
  "(bytes \<Rightarrow> ('a \<times> bytes) option) \<Rightarrow> (bytes \<Rightarrow> ('b \<times> bytes) option)
     \<Rightarrow> bytes \<Rightarrow> (('a \<times> 'b) \<times> bytes) option" where
  "dec_pair d g s =
     (case d s of
        None \<Rightarrow> None
      | Some (x, r) \<Rightarrow> map_option (\<lambda>(y, r). ((x, y), r)) (g r))"

fun enc_list :: "('a \<Rightarrow> bytes) \<Rightarrow> 'a list \<Rightarrow> bytes" where
  "enc_list e [] = [CHR 0x00]"
| "enc_list e (x # xs) = CHR 0x01 # e x @ enc_list e xs"

fun dec_list_upto ::
  "nat \<Rightarrow> (bytes \<Rightarrow> ('a \<times> bytes) option) \<Rightarrow> bytes \<Rightarrow> ('a list \<times> bytes) option" where
  "dec_list_upto 0 d s = None"
| "dec_list_upto (Suc n) d [] = None"
| "dec_list_upto (Suc n) d (c # s) =
     (if c = CHR 0x00 then Some ([], s)
      else
        case d s of
          None \<Rightarrow> None
        | Some (x, r) \<Rightarrow> map_option (\<lambda>(xs, r). (x # xs, r)) (dec_list_upto n d r))"

definition dec_list ::
  "(bytes \<Rightarrow> ('a \<times> bytes) option) \<Rightarrow> bytes \<Rightarrow> ('a list \<times> bytes) option" where
  "dec_list d s = dec_list_upto (length s) d s"

lemma takeWhile_ones:
  "takeWhile (\<lambda>c. c = CHR 0x01) (replicate n (CHR 0x01) @ CHR 0x00 # x) = replicate n (CHR 0x01)"
  by (induction n) simp_all

lemma inverts_bytes [codec_intros]: "inverts dec_bytes enc_bytes"
  by (simp add: inverts_def dec_bytes_def enc_bytes_def takeWhile_ones Let_def)

lemma inverts_word [codec_intros]: "inverts dec_word enc_word"
  using inverts_bytes by (simp add: inverts_def dec_word_def enc_word_def)

lemma inverts_option [codec_intros]: "inverts d e \<Longrightarrow> inverts (dec_option d) (enc_option e)"
  by (simp add: inverts_def split_option_all)

lemma inverts_pair [codec_intros]:
  "inverts d e \<Longrightarrow> inverts g f \<Longrightarrow> inverts (dec_pair d g) (enc_pair e f)"
  by (simp add: inverts_def dec_pair_def)

lemma dec_list_upto_enc:
  "inverts d e \<Longrightarrow> length xs < n \<Longrightarrow> dec_list_upto n d (enc_list e xs @ r) = Some (xs, r)"
proof (induction xs arbitrary: n)
  case Nil
  then show ?case by (cases n) simp_all
next
  case (Cons x xs)
  then show ?case by (cases n) (simp_all add: inverts_def)
qed

lemma length_enc_list: "length xs < length (enc_list e xs)"
  by (induction xs) auto

lemma inverts_list [codec_intros]: "inverts d e \<Longrightarrow> inverts (dec_list d) (enc_list e)"
  unfolding inverts_def [of "dec_list d"] dec_list_def
  by (auto intro: dec_list_upto_enc trans_less_add1 [OF length_enc_list])

text \<open>A message is encoded as the tuple of its parts.\<close>

definition enc_via :: "('r \<Rightarrow> 't) \<Rightarrow> ('t \<Rightarrow> bytes) \<Rightarrow> 'r \<Rightarrow> bytes" where
  "enc_via parts e x = e (parts x)"

definition dec_via ::
  "('t \<Rightarrow> 'r) \<Rightarrow> (bytes \<Rightarrow> ('t \<times> bytes) option) \<Rightarrow> bytes \<Rightarrow> ('r \<times> bytes) option" where
  "dec_via build d s = map_option (\<lambda>(t, r). (build t, r)) (d s)"

lemma inverts_via: "inverts d e \<Longrightarrow> (\<And>x. build (parts x) = x) \<Longrightarrow>
    inverts (dec_via build d) (enc_via parts e)"
  by (simp add: inverts_def dec_via_def enc_via_def)

definition whole :: "(bytes \<Rightarrow> ('a \<times> bytes) option) \<Rightarrow> bytes \<Rightarrow> 'a option" where
  "whole d s = map_option fst (d s)"

lemma whole_inverts: "inverts d e \<Longrightarrow> whole d (e x) = Some x"
  by (metis append_Nil2 fst_conv inverts_def option.simps(9) whole_def)

section \<open>The messages\<close>

definition enc_header :: "pb_header \<Rightarrow> bytes" where
  "enc_header = enc_via (\<lambda>x. (pbh_version x, pbh_index x, pbh_data x, pbh_private_key x, pbh_public_key x))
     (enc_pair enc_word (enc_pair enc_word (enc_pair enc_bytes (enc_pair enc_bytes enc_bytes))))"

definition dec_header :: "bytes \<Rightarrow> (pb_header \<times> bytes) option" where
  "dec_header = dec_via (\<lambda>(v, i, d, pr, pu). pb_header.make v i d pr pu)
     (dec_pair dec_word (dec_pair dec_word (dec_pair dec_bytes (dec_pair dec_bytes dec_bytes))))"

definition enc_block :: "pb_block \<Rightarrow> bytes" where
  "enc_block = enc_via (\<lambda>x. (pbb_hash x, pbb_prev_hash x, pbb_nonce x, pbb_data x, pbb_signature x))
     (enc_pair enc_bytes (enc_pair enc_bytes (enc_pair enc_bytes (enc_pair enc_bytes enc_bytes))))"

definition dec_block :: "bytes \<Rightarrow> (pb_block \<times> bytes) option" where
  "dec_block = dec_via (\<lambda>(h, p, n, d, s). pb_block.make h p n d s)
     (dec_pair dec_bytes (dec_pair dec_bytes (dec_pair dec_bytes (dec_pair dec_bytes dec_bytes))))"

lemma inverts_header [codec_intros]: "inverts dec_header enc_header"
  unfolding dec_header_def enc_header_def
  by (intro inverts_via codec_intros) (simp add: pb_header.defs)

lemma inverts_block [codec_intros]: "inverts dec_block enc_block"
  unfolding dec_block_def enc_block_def
  by (intro inverts_via codec_intros) (simp add: pb_block.defs)

definition enc_id :: "chain_request \<Rightarrow> bytes" where
  "enc_id = enc_via cr_chain_id enc_word"

definition dec_id :: "bytes \<Rightarrow> (chain_request \<times> bytes) option" where
  "dec_id = dec_via chain_request.make dec_word"

definition enc_id_data :: "chain_data_request \<Rightarrow> bytes" where
  "enc_id_data = enc_via (\<lambda>x. (cdr_chain_id x, cdr_data x)) (enc_pair enc_word enc_bytes)"

definition dec_id_data :: "bytes \<Rightarrow> (chain_data_request \<times> bytes) option" where
  "dec_id_data = dec_via (\<lambda>(i, d). chain_data_request.make i d) (dec_pair dec_word dec_bytes)"

definition enc_id_id :: "get_block_request \<Rightarrow> bytes" where
  "enc_id_id = enc_via (\<lambda>x. (gbr_chain_id x, gbr_block_id x)) (enc_pair enc_word enc_word)"

definition dec_id_id :: "bytes \<Rightarrow> (get_block_request \<times> bytes) option" where
  "dec_id_id = dec_via (\<lambda>(i, d). get_block_request.make i d) (dec_pair dec_word dec_word)"

definition enc_auth :: "auth_data \<Rightarrow> bytes" where
  "enc_auth = enc_via password_hash enc_bytes"

definition dec_auth :: "bytes \<Rightarrow> (auth_data \<times> bytes) option" where
  "dec_auth = dec_via auth_data.make dec_bytes"

definition enc_unit :: "unit \<Rightarrow> bytes" where
  "enc_unit u = []"

definition dec_unit :: "bytes \<Rightarrow> (unit \<times> bytes) option" where
  "dec_unit s = Some ((), s)"

definition enc_status :: "status_response \<Rightarrow> bytes" where
  "enc_status = enc_via (\<lambda>x. (sr_status x, sr_message x)) (enc_pair enc_word enc_bytes)"

definition dec_status :: "bytes \<Rightarrow> (status_response \<times> bytes) option" where
  "dec_status = dec_via (\<lambda>(i, d). status_response.make i d) (dec_pair dec_word dec_bytes)"

definition enc_keys :: "chain_keys \<Rightarrow> bytes" where
  "enc_keys = enc_via (\<lambda>x. (ck_private_key x, ck_public_key x)) (enc_pair enc_bytes enc_bytes)"

definition dec_keys :: "bytes \<Rightarrow> (chain_keys \<times> bytes) option" where
  "dec_keys = dec_via (\<lambda>(i, d). chain_keys.make i d) (dec_pair dec_bytes dec_bytes)"

definition enc_info :: "chain_info \<Rightarrow> bytes" where
  "enc_info = enc_via (\<lambda>x. (ci_chain_id x, ci_version x, ci_index x))
     (enc_pair enc_word (enc_pair enc_word enc_word))"

definition dec_info :: "bytes \<Rightarrow> (chain_info \<times> bytes) option" where
  "dec_info = dec_via (\<lambda>(c, v, i). chain_info.make c v i)
     (dec_pair dec_word (dec_pair dec_word dec_word))"

lemma inverts_unit [codec_intros]: "inverts dec_unit enc_unit"
  by (simp add: inverts_def dec_unit_def enc_unit_def)

lemma inverts_parts [codec_intros]:
  "inverts dec_id enc_id" "inverts dec_id_data enc_id_data" "inverts dec_id_id enc_id_id"
  "inverts dec_auth enc_auth" "inverts dec_status enc_status"
  "inverts dec_keys enc_keys" "inverts dec_info enc_info"
  unfolding dec_id_def enc_id_def dec_id_data_def enc_id_data_def dec_id_id_def enc_id_id_def
    dec_auth_def enc_auth_def dec_status_def enc_status_def dec_keys_def enc_keys_def
    dec_info_def enc_info_def
  by (intro inverts_via codec_intros;
      simp add: chain_request.defs chain_data_request.defs get_block_request.defs auth_data.defs
        status_response.defs chain_keys.defs chain_info.defs)+

definition enc_request :: "request \<Rightarrow> bytes" where
  "enc_request = enc_via
     (\<lambda>x. (req_auth_data x, req_ping x, req_create_chain x, req_remove_chain x, req_add_block x,
        req_get_block x, req_get_blocks x, req_verify_chain x, req_get_chain_header x,
        req_get_chain_keys x, req_get_chain_info x))
     (enc_pair (enc_option enc_auth) (enc_pair (enc_option enc_unit)
     (enc_pair (enc_option enc_id_data) (enc_pair (enc_option enc_id)
     (enc_pair (enc_option enc_id_data) (enc_pair (enc_option enc_id_id)
     (enc_pair (enc_option enc_id) (enc_pair (enc_option enc_id) (enc_pair (enc_option enc_id)
     (enc_pair (enc_option enc_id) (enc_option enc_id)))))))))))"

definition dec_request :: "bytes \<Rightarrow> (request \<times> bytes) option" where
  "dec_request = dec_via
     (\<lambda>(a, p, c, r, ab, gb, gbs, v, gh, gk, gi). request.make a p c r ab gb gbs v gh gk gi)
     (dec_pair (dec_option dec_auth) (dec_pair (dec_option dec_unit)
     (dec_pair (dec_option dec_id_data) (dec_pair (dec_option dec_id)
     (dec_pair (dec_option dec_id_data) (dec_pair (dec_option dec_id_id)
     (dec_pair (dec_option dec_id) (dec_pair (dec_option dec_id) (dec_pair (dec_option dec_id)
     (dec_pair (dec_option dec_id) (dec_option dec_id)))))))))))"

definition enc_response :: "response \<Rightarrow> bytes" where
  "enc_response = enc_via
     (\<lambda>x. (resp_status x, resp_create_chain x, resp_remove_chain x, resp_add_block x,
        resp_get_block x, resp_get_blocks x, resp_verify_chain x, resp_get_chain_header x,
        resp_get_chain_keys x, resp_get_chain_info x))
     (enc_pair (enc_option enc_status) (enc_pair (enc_option enc_status)
     (enc_pair (enc_option enc_status) (enc_pair (enc_option (enc_option enc_block))
     (enc_pair (enc_option (enc_option enc_block)) (enc_pair (enc_option (enc_list enc_block))
     (enc_pair (enc_option enc_status) (enc_pair (enc_option (enc_option enc_header))
     (enc_pair (enc_option enc_keys) (enc_option enc_info))))))))))"

definition dec_response :: "bytes \<Rightarrow> (response \<times> bytes) option" where
  "dec_response = dec_via
     (\<lambda>(s, c, r, ab, gb, gbs, v, gh, gk, gi). response.make s c r ab gb gbs v gh gk gi)
     (dec_pair (dec_option dec_status) (dec_pair (dec_option dec_status)
     (dec_pair (dec_option dec_status) (dec_pair (dec_option (dec_option dec_block))
     (dec_pair (dec_option (dec_option dec_block)) (dec_pair (dec_option (dec_list dec_block))
     (dec_pair (dec_option dec_status) (dec_pair (dec_option (dec_option dec_header))
     (dec_pair (dec_option dec_keys) (dec_option dec_info))))))))))"

lemma inverts_request: "inverts dec_request enc_request"
  unfolding dec_request_def enc_request_def
  by (intro inverts_via codec_intros) (simp add: request.defs)

lemma inverts_response: "inverts dec_response enc_response"
  unfolding dec_response_def enc_response_def
  by (intro inverts_via codec_intros) (simp add: response.defs)

definition mem_pb :: pb_lib where
  "mem_pb =
     \<lparr>header_Serialize = Some \<circ> enc_header, header_Parse = whole dec_header,
      block_Serialize = Some \<circ> enc_block, block_Parse = whole dec_block,
      request_Serialize = Some \<circ> enc_request, request_Parse = whole dec_request,
      response_Serialize = Some \<circ> enc_response, response_Parse = whole dec_response\<rparr>"

lemma mem_pb_ok: "pb_ok mem_pb"
  by (simp add: pb_ok_def mem_pb_def whole_inverts inverts_header inverts_block inverts_request
      inverts_response)

lemma mem_pb_live: "pb_live mem_pb"
  by (simp add: pb_live_def mem_pb_def)

section \<open>Databases and random numbers\<close>

record world =
  files :: "string \<Rightarrow> kv_map option"
  open_files :: "string option list"
  counter :: nat

definition empty_world :: world where
  "empty_world = \<lparr>files = (\<lambda>_. None), open_files = [], counter = 0\<rparr>"

definition handle_path :: "world \<Rightarrow> nat \<Rightarrow> string option" where
  "handle_path w h = (if h < length (open_files w) then open_files w ! h else None)"

definition mem_view :: "(world, nat) db_view" where
  "mem_view = \<lparr>disk = files, handles = handle_path\<rparr>"

definition mem_open :: "db_options \<Rightarrow> string \<Rightarrow> world \<Rightarrow> nat option \<times> world" where
  "mem_open opt p w =
     (if Some p \<in> set (open_files w) then (None, w)
      else
        case files w p of
          None \<Rightarrow>
            if create_if_missing opt then
              (Some (length (open_files w)),
               w\<lparr>files := (files w)(p \<mapsto> Map.empty), open_files := open_files w @ [Some p]\<rparr>)
            else (None, w)
        | Some m \<Rightarrow>
            if error_if_exists opt then (None, w)
            else (Some (length (open_files w)), w\<lparr>open_files := open_files w @ [Some p]\<rparr>))"

definition mem_get :: "bool \<Rightarrow> nat \<Rightarrow> bytes \<Rightarrow> world \<Rightarrow> bytes option \<times> world" where
  "mem_get c h k w =
     (Option.bind (handle_path w h) (\<lambda>p. Option.bind (files w p) (\<lambda>m. m k)), w)"

definition mem_write :: "bool \<Rightarrow> nat \<Rightarrow> (bytes \<times> bytes) list \<Rightarrow> world \<Rightarrow> bool \<times> world" where
  "mem_write s h batch w =
     (case handle_path w h of
        None \<Rightarrow> (False, w)
      | Some p \<Rightarrow>
          (case files w p of
             None \<Rightarrow> (False, w)
           | Some m \<Rightarrow> (True, w\<lparr>files := (files w)(p \<mapsto> apply_puts batch m)\<rparr>)))"

definition mem_delete :: "nat \<Rightarrow> world \<Rightarrow> world" where
  "mem_delete h w = w\<lparr>open_files := (open_files w)[h := None]\<rparr>"

definition mem_destroy :: "string \<Rightarrow> db_options \<Rightarrow> world \<Rightarrow> bool \<times> world" where
  "mem_destroy p opt w =
     (if Some p \<in> set (open_files w) then (False, w) else (True, w\<lparr>files := (files w)(p := None)\<rparr>))"

definition mem_db :: "(world, nat) db_lib" where
  "mem_db =
     \<lparr>db_Open = mem_open, db_Get = mem_get, db_Write = mem_write, db_delete = mem_delete,
      db_DestroyDB = mem_destroy\<rparr>"

lemma ran_handle_path: "p \<in> ran (handle_path w) \<longleftrightarrow> Some p \<in> set (open_files w)"
  by (auto simp: ran_def handle_path_def in_set_conv_nth)

lemma mem_view_simps [simp]: "disk mem_view = files" "handles mem_view = handle_path"
  by (simp_all add: mem_view_def)

lemma handle_path_snoc:
  "open_files w' = open_files w @ [Some p] \<Longrightarrow>
    handle_path w' = (handle_path w)(length (open_files w) \<mapsto> p)"
  by (auto simp: handle_path_def fun_eq_iff nth_append)

lemma mem_open_ok: "open_ok mem_db mem_view"
  unfolding open_ok_def
  by (auto simp: mem_db_def mem_open_def ran_handle_path handle_path_snoc
      split: if_splits option.splits)
    (simp_all add: handle_path_def)

lemma mem_db_ok: "db_ok mem_db mem_view"
proof -
  have "get_ok mem_db mem_view"
    by (auto simp: get_ok_def mem_db_def mem_get_def bind_eq_Some_conv)
  moreover have "write_ok mem_db mem_view"
    by (auto simp: write_ok_def mem_db_def mem_write_def handle_path_def split: if_splits)
  moreover have "delete_ok mem_db mem_view"
    by (auto simp: delete_ok_def mem_db_def mem_delete_def handle_path_def fun_eq_iff)
  moreover have "destroy_ok mem_db mem_view"
    by (auto simp: destroy_ok_def mem_db_def mem_destroy_def handle_path_def split: if_splits)
  ultimately show ?thesis using mem_open_ok by (simp add: db_ok_def)
qed

lemma mem_db_live: "db_live mem_db mem_view"
  by (auto simp: db_live_def mem_db_def mem_open_def mem_get_def mem_write_def mem_destroy_def
      ran_handle_path split: option.splits)

definition mem_random :: "nat \<Rightarrow> world \<Rightarrow> (int \<times> bytes) \<times> world" where
  "mem_random n w =
     ((1, replicate n (char_of (counter w))), w\<lparr>counter := counter w + 1\<rparr>)"

definition mem_rand :: "world rand_lib" where
  "mem_rand =
     \<lparr>RAND_status = (\<lambda>w. 1), RAND_poll = (\<lambda>w. (1, w)), RAND_bytes = mem_random,
      RAND_priv_bytes = mem_random\<rparr>"

lemma mem_rand_ok: "rand_ok mem_rand (\<lambda>w. (disk mem_view w, handles mem_view w))"
  by (auto simp: rand_ok_def mem_rand_def mem_random_def handle_path_def)

lemma mem_rand_live: "rand_live mem_rand"
  by (simp add: rand_live_def mem_rand_def mem_random_def)

section \<open>Hashes and signatures\<close>

definition mem_sha :: "bytes sha_lib" where
  "mem_sha =
     \<lparr>SHA256_Init = Some [], SHA256_Update = (\<lambda>c d. Some (c @ d)),
      SHA256_Final = (\<lambda>c. Some (data_of_bytes c))\<rparr>"

lemma mem_sha_ok: "sha_ok mem_sha data_of_bytes"
  unfolding sha_ok_def by (rule exI [of _ "\<lambda>c. c"]) (simp add: mem_sha_def)

lemma mem_sha_live: "sha_live mem_sha"
  by (simp add: sha_live_def mem_sha_def)

definition mem_ec :: "(private_key, hash \<times> private_key) ec_lib" where
  "mem_ec =
     \<lparr>ec_seckey_verify = (\<lambda>sk. True),
      ec_pubkey_create = Some,
      ec_pubkey_serialize = (\<lambda>pk. Some (data_of_bytes (CHR 0x02 # data_bytes pk))),
      ec_pubkey_parse = (\<lambda>b. Some (data_of_bytes (drop 1 (data_bytes b)))),
      ecdsa_sign = (\<lambda>h sk. Some (h, sk)),
      ecdsa_signature_serialize_compact =
        (\<lambda>(h, sk). Some (data_of_bytes (data_bytes h @ data_bytes sk))),
      ecdsa_signature_parse_compact =
        (\<lambda>b. Some (data_of_bytes (take 32 (data_bytes b)), data_of_bytes (drop 32 (data_bytes b)))),
      ecdsa_verify = (\<lambda>(h, sk) h' pk. h = h' \<and> sk = pk)\<rparr>"

lemma mem_ec_ok: "ec_ok mem_ec"
  by (auto simp: ec_ok_def mem_ec_def)

lemma mem_ec_live: "ec_live mem_ec"
  by (simp add: ec_live_def mem_ec_def createPublicKey_def getSignature_def)

section \<open>The environment\<close>

definition mem_env :: "(world, nat, bytes, private_key, hash \<times> private_key) env" where
  "mem_env =
     \<lparr>env_db = mem_db, env_rand = mem_rand, env_sha = mem_sha, env_ec = mem_ec, env_pb = mem_pb\<rparr>"

lemma mem_env_simps [simp]:
  "env_db mem_env = mem_db" "env_rand mem_env = mem_rand" "env_sha mem_env = mem_sha"
  "env_ec mem_env = mem_ec" "env_pb mem_env = mem_pb"
  by (simp_all add: mem_env_def)

lemma mem_env_ok: "env_ok mem_env mem_view"
  using mem_db_ok mem_rand_ok mem_ec_ok mem_pb_ok by (simp add: env_ok_def)

lemma mem_env_live: "env_live mem_env mem_view"
  using mem_db_live mem_rand_live mem_sha_live mem_ec_live mem_pb_live by (simp add: env_live_def)

end
