(* ===== verification/Example_Run.thy ===== *)
theory Example_Run
  imports Memory_Env
begin

text \<open>
  A short run of the service in memory: chain 1 is created in an empty directory and gets its first
  block.  The facts about its worlds are what the witnesses of the properties start from.
\<close>

definition ex_manager :: manager where
  "ex_manager = \<lparr>storageDir = ''/data''\<rparr>"

definition created_world :: world where
  "created_world = snd (Manager_createChain mem_env ex_manager 1 ''genesis'' empty_world)"

definition grown_world :: world where
  "grown_world = snd (Manager_addBlock mem_env ex_manager 1 ''first'' created_world)"

text \<open>A handler without a password and one with the password \<open>secret\<close>.\<close>

definition open_handler :: handler where
  "open_handler = \<lparr>hdl_manager = ex_manager, hdl_password = ''''\<rparr>"

definition locked_handler :: handler where
  "locked_handler = \<lparr>hdl_manager = ex_manager, hdl_password = ''secret''\<rparr>"

text \<open>The message that carries a request.\<close>

definition message_of :: "request \<Rightarrow> message" where
  "message_of req = \<lparr>msg_data = enc_request req\<rparr>"

definition add_first :: request where
  "add_first = request_default\<lparr>req_add_block := Some \<lparr>cdr_chain_id = 1, cdr_data = ''first''\<rparr>\<rparr>"

definition read_first :: request where
  "read_first = request_default\<lparr>req_get_block := Some \<lparr>gbr_chain_id = 1, gbr_block_id = 1\<rparr>\<rparr>"

lemma handlers_simps [simp]:
  "hdl_manager open_handler = ex_manager" "hdl_password open_handler = ''''"
  "hdl_manager locked_handler = ex_manager" "hdl_password locked_handler = ''secret''"
  by (simp_all add: open_handler_def locked_handler_def)

lemma parse_message_of [simp]: "request_Parse mem_pb (msg_data (message_of req)) = Some req"
  by (simp add: message_of_def mem_pb_def whole_inverts inverts_request)

lemma parse_example: "request_Parse (env_pb mem_env) (msg_data (message_of req)) = Some req"
  by simp

section \<open>No database stays open\<close>

lemma empty_handles [simp]: "handle_path empty_world = Map.empty"
  by (simp add: handle_path_def empty_world_def fun_eq_iff)

lemma created_handles [simp]: "handle_path created_world = Map.empty"
  using run_command_handles [OF mem_env_ok, of ex_manager "CreateChain 1 ''genesis''" empty_world]
  by (simp add: created_world_def)

lemma grown_handles [simp]: "handle_path grown_world = Map.empty"
  using run_command_handles [OF mem_env_ok, of ex_manager "AddBlock 1 ''first''" created_world]
  by (simp add: grown_world_def)

lemma example_accessible [simp]:
  "accessible mem_view ex_manager empty_world i" "accessible mem_view ex_manager created_world i"
  "accessible mem_view ex_manager grown_world i"
  by (simp_all add: accessible_def)

section \<open>The chain of the run\<close>

lemma empty_files [simp]: "files empty_world p = None"
  by (simp add: empty_world_def)

lemma created:
  obtains ch where "Manager_createChain mem_env ex_manager 1 ''genesis'' empty_world = (Some ch, created_world)"
proof -
  obtain out w1 where "Random_random mem_rand 32 True empty_world = ((True, out), w1)"
    using Random_random_live [OF mem_rand_live] by blast
  then have "generatePrivateKey (env_rand mem_env) (env_ec mem_env) empty_world =
      (Some (data_of_bytes out), w1)"
    by (simp add: generatePrivateKey_def mem_ec_def)
  from Manager_createChain_live [OF mem_env_ok mem_env_live _ _ _ this, of "''genesis''" ex_manager 1] that
  show thesis by (auto simp: created_world_def MAX_DATA_LENGTH_def)
qed

definition ex_header :: header where
  "ex_header = (case chain_ledger mem_env mem_view ex_manager created_world 1 of
     Some (h, bs) \<Rightarrow> h | None \<Rightarrow> header_new 0 [] (data_of_bytes []) (data_of_bytes []))"

lemma created_ledger: "chain_ledger mem_env mem_view ex_manager created_world 1 = Some (ex_header, [])"
  and ex_header: "hdr_index ex_header = 0" "hdr_version ex_header = DB_VERSION"
    "hdr_data ex_header = ''genesis''"
    "createPublicKey mem_ec (hdr_privateKey ex_header) = Some (hdr_publicKey ex_header)"
proof -
  obtain ch where "Manager_createChain mem_env ex_manager 1 ''genesis'' empty_world = (Some ch, created_world)"
    by (rule created)
  from Manager_createChain_effect(2) [OF mem_env_ok this refl] obtain priv pub
    where k: "createPublicKey mem_ec priv = Some pub"
      and l: "chain_ledger mem_env mem_view ex_manager created_world 1 =
        Some (header_new DB_VERSION ''genesis'' priv pub, [])" by auto
  then have h: "ex_header = header_new DB_VERSION ''genesis'' priv pub" by (simp add: ex_header_def)
  with k l show "chain_ledger mem_env mem_view ex_manager created_world 1 = Some (ex_header, [])"
    "hdr_index ex_header = 0" "hdr_version ex_header = DB_VERSION" "hdr_data ex_header = ''genesis''"
    "createPublicKey mem_ec (hdr_privateKey ex_header) = Some (hdr_publicKey ex_header)"
    by (auto simp: header_new_def h)
qed

lemma created_sound: "sound_chain mem_env mem_view ex_manager created_world 1"
  using created_ledger ex_header by (simp add: sound_chain_def)

lemma grown:
  obtains b where "Manager_addBlock mem_env ex_manager 1 ''first'' created_world = (Some b, grown_world)"
proof -
  have "ec_seckey_verify (env_ec mem_env) (hdr_privateKey ex_header)" by (simp add: mem_ec_def)
  from Manager_addBlock_live [OF mem_env_ok mem_env_live _ created_ledger this, of "''first''"] that
  show thesis by (auto simp: grown_world_def ex_header MAX_DATA_LENGTH_def)
qed

definition ex_block :: block where
  "ex_block = (case Manager_addBlock mem_env ex_manager 1 ''first'' created_world of
     (Some b, w) \<Rightarrow> b | (None, w) \<Rightarrow> block_new (container.make (data_of_bytes []) (data_of_bytes [])
       (data_of_bytes []) [] (data_of_bytes [])))"

lemma grown_block: "Manager_addBlock mem_env ex_manager 1 ''first'' created_world = (Some ex_block, grown_world)"
proof -
  obtain b where "Manager_addBlock mem_env ex_manager 1 ''first'' created_world = (Some b, grown_world)"
    by (rule grown)
  then show ?thesis by (simp add: ex_block_def)
qed

lemma grown_ledger:
  "chain_ledger mem_env mem_view ex_manager grown_world 1 =
     Some (ex_header\<lparr>hdr_index := 1\<rparr>, [ex_block])"
  using Manager_addBlock_ledger [OF mem_env_ok grown_block created_ledger] by (auto simp: ex_header)

lemma grown_sound: "sound_chain mem_env mem_view ex_manager grown_world 1"
  by (rule addBlock_sound [OF mem_env_ok grown_block created_sound])

end
