(* ===== verification/Storage_Life.thy ===== *)
theory Storage_Life
  imports Storage
begin

text \<open>
  The life of one \<open>Storage\<close> object: any sequence of calls of its public functions, from its
  construction to its destructor.  The specification is a map that may be missing and may be open
  (\<open>explains\<close>); it says which outcomes a sequence of calls may have and which contents it leaves.
\<close>

section \<open>Sequences of calls\<close>

datatype storage_call =
  CreateCall
| OpenCall
| CloseCall
| GetCall bytes
| SetCall "key_value list"
| RemoveCall

datatype outcome = Flag bool | Value "bytes option"

fun run_call ::
  "('w, 'h) db_lib \<Rightarrow> storage_call \<Rightarrow> 'h storage \<Rightarrow> 'w \<Rightarrow> outcome \<times> 'h storage \<times> 'w" where
  "run_call D CreateCall st w = (let (ok, st, w) = Storage_create D st w in (Flag ok, st, w))"
| "run_call D OpenCall st w = (let (ok, st, w) = Storage_open D st w in (Flag ok, st, w))"
| "run_call D CloseCall st w = (let (ok, st, w) = Storage_close D st w in (Flag ok, st, w))"
| "run_call D (GetCall k) st w =
     (let (kv, w) = Storage_get D st k w in (Value (map_option kv_value kv), st, w))"
| "run_call D (SetCall kvs) st w = (let (ok, w) = Storage_set D st kvs w in (Flag ok, st, w))"
| "run_call D RemoveCall st w = (let (ok, w) = Storage_remove D st w in (Flag ok, st, w))"

fun run_calls ::
  "('w, 'h) db_lib \<Rightarrow> storage_call list \<Rightarrow> 'h storage \<Rightarrow> 'w
     \<Rightarrow> (storage_call \<times> outcome) list \<times> 'h storage \<times> 'w" where
  "run_calls D [] st w = ([], st, w)"
| "run_calls D (c # cs) st w =
     (let (r, st, w) = run_call D c st w;
          (log, st, w) = run_calls D cs st w
      in ((c, r) # log, st, w))"

section \<open>The specification\<close>

definition put_all :: "key_value list \<Rightarrow> kv_map \<Rightarrow> kv_map" where
  "put_all kvs m = apply_puts (map (\<lambda>kv. (kv_key kv, kv_value kv)) kvs) m"

text \<open>
  The state is whether the map is open, and the map, if there is one.  Creating makes an empty map
  where there is none, and may leave one behind when it fails; opening may fail, and succeeds only
  on a map that is there and closed; a value that is read is the stored one; writing is all or
  nothing, and all when it succeeds; removing is refused on an open map, and on a closed one leaves
  nothing when it succeeds, and anything when it fails half way.
\<close>

fun allowed :: "bool \<times> kv_map option \<Rightarrow> storage_call \<Rightarrow> outcome \<Rightarrow> bool \<times> kv_map option \<Rightarrow> bool" where
  "allowed (opn, m) CreateCall r s' \<longleftrightarrow>
     (if opn \<or> m \<noteq> None then r = Flag False \<and> s' = (opn, m)
      else r = Flag True \<and> s' = (True, Some Map.empty) \<or>
        r = Flag False \<and> (s' = (False, None) \<or> s' = (False, Some Map.empty)))"
| "allowed (opn, m) OpenCall r s' \<longleftrightarrow>
     (\<exists>ok. r = Flag ok \<and> (ok \<longrightarrow> \<not> opn \<and> m \<noteq> None) \<and> s' = (opn \<or> ok, m))"
| "allowed (opn, m) CloseCall r s' \<longleftrightarrow> r = Flag opn \<and> s' = (False, m)"
| "allowed (opn, m) (GetCall k) r s' \<longleftrightarrow>
     (\<exists>v. r = Value v \<and> (v = None \<or> opn \<and> v = Option.bind m (\<lambda>f. f k)) \<and> s' = (opn, m))"
| "allowed (opn, m) (SetCall kvs) r s' \<longleftrightarrow>
     (\<exists>ok. r = Flag ok \<and> (opn \<and> s' = (opn, map_option (put_all kvs) m) \<or> \<not> ok \<and> s' = (opn, m)))"
| "allowed (opn, m) RemoveCall r s' \<longleftrightarrow>
     (if opn then r = Flag False \<and> s' = (opn, m)
      else r = Flag True \<and> s' = (False, None) \<or> r = Flag False \<and> \<not> fst s')"

inductive explains ::
  "bool \<times> kv_map option \<Rightarrow> (storage_call \<times> outcome) list \<Rightarrow> bool \<times> kv_map option \<Rightarrow> bool" where
  nothing: "explains s [] s"
| call: "allowed s c r s1 \<Longrightarrow> explains s1 log s' \<Longrightarrow> explains s ((c, r) # log) s'"

inductive_simps explains_simps [simp]: "explains s [] s'" "explains s ((c, r) # log) s'"

section \<open>The class implements it\<close>

text \<open>
  Destroying a database takes its lock first: while it is open this fails and leaves it alone.
\<close>

definition db_locked :: "('w, 'h) db_lib \<Rightarrow> ('w, 'h) db_view \<Rightarrow> bool" where
  "db_locked D V \<longleftrightarrow>
     (\<forall>p opt w r w'. p \<in> ran (handles V w) \<longrightarrow> db_DestroyDB D p opt w = (r, w') \<longrightarrow>
        \<not> r \<and> handles V w' = handles V w \<and> disk V w' = disk V w)"

text \<open>The object in the world \<open>w\<close>, constructed on the path \<open>p\<close> in the world \<open>w0\<close>.\<close>

definition holding ::
  "('w, 'h) db_view \<Rightarrow> string \<Rightarrow> 'w \<Rightarrow> 'h storage \<Rightarrow> 'w \<Rightarrow> kv_map option \<Rightarrow> bool" where
  "holding V p w0 st w m \<longleftrightarrow>
     st_path st = p \<and>
     (case st_db st of
        None \<Rightarrow> disk V w p = m \<and> undisturbed V p w0 w
      | Some h \<Rightarrow> (\<exists>f. m = Some f \<and> session V p w0 st w f))"

lemma holding_new: "holding V p w (Storage_new p) w (disk V w p)"
  by (simp add: holding_def)

lemma holding_disk: "holding V p w0 st w m \<Longrightarrow> disk V w p = m"
  by (auto simp: holding_def session_disk split: option.splits)

lemma holding_closed: "holding V p w0 st w m \<Longrightarrow> st_db st = None \<Longrightarrow> st = Storage_new p"
  by (cases st) (simp add: holding_def Storage_new_def)

lemma holding_open:
  assumes "holding V p w0 st w m" and "st_db st = Some h"
  obtains f where "m = Some f" "session V p w0 st w f" "st_path st = p"
  using assms by (auto simp: holding_def)

lemma session_from:
  "undisturbed V p w0 w \<Longrightarrow> session V p w st w' m \<Longrightarrow> session V p w0 st w' m"
  by (simp add: session_def undisturbed_def)

lemma Storage_open_path: "Storage_open D st w = (ok, st', w') \<Longrightarrow> st_path st' = st_path st"
  by (auto simp: Storage_open_def Let_def split: if_splits prod.splits)

lemma Storage_create_path: "Storage_create D st w = (ok, st', w') \<Longrightarrow> st_path st' = st_path st"
  by (auto simp: Storage_create_def Let_def split: if_splits prod.splits)

lemma open_holding:
  assumes db: "db_ok D V" and h: "holding V p w0 st w m" and o: "Storage_open D st w = (ok, st', w')"
  shows "holding V p w0 st' w' m \<and> (ok \<longrightarrow> st_db st = None \<and> m \<noteq> None) \<and>
    (st_db st' \<noteq> None) = (st_db st \<noteq> None \<or> ok)"
proof (cases "st_db st")
  case None
  then have st: "st = Storage_new p" and d: "disk V w p = m" and u: "undisturbed V p w0 w"
    using h holding_closed [OF h] by (simp_all add: holding_def)
  note path = Storage_open_path [OF o]
  show ?thesis
  proof (cases ok)
    case True
    with Storage_open_session [OF db, of p w st' w'] o st d obtain f
      where f: "m = Some f" and s: "session V p w st' w' f" by auto
    with path st session_from [OF u s] None show ?thesis
      by (auto simp: holding_def session_def True)
  next
    case False
    with Storage_open_failed [OF db, of p w st' w'] o st path d undisturbed_trans [OF u] None
    show ?thesis by (simp add: holding_def)
  qed
next
  case (Some x)
  with h o show ?thesis by (simp add: Storage_open_def)
qed

lemma create_holding:
  assumes db: "db_ok D V" and h: "holding V p w0 st w m" and c: "Storage_create D st w = (ok, st', w')"
  shows "\<exists>m'. holding V p w0 st' w' m' \<and> allowed (st_db st \<noteq> None, m) CreateCall (Flag ok) (st_db st' \<noteq> None, m')"
proof (cases "st_db st")
  case None
  then have st: "st = Storage_new p" and d: "disk V w p = m" and u: "undisturbed V p w0 w"
    using h holding_closed [OF h] by (simp_all add: holding_def)
  show ?thesis
  proof (cases ok)
    case True
    with Storage_create_session [OF db, of p w st' w'] c st d
    have "m = None" and s: "session V p w st' w' Map.empty" by auto
    with True None Storage_create_path [OF c] st session_from [OF u s] show ?thesis
      by (intro exI [of _ "Some Map.empty"]) (auto simp: holding_def session_def)
  next
    case False
    note f = Storage_create_failed [OF db, of p w st' w']
    from f c st False d have "disk V w' p = m \<or> m = None \<and> disk V w' p = Some Map.empty" by auto
    moreover have "holding V p w0 st' w' (disk V w' p)" "st_db st' = None"
      using f c st False Storage_create_path [OF c] undisturbed_trans [OF u] by (auto simp: holding_def)
    ultimately show ?thesis using False None by (intro exI [of _ "disk V w' p"]) auto
  qed
next
  case (Some x)
  with h c show ?thesis by (intro exI [of _ m]) (simp add: Storage_create_def)
qed

lemma close_holding:
  assumes db: "db_ok D V" and h: "holding V p w0 st w m" and c: "Storage_close D st w = (ok, st', w')"
  shows "holding V p w0 st' w' m \<and> ok = (st_db st \<noteq> None) \<and> st_db st' = None"
proof (cases "st_db st")
  case None
  with h c show ?thesis by (auto simp: Storage_close_def)
next
  case (Some x)
  with h obtain f where m: "m = Some f" and s: "session V p w0 st w f" and "st_path st = p"
    by (rule holding_open)
  moreover have "ok" "st' = st\<lparr>st_db := None\<rparr>" "w' = Storage_dtor D st w"
    using c Some by (simp_all add: Storage_close_def Storage_dtor_def)
  ultimately show ?thesis
    using Storage_dtor_session [OF db s] session_disk [OF s] Some by (simp add: holding_def)
qed

lemma get_holding:
  assumes db: "db_ok D V" and h: "holding V p w0 st w m" and g: "Storage_get D st k w = (r, w')"
  shows "holding V p w0 st w' m \<and>
    (r = None \<or> st_db st \<noteq> None \<and> map_option kv_value r = Option.bind m (\<lambda>f. f k))"
proof (cases "st_db st")
  case None
  with h g show ?thesis by (simp add: Storage_get_def)
next
  case (Some x)
  with h obtain f where m: "m = Some f" and s: "session V p w0 st w f" and "st_path st = p"
    by (rule holding_open)
  with Storage_get_session [OF db s g] Some show ?thesis by (cases r) (auto simp: holding_def)
qed

lemma set_holding:
  assumes db: "db_ok D V" and h: "holding V p w0 st w m" and g: "Storage_set D st kvs w = (ok, w')"
  shows "st_db st \<noteq> None \<and> holding V p w0 st w' (map_option (put_all kvs) m) \<or>
    \<not> ok \<and> holding V p w0 st w' m"
proof (cases "st_db st")
  case None
  with h g show ?thesis by (simp add: Storage_set_def)
next
  case (Some x)
  with h obtain f where m: "m = Some f" and s: "session V p w0 st w f" and "st_path st = p"
    by (rule holding_open)
  with Storage_set_session [OF db s g] Some show ?thesis by (auto simp: holding_def put_all_def)
qed

lemma remove_holding:
  assumes db: "db_ok D V" and lock: "db_locked D V" and h: "holding V p w0 st w m"
    and g: "Storage_remove D st w = (ok, w')"
  shows "\<exists>m'. holding V p w0 st w' m' \<and> allowed (st_db st \<noteq> None, m) RemoveCall (Flag ok) (st_db st \<noteq> None, m')"
proof (cases "st_db st")
  case None
  then have st: "st = Storage_new p" and u: "undisturbed V p w0 w"
    using h holding_closed [OF h] by (simp_all add: holding_def)
  note e = Storage_remove_effect [OF db g]
  have "holding V p w0 st w' (disk V w' p)"
    using e(1) st undisturbed_trans [OF u] by (simp add: holding_def)
  with e(2) st None show ?thesis by (intro exI [of _ "disk V w' p"]) auto
next
  case (Some x)
  with h obtain f where m: "m = Some f" and s: "session V p w0 st w f" and p: "st_path st = p"
    by (rule holding_open)
  have "db_DestroyDB D p default_options w = (ok, w')"
    using g p by (auto simp: Storage_remove_def Let_def split: prod.splits if_splits)
  moreover have "p \<in> ran (handles V w)" using s by (auto simp: session_def ran_def)
  ultimately have "\<not> ok \<and> handles V w' = handles V w \<and> disk V w' = disk V w"
    using lock unfolding db_locked_def by blast
  with s m p Some show ?thesis by (intro exI [of _ m]) (simp add: holding_def session_def)
qed

lemma run_call_allowed:
  assumes "db_ok D V" and "db_locked D V" and "holding V p w0 st w m"
    and "run_call D c st w = (r, st', w')"
  shows "\<exists>m'. allowed (st_db st \<noteq> None, m) c r (st_db st' \<noteq> None, m') \<and> holding V p w0 st' w' m'"
proof (cases c)
  case CreateCall
  with assms(4) create_holding [OF assms(1,3)] show ?thesis by (fastforce split: prod.splits)
next
  case OpenCall
  with assms(4) open_holding [OF assms(1,3)] show ?thesis by (fastforce split: prod.splits)
next
  case CloseCall
  with assms(4) close_holding [OF assms(1,3)] show ?thesis by (fastforce split: prod.splits)
next
  case (GetCall k)
  with assms(4) get_holding [OF assms(1,3)] show ?thesis by (fastforce split: prod.splits)
next
  case (SetCall kvs)
  with assms(4) set_holding [OF assms(1,3)] show ?thesis by (fastforce split: prod.splits)
next
  case RemoveCall
  with assms(4) remove_holding [OF assms(1-3)] show ?thesis by (fastforce split: prod.splits)
qed

lemma run_calls_explained:
  "db_ok D V \<Longrightarrow> db_locked D V \<Longrightarrow> holding V p w0 st w m \<Longrightarrow> run_calls D cs st w = (log, st', w') \<Longrightarrow>
    \<exists>m'. explains (st_db st \<noteq> None, m) log (st_db st' \<noteq> None, m') \<and> holding V p w0 st' w' m'"
proof (induction cs arbitrary: st w m log)
  case Nil
  then show ?case by auto
next
  case (Cons c cs)
  obtain r st1 w1 where c: "run_call D c st w = (r, st1, w1)" by (cases "run_call D c st w") auto
  obtain log1 where l: "run_calls D cs st1 w1 = (log1, st', w')" and log: "log = (c, r) # log1"
    using Cons.prems(4) c by (auto split: prod.splits)
  from run_call_allowed [OF Cons.prems(1-3) c] obtain m1
    where "allowed (st_db st \<noteq> None, m) c r (st_db st1 \<noteq> None, m1)" and h: "holding V p w0 st1 w1 m1"
    by blast
  with Cons.IH [OF Cons.prems(1,2) h l] show ?case unfolding log by auto
qed

lemma holding_dtor:
  assumes "db_ok D V" and "holding V p w0 st w m"
  shows "undisturbed V p w0 (Storage_dtor D st w) \<and> disk V (Storage_dtor D st w) p = m"
proof (cases "st_db st")
  case None
  with assms(2) show ?thesis by (simp add: holding_def)
next
  case (Some x)
  with assms(2) obtain f where m: "m = Some f" and s: "session V p w0 st w f" by (rule holding_open)
  from kv.finish [OF assms(1) s] m show ?thesis by simp
qed

end
