(* ===== verification/Answers.thy ===== *)
theory Answers
  imports Handler
begin

text \<open>
  The answers of the request handler: what a client can conclude from an answer that parses with the
  status \<open>SUCCESS\<close>, which fields an answer has, and that there always is one.
\<close>

section \<open>Answers read by a client\<close>

text \<open>\<open>m\<close> is a message that parses to the response \<open>resp\<close>.\<close>

definition carries :: "pb_lib \<Rightarrow> response \<Rightarrow> message option \<Rightarrow> bool" where
  "carries P resp mo \<longleftrightarrow> (\<exists>m. mo = Some m \<and> response_Parse P (msg_data m) = Some resp)"

definition status_only :: "status \<Rightarrow> string \<Rightarrow> response" where
  "status_only st text =
     response_default\<lparr>resp_status := Some \<lparr>sr_status = status_code st, sr_message = text\<rparr>\<rparr>"

lemma makeResponse_carries:
  "pb_ok P \<Longrightarrow> makeResponse P resp = Some m \<Longrightarrow> carries P resp (Some m)"
  by (auto simp: makeResponse_def carries_def pb_ok_def split: option.splits)

lemma makeStatus_makeResponse: "makeStatus P st text = makeResponse P (status_only st text)"
  by (simp add: makeStatus_def makeResponse_def status_only_def Let_def)

lemma makeStatus_carries:
  "pb_ok P \<Longrightarrow> makeStatus P st text = Some m \<Longrightarrow> carries P (status_only st text) (Some m)"
  by (simp add: makeStatus_makeResponse makeResponse_carries)

lemma success_status: "success_response = status_only SUCCESS ''''"
  by (simp add: success_response_def status_only_def)

lemma status_code_inject [simp]: "status_code a = status_code b \<longleftrightarrow> a = b"
  by (cases a; cases b) simp_all

lemma add_blocks_foldl:
  "resp_get_blocks resp = None \<Longrightarrow>
    foldl add_blocks resp bs =
      (if bs = [] then resp else resp\<lparr>resp_get_blocks := Some (map setBlockData bs)\<rparr>)"
proof (induction bs rule: rev_induct)
  case Nil
  then show ?case by simp
next
  case (snoc b bs)
  then show ?case by (auto simp: add_blocks_def)
qed

text \<open>An answer with the status \<open>SUCCESS\<close> is not an error answer, and carries what was packed.\<close>

lemma success_not_error:
  assumes "pb_ok P" and "carries P resp (makeStatus P st text)"
    and "map_option sr_status (resp_status resp) = Some (status_code SUCCESS)"
  shows "st = SUCCESS"
proof -
  obtain m where m: "makeStatus P st text = Some m" using assms(2) by (auto simp: carries_def)
  with makeStatus_carries [OF assms(1) m] assms(2) have "resp = status_only st text"
    by (auto simp: carries_def)
  with assms(3) show ?thesis by (simp add: status_only_def del: status_code.simps)
qed

lemma success_response_carried:
  assumes "pb_ok P" and "carries P resp (makeResponse P resp')"
  shows "resp = resp'"
proof -
  obtain m where m: "makeResponse P resp' = Some m" using assms(2) by (auto simp: carries_def)
  with makeResponse_carries [OF assms(1) m] assms(2) show ?thesis by (auto simp: carries_def)
qed

text \<open>An answer to a lookup is positive only when the lookup has found something.\<close>

lemma lookup_answer:
  assumes "pb_ok P"
    and "carries P resp (case r of None \<Rightarrow> makeStatus P ERROR text | Some x \<Rightarrow> makeResponse P (f x))"
    and "map_option sr_status (resp_status resp) = Some (status_code SUCCESS)"
  obtains x where "r = Some x" "resp = f x"
proof (cases r)
  case None
  with assms(2) success_not_error [OF assms(1) _ assms(3)] show ?thesis by auto
next
  case (Some x)
  with assms(2) success_response_carried [OF assms(1), of resp "f x"] that show ?thesis by simp
qed

lemma flag_answer:
  assumes "pb_ok P"
    and "carries P resp (if ok then makeStatus P SUCCESS '''' else makeStatus P ERROR text)"
    and "map_option sr_status (resp_status resp) = Some (status_code SUCCESS)"
  shows ok
proof (rule ccontr)
  assume "\<not> ok"
  with assms(2) success_not_error [OF assms(1) _ assms(3)] show False by auto
qed

text \<open>The handler that serves a request.\<close>

lemma request_parts [simp]:
  "\<lparr>gbr_chain_id = gbr_chain_id y, gbr_block_id = gbr_block_id y\<rparr> = y"
  "\<lparr>cr_chain_id = cr_chain_id x\<rparr> = x"
  "\<lparr>cdr_chain_id = cdr_chain_id z, cdr_data = cdr_data z\<rparr> = z"
  by (cases y, simp, cases x, simp, cases z, simp)

lemma dispatch_read:
  "requested req = Some (GetBlock i n) \<Longrightarrow> dispatch E H req w =
    Some (handleGetBlockRequest E H \<lparr>gbr_chain_id = i, gbr_block_id = n\<rparr> w)"
  "requested req = Some (GetBlocks i) \<Longrightarrow> dispatch E H req w =
    handleGetBlocksRequest E H \<lparr>cr_chain_id = i\<rparr> w"
  "requested req = Some (VerifyChain i) \<Longrightarrow> dispatch E H req w =
    handleVerifyChainRequest E H \<lparr>cr_chain_id = i\<rparr> w"
  "requested req = Some (GetChainHeader i) \<Longrightarrow> dispatch E H req w =
    Some ((if req_get_chain_header req \<noteq> None then handleGetChainHeaderRequest
           else handleGetChainKeysRequest) E H \<lparr>cr_chain_id = i\<rparr> w)"
  "requested req = Some (GetChainInfo i) \<Longrightarrow> dispatch E H req w =
    Some (handleGetChainInfoRequest E H \<lparr>cr_chain_id = i\<rparr> w)"
  by (auto simp: requested_def dispatch_def data_command_def split: if_split_asm split del: if_split)

lemma dispatch_write:
  "requested req = Some (CreateChain i d) \<Longrightarrow> dispatch E H req w =
    Some (handleCreateChainRequest E H \<lparr>cdr_chain_id = i, cdr_data = d\<rparr> w)"
  "requested req = Some (AddBlock i d) \<Longrightarrow> dispatch E H req w =
    Some (handleAddBlockRequest E H \<lparr>cdr_chain_id = i, cdr_data = d\<rparr> w)"
  "requested req = Some (RemoveChain i) \<Longrightarrow> dispatch E H req w =
    Some (handleRemoveChainRequest E H \<lparr>cr_chain_id = i\<rparr> w)"
  "requested req = Some (CreateChain i d) \<Longrightarrow> length d \<le> MAX_DATA_LENGTH"
  "requested req = Some (AddBlock i d) \<Longrightarrow> length d \<le> MAX_DATA_LENGTH"
  by (auto simp: requested_def dispatch_def data_command_def split: if_split_asm split del: if_split)

section \<open>Positive answers are true\<close>

lemma getBlock_answer:
  assumes ok: "env_ok E V" and l: "chain_ledger E V (hdl_manager H) w i = Some (h, bs)"
    and g: "handleGetBlockRequest E H \<lparr>gbr_chain_id = i, gbr_block_id = n\<rparr> w = (reply, w')"
    and c: "carries (env_pb E) resp reply"
    and s: "map_option sr_status (resp_status resp) = Some (status_code SUCCESS)"
  shows "n \<noteq> 0 \<and> n \<le> hdr_index h \<and> resp_get_block resp = Some (Some (setBlockData (bs ! (unat n - 1))))"
proof -
  obtain bo w1 where b: "Manager_getBlock E (hdl_manager H) i n w = (bo, w1)"
    by (cases "Manager_getBlock E (hdl_manager H) i n w")
  with g c have "carries (env_pb E) resp
      (case bo of None \<Rightarrow> makeStatus (env_pb E) ERROR ''Can't get block''
       | Some x \<Rightarrow> makeResponse (env_pb E)
           (success_response\<lparr>resp_get_block := Some (Some (setBlockData x))\<rparr>))"
    by (auto simp: handleGetBlockRequest_def split: option.splits)
  from lookup_answer [OF env_okD(4) [OF ok] this s] obtain x where "bo = Some x"
    and "resp = success_response\<lparr>resp_get_block := Some (Some (setBlockData x))\<rparr>" .
  with Manager_getBlock_effect(2) [OF ok b _ l] show ?thesis by simp
qed

text \<open>The header, the keys and the counter of a chain.\<close>

definition header_message :: "header \<Rightarrow> pb_header" where
  "header_message h =
     \<lparr>pbh_version = hdr_version h, pbh_index = hdr_index h, pbh_data = hdr_data h,
      pbh_private_key = data_bytes (hdr_privateKey h), pbh_public_key = data_bytes (hdr_publicKey h)\<rparr>"

definition keys_message :: "header \<Rightarrow> chain_keys" where
  "keys_message h =
     \<lparr>ck_private_key = data_bytes (hdr_privateKey h), ck_public_key = data_bytes (hdr_publicKey h)\<rparr>"

lemma chain_ledger_header:
  assumes "chain_ledger E V M w i = Some (h, bs)"
  shows "\<exists>m. disk V w (makeStoragePath M i) = Some m \<and> stored_header (env_pb E) m = Some h \<and>
    hdr_version h = DB_VERSION \<and> hdr_index h = word_of_nat (length bs)"
proof -
  obtain m where "disk V w (makeStoragePath M i) = Some m" and l: "ledger (env_pb E) m = Some (h, bs)"
    using assms by (auto simp: chain_ledger_def bind_eq_Some_conv)
  with ledgerD [OF l] ledger_length [OF l] show ?thesis by simp
qed

lemma header_found:
  assumes "env_ok E V" and "chain_ledger E V M w i = Some (h, bs)"
    and "Manager_getChainHeader E M i w = (Some x, w')"
  shows "x = h"
  using Manager_getChainHeader_effect(2) [OF assms(1,3)] chain_ledger_header [OF assms(2)] by auto

lemma getChainHeader_answer:
  assumes ok: "env_ok E V" and l: "chain_ledger E V (hdl_manager H) w i = Some (h, bs)"
    and g: "handleGetChainHeaderRequest E H \<lparr>cr_chain_id = i\<rparr> w = (reply, w')"
    and c: "carries (env_pb E) resp reply"
    and s: "map_option sr_status (resp_status resp) = Some (status_code SUCCESS)"
  shows "resp_get_chain_header resp = Some (Some (header_message h))"
proof -
  obtain ho w1 where b: "Manager_getChainHeader E (hdl_manager H) i w = (ho, w1)"
    by (cases "Manager_getChainHeader E (hdl_manager H) i w")
  with g c have "carries (env_pb E) resp
      (case ho of None \<Rightarrow> makeStatus (env_pb E) ERROR ''Can't get header''
       | Some x \<Rightarrow> makeResponse (env_pb E)
           (success_response\<lparr>resp_get_chain_header := Some (Some (header_message x))\<rparr>))"
    by (auto simp: handleGetChainHeaderRequest_def header_message_def split: option.splits)
  from lookup_answer [OF env_okD(4) [OF ok] this s] obtain x where "ho = Some x"
    and "resp = success_response\<lparr>resp_get_chain_header := Some (Some (header_message x))\<rparr>" .
  with header_found [OF ok l] b show ?thesis by simp
qed

lemma getChainKeys_answer:
  assumes ok: "env_ok E V" and l: "chain_ledger E V (hdl_manager H) w i = Some (h, bs)"
    and g: "handleGetChainKeysRequest E H \<lparr>cr_chain_id = i\<rparr> w = (reply, w')"
    and c: "carries (env_pb E) resp reply"
    and s: "map_option sr_status (resp_status resp) = Some (status_code SUCCESS)"
  shows "resp_get_chain_keys resp = Some (keys_message h)"
proof -
  obtain ho w1 where b: "Manager_getChainHeader E (hdl_manager H) i w = (ho, w1)"
    by (cases "Manager_getChainHeader E (hdl_manager H) i w")
  with g c have "carries (env_pb E) resp
      (case ho of None \<Rightarrow> makeStatus (env_pb E) ERROR ''Can't get header''
       | Some x \<Rightarrow> makeResponse (env_pb E)
           (success_response\<lparr>resp_get_chain_keys := Some (keys_message x)\<rparr>))"
    by (auto simp: handleGetChainKeysRequest_def keys_message_def split: option.splits)
  from lookup_answer [OF env_okD(4) [OF ok] this s] obtain x where "ho = Some x"
    and "resp = success_response\<lparr>resp_get_chain_keys := Some (keys_message x)\<rparr>" .
  with header_found [OF ok l] b show ?thesis by simp
qed

lemma getChainInfo_answer:
  assumes ok: "env_ok E V" and l: "chain_ledger E V (hdl_manager H) w i = Some (h, bs)"
    and g: "handleGetChainInfoRequest E H \<lparr>cr_chain_id = i\<rparr> w = (reply, w')"
    and c: "carries (env_pb E) resp reply"
    and s: "map_option sr_status (resp_status resp) = Some (status_code SUCCESS)"
  shows "resp_get_chain_info resp =
    Some \<lparr>ci_chain_id = i, ci_version = DB_VERSION, ci_index = word_of_nat (length bs)\<rparr>"
proof -
  obtain r v n w1 where b: "Manager_getChainInfo E (hdl_manager H) i (0, 0) w = (r, (v, n), w1)"
    by (cases "Manager_getChainInfo E (hdl_manager H) i (0, 0) w") auto
  let ?f = "\<lambda>(v, n). success_response\<lparr>resp_get_chain_info :=
      Some \<lparr>ci_chain_id = i, ci_version = v, ci_index = n\<rparr>\<rparr>"
  from b g c have "carries (env_pb E) resp
      (case if r then Some (v, n) else None of
         None \<Rightarrow> makeStatus (env_pb E) ERROR ''Can't get chain info''
       | Some x \<Rightarrow> makeResponse (env_pb E) (?f x))"
    by (auto simp: handleGetChainInfoRequest_def split: if_splits)
  from lookup_answer [OF env_okD(4) [OF ok] this s] obtain x
    where "(if r then Some (v, n) else None) = Some x" and "resp = ?f x" .
  then have r and resp: "resp = ?f (v, n)" by (auto split: if_splits)
  from Manager_getChainInfo_effect(3) [OF ok b \<open>r\<close>] chain_ledger_header [OF l]
  have "v = DB_VERSION" "n = word_of_nat (length bs)" by auto
  with resp show ?thesis by simp
qed

lemma getBlocks_answer:
  assumes ok: "env_ok E V" and l: "chain_ledger E V (hdl_manager H) w i = Some (h, bs)"
    and g: "handleGetBlocksRequest E H \<lparr>cr_chain_id = i\<rparr> w = Some (reply, w')"
    and c: "carries (env_pb E) resp reply"
    and s: "map_option sr_status (resp_status resp) = Some (status_code SUCCESS)"
  shows "resp_get_blocks resp = (if bs = [] then None else Some (map setBlockData bs))"
proof -
  note pb = env_okD(4) [OF ok]
  from g obtain r new w1 where b: "Manager_getBlocks E (hdl_manager H) i [] w = Some (r, new, w1)"
    by (auto simp: handleGetBlocksRequest_def split: option.splits)
  show ?thesis
  proof (cases r)
    case False
    with g b c have "carries (env_pb E) resp (makeStatus (env_pb E) ERROR ''Can't get blocks'')"
      by (simp add: handleGetBlocksRequest_def)
    from success_not_error [OF pb this s] show ?thesis by simp
  next
    case True
    with g b c have "carries (env_pb E) resp
        (makeResponse (env_pb E) (foldl add_blocks success_response new))"
      by (simp add: handleGetBlocksRequest_def)
    from success_response_carried [OF pb this]
    have "resp = foldl add_blocks success_response new" .
    moreover have "resp_get_blocks success_response = None"
      by (simp add: success_response_def response_default_def)
    ultimately show ?thesis
      using Manager_getBlocks_effect(2) [OF ok b True] l by (auto simp: add_blocks_foldl)
  qed
qed

lemma verifyChain_answer:
  assumes ok: "env_ok E V" and l: "chain_ledger E V (hdl_manager H) w i = Some (h, bs)"
    and g: "handleVerifyChainRequest E H \<lparr>cr_chain_id = i\<rparr> w = Some (reply, w')"
    and c: "carries (env_pb E) resp reply"
    and s: "map_option sr_status (resp_status resp) = Some (status_code SUCCESS)"
  shows "verified (env_sha E) (env_ec E) h bs"
proof -
  from g obtain r w1 where b: "Manager_verifyChain E (hdl_manager H) i w = Some (r, w1)"
    by (auto simp: handleVerifyChainRequest_def split: option.splits)
  from g b c have "carries (env_pb E) resp
      (if r then makeStatus (env_pb E) SUCCESS '''' else makeStatus (env_pb E) ERROR ''Chain is not valid'')"
    by (auto simp: handleVerifyChainRequest_def)
  from flag_answer [OF env_okD(4) [OF ok] this s] have r .
  with Manager_verifyChain_effect(2) [OF ok b] l show ?thesis by auto
qed

text \<open>Writing: a chain that is reported as created or removed has been.\<close>

lemma createChain_answer:
  assumes ok: "env_ok E V" and "length d \<le> MAX_DATA_LENGTH"
    and g: "handleCreateChainRequest E H \<lparr>cdr_chain_id = i, cdr_data = d\<rparr> w = (reply, w')"
    and c: "carries (env_pb E) resp reply"
    and s: "map_option sr_status (resp_status resp) = Some (status_code SUCCESS)"
  obtains ch where "Manager_createChain E (hdl_manager H) i d w = (Some ch, w')"
proof -
  obtain co w1 where b: "Manager_createChain E (hdl_manager H) i d w = (co, w1)"
    by (cases "Manager_createChain E (hdl_manager H) i d w")
  with g c assms(2) have w1: "w1 = w'" and "carries (env_pb E) resp
      (if co \<noteq> None then makeStatus (env_pb E) SUCCESS ''''
       else makeStatus (env_pb E) ERROR ''Can't create chain'')"
    by (auto simp: handleCreateChainRequest_def split: option.splits)
  from flag_answer [OF env_okD(4) [OF ok] this(2) s] b w1 that show thesis by auto
qed

lemma removeChain_answer:
  assumes ok: "env_ok E V"
    and g: "handleRemoveChainRequest E H \<lparr>cr_chain_id = i\<rparr> w = (reply, w')"
    and c: "carries (env_pb E) resp reply"
    and s: "map_option sr_status (resp_status resp) = Some (status_code SUCCESS)"
  shows "Manager_removeChain E (hdl_manager H) i w = (True, w')"
proof -
  obtain r w1 where b: "Manager_removeChain E (hdl_manager H) i w = (r, w1)"
    by (cases "Manager_removeChain E (hdl_manager H) i w")
  with g c have w1: "w1 = w'" and "carries (env_pb E) resp
      (if r then makeStatus (env_pb E) SUCCESS '''' else makeStatus (env_pb E) ERROR ''Can't remove chain'')"
    by (auto simp: handleRemoveChainRequest_def split: if_splits)
  from flag_answer [OF env_okD(4) [OF ok] this(2) s] b w1 show ?thesis by simp
qed

section \<open>The form of an answer\<close>

datatype response_field =
  CreateChainField | RemoveChainField | AddBlockField | GetBlockField | GetBlocksField
| VerifyChainField | ChainHeaderField | ChainKeysField | ChainInfoField

text \<open>The result fields that are set in a response, all but its status.\<close>

definition result_fields :: "response \<Rightarrow> response_field set" where
  "result_fields resp =
     (if resp_create_chain resp \<noteq> None then {CreateChainField} else {}) \<union>
     (if resp_remove_chain resp \<noteq> None then {RemoveChainField} else {}) \<union>
     (if resp_add_block resp \<noteq> None then {AddBlockField} else {}) \<union>
     (if resp_get_block resp \<noteq> None then {GetBlockField} else {}) \<union>
     (if resp_get_blocks resp \<noteq> None then {GetBlocksField} else {}) \<union>
     (if resp_verify_chain resp \<noteq> None then {VerifyChainField} else {}) \<union>
     (if resp_get_chain_header resp \<noteq> None then {ChainHeaderField} else {}) \<union>
     (if resp_get_chain_keys resp \<noteq> None then {ChainKeysField} else {}) \<union>
     (if resp_get_chain_info resp \<noteq> None then {ChainInfoField} else {})"

text \<open>The result field that belongs to a request, if it has one.\<close>

definition result_field :: "request \<Rightarrow> response_field option" where
  "result_field req =
     (if req_ping req \<noteq> None \<or> req_create_chain req \<noteq> None \<or> req_remove_chain req \<noteq> None then None
      else if req_add_block req \<noteq> None then Some AddBlockField
      else if req_get_block req \<noteq> None then Some GetBlockField
      else if req_get_blocks req \<noteq> None then Some GetBlocksField
      else if req_verify_chain req \<noteq> None then None
      else if req_get_chain_header req \<noteq> None then Some ChainHeaderField
      else if req_get_chain_keys req \<noteq> None then Some ChainKeysField
      else if req_get_chain_info req \<noteq> None then Some ChainInfoField
      else None)"

text \<open>
  A well-formed response has a status.  With \<open>SUCCESS\<close> it has no text and exactly the expected result
  field, except that an empty list of blocks is an absent field; otherwise it has a text and no
  result.
\<close>

definition well_formed :: "response_field option \<Rightarrow> response \<Rightarrow> bool" where
  "well_formed f resp \<longleftrightarrow>
     (case resp_status resp of
        None \<Rightarrow> False
      | Some st \<Rightarrow>
          if sr_status st = status_code SUCCESS then
            sr_message st = '''' \<and>
            (result_fields resp = set_option f \<or> f = Some GetBlocksField \<and> result_fields resp = {})
          else sr_message st \<noteq> '''' \<and> result_fields resp = {})"

definition answers :: "pb_lib \<Rightarrow> response_field option \<Rightarrow> message option \<Rightarrow> bool" where
  "answers P f mo \<longleftrightarrow>
     (\<forall>m. mo = Some m \<longrightarrow> (\<exists>resp. response_Parse P (msg_data m) = Some resp \<and> well_formed f resp))"

lemma answers_response: "pb_ok P \<Longrightarrow> well_formed f resp \<Longrightarrow> answers P f (makeResponse P resp)"
  by (auto simp: answers_def carries_def dest: makeResponse_carries)

lemma result_fields_status [simp]: "result_fields (status_only st text) = {}"
  by (simp add: result_fields_def status_only_def response_default_def)

lemma answers_error: "pb_ok P \<Longrightarrow> st \<noteq> SUCCESS \<Longrightarrow> text \<noteq> '''' \<Longrightarrow> answers P f (makeStatus P st text)"
  unfolding makeStatus_makeResponse
  by (rule answers_response)
    (simp_all add: well_formed_def status_only_def result_fields_def response_default_def
      del: status_code.simps)

lemma answers_done: "pb_ok P \<Longrightarrow> answers P None (makeStatus P SUCCESS '''')"
  unfolding makeStatus_makeResponse
  by (rule answers_response)
    (simp_all add: well_formed_def status_only_def result_fields_def response_default_def)

lemma well_formed_results:
  "well_formed (Some AddBlockField) (success_response\<lparr>resp_add_block := Some b\<rparr>)"
  "well_formed (Some GetBlockField) (success_response\<lparr>resp_get_block := Some b\<rparr>)"
  "well_formed (Some GetBlocksField) (foldl add_blocks success_response bs)"
  "well_formed (Some ChainHeaderField) (success_response\<lparr>resp_get_chain_header := Some h\<rparr>)"
  "well_formed (Some ChainKeysField) (success_response\<lparr>resp_get_chain_keys := Some k\<rparr>)"
  "well_formed (Some ChainInfoField) (success_response\<lparr>resp_get_chain_info := Some i\<rparr>)"
  by (simp_all add: well_formed_def success_response_def result_fields_def response_default_def
      add_blocks_foldl)

lemma handlers_answer:
  assumes "pb_ok (env_pb E)"
  shows "answers (env_pb E) None (handlePingRequest (env_pb E))"
    and "answers (env_pb E) None (fst (handleCreateChainRequest E H cd w))"
    and "answers (env_pb E) None (fst (handleRemoveChainRequest E H c w))"
    and "answers (env_pb E) (Some AddBlockField) (fst (handleAddBlockRequest E H cd w))"
    and "answers (env_pb E) (Some GetBlockField) (fst (handleGetBlockRequest E H gb w))"
    and "handleGetBlocksRequest E H c w = Some (r, w') \<Longrightarrow> answers (env_pb E) (Some GetBlocksField) r"
    and "handleVerifyChainRequest E H c w = Some (r, w') \<Longrightarrow> answers (env_pb E) None r"
    and "answers (env_pb E) (Some ChainHeaderField) (fst (handleGetChainHeaderRequest E H c w))"
    and "answers (env_pb E) (Some ChainKeysField) (fst (handleGetChainKeysRequest E H c w))"
    and "answers (env_pb E) (Some ChainInfoField) (fst (handleGetChainInfoRequest E H c w))"
proof -
  note r = answers_done [OF assms] answers_error [OF assms]
    well_formed_results [THEN answers_response [OF assms]]
  show "answers (env_pb E) None (handlePingRequest (env_pb E))"
    by (simp add: handlePingRequest_def r)
  show "answers (env_pb E) None (fst (handleCreateChainRequest E H cd w))"
    by (simp add: handleCreateChainRequest_def r split: prod.split option.split)
  show "answers (env_pb E) None (fst (handleRemoveChainRequest E H c w))"
    by (simp add: handleRemoveChainRequest_def r split: prod.split)
  show "answers (env_pb E) (Some AddBlockField) (fst (handleAddBlockRequest E H cd w))"
    by (simp add: handleAddBlockRequest_def r split: prod.split option.split)
  show "answers (env_pb E) (Some GetBlockField) (fst (handleGetBlockRequest E H gb w))"
    by (simp add: handleGetBlockRequest_def r split: prod.split option.split)
  show "handleGetBlocksRequest E H c w = Some (r, w') \<Longrightarrow> answers (env_pb E) (Some GetBlocksField) r"
    by (auto simp: handleGetBlocksRequest_def r split: prod.splits option.splits if_splits)
  show "handleVerifyChainRequest E H c w = Some (r, w') \<Longrightarrow> answers (env_pb E) None r"
    by (auto simp: handleVerifyChainRequest_def r split: prod.splits option.splits if_splits)
  show "answers (env_pb E) (Some ChainHeaderField) (fst (handleGetChainHeaderRequest E H c w))"
    by (simp add: handleGetChainHeaderRequest_def r split: prod.split option.split)
  show "answers (env_pb E) (Some ChainKeysField) (fst (handleGetChainKeysRequest E H c w))"
    by (simp add: handleGetChainKeysRequest_def r split: prod.split option.split)
  show "answers (env_pb E) (Some ChainInfoField) (fst (handleGetChainInfoRequest E H c w))"
    by (simp add: handleGetChainInfoRequest_def r split: prod.split)
qed

lemma dispatch_answer:
  assumes "pb_ok (env_pb E)" and "dispatch E H req w = Some (reply, w')"
  shows "answers (env_pb E) (result_field req) reply"
proof -
  note h = handlers_answer [OF assms(1)]
  have pair: "answers P f (fst x) \<Longrightarrow> x = (r, u) \<Longrightarrow> answers P f r" for P f r u and x :: "_ \<times> 'a"
    by simp
  from assms(2) show ?thesis
    by (auto simp: dispatch_def result_field_def h(1) answers_error [OF assms(1)]
        intro: h(6,7) h(2-5,8-10) [THEN pair] split: if_split_asm split del: if_split)
qed

section \<open>Sizes\<close>

text \<open>
  A response with these data in its blocks, or in its header, is below the limit of 2 GB: everything
  else in a block takes fewer than 200 bytes, and the rest of a response fewer than 1000.
\<close>

definition blocks_fit :: "bytes list \<Rightarrow> bool" where
  "blocks_fit ds \<longleftrightarrow> sum_list (map (\<lambda>d. length d + 200) ds) + 1000 \<le> PB_MAX_SIZE"

lemma setBlockData_text [simp]: "pbb_data (setBlockData b) = block_text b"
  by (simp add: setBlockData_def block_text_def)

lemma status_part_size: "length tx \<le> 100 \<Longrightarrow> part_size (status_size \<lparr>sr_status = st, sr_message = tx\<rparr>) \<le> 123"
proof -
  assume "length tx \<le> 100"
  then have "status_size \<lparr>sr_status = st, sr_message = tx\<rparr> \<le> 117"
    using uint_size_le(2) [of st] bytes_size_le [of tx] by (simp add: status_size_def PB_MAX_SIZE_def)
  then show ?thesis
    using part_size_le [of "status_size \<lparr>sr_status = st, sr_message = tx\<rparr>"] by (simp add: PB_MAX_SIZE_def)
qed

lemma block_part_size:
  assumes "length (block_text b) + 200 \<le> PB_MAX_SIZE"
  shows "block_size (setBlockData b) + 6 \<le> length (block_text b) + 172"
    and "part_size (block_size (setBlockData b)) \<le> length (block_text b) + 172"
proof -
  let ?c = "block_data b"
  have "bytes_size (data_bytes (c_hash ?c)) \<le> 38" "bytes_size (data_bytes (c_prevHash ?c)) \<le> 38"
    "bytes_size (data_bytes (c_nonce ?c)) \<le> 14" "bytes_size (data_bytes (c_signature ?c)) \<le> 70"
    using bytes_size_le [of "data_bytes (c_hash ?c)"] bytes_size_le [of "data_bytes (c_prevHash ?c)"]
      bytes_size_le [of "data_bytes (c_nonce ?c)"] bytes_size_le [of "data_bytes (c_signature ?c)"]
    by (simp_all add: PB_MAX_SIZE_def)
  moreover have "bytes_size (block_text b) \<le> length (block_text b) + 6"
    using assms by (intro bytes_size_le) simp
  ultimately show "block_size (setBlockData b) + 6 \<le> length (block_text b) + 172"
    by (simp add: block_size_def setBlockData_def block_text_def)
  then show "part_size (block_size (setBlockData b)) \<le> length (block_text b) + 172"
    using part_size_le [of "block_size (setBlockData b)"] assms by simp
qed

lemma blocks_part_size:
  assumes "sum_list (map (\<lambda>d. length d + 200) (map block_text bs)) \<le> PB_MAX_SIZE"
  shows "sum_list (map (part_size \<circ> block_size) (map setBlockData bs)) \<le>
    sum_list (map (\<lambda>d. length d + 200) (map block_text bs))"
  using assms
proof (induction bs)
  case Nil
  then show ?case by simp
next
  case (Cons b bs)
  then have "length (block_text b) + 200 \<le> PB_MAX_SIZE" by simp
  with Cons block_part_size(2) [of b] show ?case by simp
qed

lemma header_part_size:
  assumes "length (hdr_data h) + 1000 \<le> PB_MAX_SIZE"
  shows "part_size (part_size (header_size (header_message h))) \<le> length (hdr_data h) + 200"
proof -
  have "bytes_size (data_bytes (hdr_privateKey h)) \<le> 38" "bytes_size (data_bytes (hdr_publicKey h)) \<le> 39"
    using bytes_size_le [of "data_bytes (hdr_privateKey h)"] bytes_size_le [of "data_bytes (hdr_publicKey h)"]
    by (simp_all add: PB_MAX_SIZE_def)
  then have "header_size (header_message h) \<le> length (hdr_data h) + 105"
    using bytes_size_le [of "hdr_data h"] assms uint_size_le(1) [of "hdr_version h"]
      uint_size_le(1) [of "hdr_index h"]
    by (simp add: header_size_def header_message_def)
  then show ?thesis
    using part_size_le [of "header_size (header_message h)"] assms
      part_size_le [of "part_size (header_size (header_message h))"] by simp
qed

text \<open>The answers of the handlers.\<close>

lemma status_fits: "length tx \<le> 100 \<Longrightarrow> response_size (status_only st tx) \<le> PB_MAX_SIZE"
  using status_part_size [of tx "status_code st"]
  by (simp add: response_size_def status_only_def response_default_def PB_MAX_SIZE_def del: status_code.simps)

lemma success_size:
  "response_size success_response \<le> 123" "resp_get_blocks success_response = None"
  "response_size (success_response\<lparr>resp_add_block := ab\<rparr>) =
     response_size success_response + field_size (field_size block_size) ab"
  "response_size (success_response\<lparr>resp_get_block := ab\<rparr>) =
     response_size success_response + field_size (field_size block_size) ab"
  "response_size (success_response\<lparr>resp_get_blocks := gs\<rparr>) = response_size success_response +
     field_size (\<lambda>bs. sum_list (map (part_size \<circ> block_size) bs)) gs"
  "response_size (success_response\<lparr>resp_get_chain_header := gh\<rparr>) =
     response_size success_response + field_size (field_size header_size) gh"
  "response_size (success_response\<lparr>resp_get_chain_keys := gk\<rparr>) = response_size success_response +
     field_size (\<lambda>k. bytes_size (ck_private_key k) + bytes_size (ck_public_key k)) gk"
  "response_size (success_response\<lparr>resp_get_chain_info := gi\<rparr>) = response_size success_response +
     field_size (\<lambda>i. uint_size (ci_chain_id i) + uint_size (ci_version i) + uint_size (ci_index i)) gi"
  using status_part_size [of "[]" "status_code SUCCESS"]
  by (simp_all add: response_size_def success_response_def response_default_def)

lemma block_fits:
  assumes "blocks_fit [block_text b]"
  shows "response_size (success_response\<lparr>resp_add_block := Some (Some (setBlockData b))\<rparr>) \<le> PB_MAX_SIZE"
    and "response_size (success_response\<lparr>resp_get_block := Some (Some (setBlockData b))\<rparr>) \<le> PB_MAX_SIZE"
proof -
  have n: "length (block_text b) + 1200 \<le> PB_MAX_SIZE" using assms by (simp add: blocks_fit_def)
  then have "part_size (block_size (setBlockData b)) \<le> length (block_text b) + 172"
    by (intro block_part_size(2)) simp
  with part_size_le [of "part_size (block_size (setBlockData b))"] n success_size(1)
  show "response_size (success_response\<lparr>resp_add_block := Some (Some (setBlockData b))\<rparr>) \<le> PB_MAX_SIZE"
    "response_size (success_response\<lparr>resp_get_block := Some (Some (setBlockData b))\<rparr>) \<le> PB_MAX_SIZE"
    by (simp_all add: success_size(3,4))
qed

lemma list_fits:
  assumes "blocks_fit (map block_text bs)"
  shows "response_size (foldl add_blocks success_response bs) \<le> PB_MAX_SIZE"
proof -
  let ?n = "sum_list (map (\<lambda>d. length d + 200) (map block_text bs))"
  let ?s = "sum_list (map (part_size \<circ> block_size) (map setBlockData bs))"
  have n: "?n + 1000 \<le> PB_MAX_SIZE" using assms unfolding blocks_fit_def .
  then have "?s \<le> ?n" by (intro blocks_part_size) simp
  with part_size_le [of ?s] n have "part_size ?s + 200 \<le> PB_MAX_SIZE" by simp
  with success_size(1) show ?thesis
    by (auto simp: add_blocks_foldl [OF success_size(2)] success_size(5) PB_MAX_SIZE_def)
qed

lemma header_fits:
  assumes "blocks_fit [hdr_data h]"
  shows "response_size (success_response\<lparr>resp_get_chain_header := Some (Some (header_message h))\<rparr>)
    \<le> PB_MAX_SIZE"
  using header_part_size [of h] assms success_size(1) by (simp add: blocks_fit_def success_size(6))

lemma keys_fit: "response_size (success_response\<lparr>resp_get_chain_keys := Some (keys_message h)\<rparr>) \<le> PB_MAX_SIZE"
proof -
  let ?n = "bytes_size (data_bytes (hdr_privateKey h)) + bytes_size (data_bytes (hdr_publicKey h))"
  have "?n \<le> 77"
    using bytes_size_le [of "data_bytes (hdr_privateKey h)"] bytes_size_le [of "data_bytes (hdr_publicKey h)"]
    by (simp add: PB_MAX_SIZE_def)
  with part_size_le [of ?n] success_size(1) show ?thesis
    by (simp add: success_size(7) keys_message_def PB_MAX_SIZE_def)
qed

lemma info_fits: "response_size (success_response\<lparr>resp_get_chain_info := Some i\<rparr>) \<le> PB_MAX_SIZE"
proof -
  let ?n = "uint_size (ci_chain_id i) + uint_size (ci_version i) + uint_size (ci_index i)"
  have "?n \<le> 33"
    using uint_size_le(1) [of "ci_chain_id i"] uint_size_le(1) [of "ci_version i"]
      uint_size_le(1) [of "ci_index i"] by simp
  with part_size_le [of ?n] success_size(1) show ?thesis
    by (simp add: success_size(8) PB_MAX_SIZE_def)
qed

text \<open>What serialises is sent.\<close>

lemma response_made:
  "pb_serves P \<Longrightarrow> response_size resp \<le> PB_MAX_SIZE \<Longrightarrow> \<exists>m. makeResponse P resp = Some m"
  by (auto simp: pb_serves_def makeResponse_def)

lemma status_made: "pb_serves P \<Longrightarrow> length tx \<le> 100 \<Longrightarrow> \<exists>m. makeStatus P st tx = Some m"
  unfolding makeStatus_makeResponse by (intro response_made status_fits)

section \<open>Every request is answered\<close>

lemma Manager_getBlocks_total:
  assumes "env_ok E V"
    and "\<And>m h. disk V w (makeStoragePath M i) = Some m \<Longrightarrow> stored_header (env_pb E) m = Some h \<Longrightarrow>
      hdr_index h \<noteq> - 1"
  shows "\<exists>r bs w'. Manager_getBlocks E M i blocks w = Some (r, bs, w')"
  using Chain_getBlocks_effect [OF env_okD(1) [OF assms(1)], of w "\<lparr>chain_path = makeStoragePath M i\<rparr>"
      "env_pb E" blocks] assms(2)
  by (auto simp: Manager_getBlocks_def)

lemma Manager_verifyChain_total:
  assumes ok: "env_ok E V" and sha: "sha_live (env_sha E)"
    and n: "\<And>m h. disk V w (makeStoragePath M i) = Some m \<Longrightarrow> stored_header (env_pb E) m = Some h \<Longrightarrow>
      hdr_index h \<noteq> - 1"
  shows "\<exists>r w'. Manager_verifyChain E M i w = Some (r, w')"
proof -
  let ?c = "\<lparr>chain_path = makeStoragePath M i\<rparr>"
  obtain ho w1 where g: "Chain_getHeader (env_pb E) (env_db E) ?c w = (ho, w1)"
    by (cases "Chain_getHeader (env_pb E) (env_db E) ?c w")
  have "disk V w1 = disk V w"
    using Chain_getHeader_effect(1) [OF env_okD(1) [OF ok] g] by (rule unchanged_disk)
  with Manager_getBlocks_total [OF ok, of w1 M i "[]"] n obtain r bs w2
    where b: "Chain_getBlocks (env_pb E) (env_db E) ?c [] w1 = Some (r, bs, w2)"
    by (auto simp: Manager_getBlocks_def)
  have "\<exists>v. verify_loop (env_sha E) (env_ec E) h bs 0 = Some v" for h
    using verify_loop_total [OF sha] by fastforce
  with g b show ?thesis by (cases ho) (auto simp: Manager_verifyChain_def)
qed

text \<open>
  The stored data can be answered: no header counts \<open>2^64 - 1\<close> blocks, and neither a header, nor a block
  that it counts, nor the list of the blocks of a chain makes a response of 2 GB.
\<close>

definition stored_fits ::
  "('w, 'h, 'c, 'pk, 'sg) env \<Rightarrow> ('w, 'h) db_view \<Rightarrow> manager \<Rightarrow> 'w \<Rightarrow> bool" where
  "stored_fits E V M w \<longleftrightarrow> (\<forall>i m. disk V w (makeStoragePath M i) = Some m \<longrightarrow>
     (\<forall>h. stored_header (env_pb E) m = Some h \<longrightarrow> hdr_index h \<noteq> - 1 \<and> blocks_fit [hdr_data h] \<and>
        (\<forall>n b. n \<noteq> 0 \<and> n \<le> hdr_index h \<and> stored_block (env_pb E) m n = Some b \<longrightarrow>
           blocks_fit [block_text b])) \<and>
     (\<forall>h bs. ledger (env_pb E) m = Some (h, bs) \<longrightarrow> blocks_fit (map block_text bs)))"

lemma blocks_fit_each:
  assumes "blocks_fit ds" and "d \<in> set ds"
  shows "blocks_fit [d]"
  using assms member_le_sum_list [of "length d + 200" "map (\<lambda>d. length d + 200) ds"]
  by (simp add: blocks_fit_def)

text \<open>For databases that are ledgers, the header and the list of the blocks are what counts.\<close>

lemma ledgers_fit:
  assumes "\<And>i m. disk V w (makeStoragePath M i) = Some m \<Longrightarrow>
    \<exists>h bs. ledger (env_pb E) m = Some (h, bs) \<and> hdr_index h \<noteq> - 1 \<and> blocks_fit [hdr_data h] \<and>
      blocks_fit (map block_text bs)"
  shows "stored_fits E V M w"
  unfolding stored_fits_def
proof (intro allI impI)
  fix i m
  assume "disk V w (makeStoragePath M i) = Some m"
  from assms [OF this] obtain h bs where l: "ledger (env_pb E) m = Some (h, bs)" and n: "hdr_index h \<noteq> - 1"
    and f: "blocks_fit [hdr_data h]" "blocks_fit (map block_text bs)" by blast
  have "blocks_fit [block_text b]"
    if "k \<noteq> 0" "k \<le> hdr_index h" "stored_block (env_pb E) m k = Some b" for k b
  proof -
    from ledger_nth [OF l, of k] that have "b = bs ! (unat k - 1)" by (simp add: word_neq_0_conv)
    moreover have "unat k - 1 < length bs"
      using that(1,2) ledger_length [OF l] by (simp add: word_le_nat_alt unat_eq_0 [symmetric])
    ultimately show ?thesis by (intro blocks_fit_each [OF f(2)]) simp
  qed
  with ledgerD [OF l] l n f show "(\<forall>h. stored_header (env_pb E) m = Some h \<longrightarrow> hdr_index h \<noteq> - 1 \<and>
      blocks_fit [hdr_data h] \<and>
      (\<forall>n b. n \<noteq> 0 \<and> n \<le> hdr_index h \<and> stored_block (env_pb E) m n = Some b \<longrightarrow>
         blocks_fit [block_text b])) \<and>
     (\<forall>h bs. ledger (env_pb E) m = Some (h, bs) \<longrightarrow> blocks_fit (map block_text bs))"
    by auto
qed

lemma small_fits: "length d \<le> MAX_DATA_LENGTH \<Longrightarrow> blocks_fit [d]"
  by (simp add: blocks_fit_def MAX_DATA_LENGTH_def PB_MAX_SIZE_def)

lemma addBlock_text:
  assumes "env_ok E V" and "Manager_addBlock E M i d w = (Some b, w')"
  shows "block_text b = d"
  using assms by (cases rule: Manager_addBlock_cases) (auto simp: new_block_def block_text_def)

lemma write_handlers_made:
  assumes ok: "env_ok E V" and pb: "pb_serves (env_pb E)"
  shows "\<exists>m w'. handleCreateChainRequest E H x w = (Some m, w')"
    and "\<exists>m w'. handleAddBlockRequest E H x w = (Some m, w')"
    and "\<exists>m w'. handleRemoveChainRequest E H c w = (Some m, w')"
proof -
  have s: "length tx \<le> 100 \<Longrightarrow> \<exists>m. makeStatus (env_pb E) st tx = Some m" for st tx
    by (rule status_made [OF pb])
  show "\<exists>m w'. handleCreateChainRequest E H x w = (Some m, w')"
    and "\<exists>m w'. handleRemoveChainRequest E H c w = (Some m, w')"
    by (auto simp: handleCreateChainRequest_def handleRemoveChainRequest_def Let_def
        split: prod.split option.split intro!: s)
  show "\<exists>m w'. handleAddBlockRequest E H x w = (Some m, w')"
  proof (cases "length (cdr_data x) \<le> MAX_DATA_LENGTH")
    case True
    obtain bo w' where a: "Manager_addBlock E (hdl_manager H) (cdr_chain_id x) (cdr_data x) w = (bo, w')"
      by (metis prod.exhaust)
    show ?thesis
    proof (cases bo)
      case None
      with a True show ?thesis by (auto simp: handleAddBlockRequest_def intro!: s)
    next
      case (Some b)
      with addBlock_text [OF ok] a small_fits [OF True] have "blocks_fit [block_text b]" by simp
      from response_made [OF pb block_fits(1) [OF this]] a Some True show ?thesis
        by (auto simp: handleAddBlockRequest_def)
    qed
  next
    case False
    then show ?thesis by (auto simp: handleAddBlockRequest_def intro!: s)
  qed
qed

lemma read_handlers_made:
  assumes ok: "env_ok E V" and sha: "sha_live (env_sha E)" and pb: "pb_serves (env_pb E)"
    and fits: "stored_fits E V (hdl_manager H) w"
  shows "\<exists>m w'. handleGetBlockRequest E H g w = (Some m, w')"
    and "\<exists>m w'. handleGetBlocksRequest E H c w = Some (Some m, w')"
    and "\<exists>m w'. handleVerifyChainRequest E H c w = Some (Some m, w')"
    and "\<exists>m w'. handleGetChainHeaderRequest E H c w = (Some m, w')"
    and "\<exists>m w'. handleGetChainKeysRequest E H c w = (Some m, w')"
    and "\<exists>m w'. handleGetChainInfoRequest E H c w = (Some m, w')"
proof -
  have s: "length tx \<le> 100 \<Longrightarrow> \<exists>m. makeStatus (env_pb E) st tx = Some m" for st tx
    by (rule status_made [OF pb])
  note made = response_made [OF pb]
  have n: "disk V w (makeStoragePath (hdl_manager H) i) = Some m \<Longrightarrow>
      stored_header (env_pb E) m = Some h \<Longrightarrow> hdr_index h \<noteq> - 1" for i m h
    using fits by (simp add: stored_fits_def)
  show "\<exists>m w'. handleGetBlockRequest E H g w = (Some m, w')"
  proof -
    obtain bo w' where b: "Manager_getBlock E (hdl_manager H) (gbr_chain_id g) (gbr_block_id g) w = (bo, w')"
      by (metis prod.exhaust)
    show ?thesis
    proof (cases bo)
      case None
      with b show ?thesis by (auto simp: handleGetBlockRequest_def intro!: s)
    next
      case (Some x)
      with Chain_getBlock_effect [OF env_okD(1) [OF ok] b [unfolded Manager_getBlock_def]] fits
      have "blocks_fit [block_text x]" by (auto simp: stored_fits_def)
      from made [OF block_fits(2) [OF this]] b Some show ?thesis
        by (auto simp: handleGetBlockRequest_def)
    qed
  qed
  show "\<exists>m w'. handleGetBlocksRequest E H c w = Some (Some m, w')"
  proof -
    obtain ok' bs w' where b: "Manager_getBlocks E (hdl_manager H) (cr_chain_id c) [] w = Some (ok', bs, w')"
      using Manager_getBlocks_total [OF ok, of w "hdl_manager H" "cr_chain_id c" "[]"] n by blast
    show ?thesis
    proof (cases ok')
      case True
      from Manager_getBlocks_effect(2) [OF ok b True] fits have "blocks_fit (map block_text bs)"
        by (auto simp: stored_fits_def chain_ledger_def bind_eq_Some_conv)
      from made [OF list_fits [OF this]] b True show ?thesis by (auto simp: handleGetBlocksRequest_def)
    next
      case False
      with b show ?thesis by (auto simp: handleGetBlocksRequest_def intro!: s)
    qed
  qed
  show "\<exists>m w'. handleVerifyChainRequest E H c w = Some (Some m, w')"
  proof -
    obtain ok' w' where "Manager_verifyChain E (hdl_manager H) (cr_chain_id c) w = Some (ok', w')"
      using Manager_verifyChain_total [OF ok sha, of w "hdl_manager H" "cr_chain_id c"] n by blast
    then show ?thesis by (auto simp: handleVerifyChainRequest_def intro!: s)
  qed
  obtain ho w' where h: "Manager_getChainHeader E (hdl_manager H) (cr_chain_id c) w = (ho, w')"
    by (metis prod.exhaust)
  have "blocks_fit [hdr_data x]" if "ho = Some x" for x
    using Manager_getChainHeader_effect(2) [OF ok h that] fits by (auto simp: stored_fits_def)
  then show "\<exists>m w'. handleGetChainHeaderRequest E H c w = (Some m, w')"
    using h made [OF header_fits]
    by (auto simp: handleGetChainHeaderRequest_def header_message_def split: option.split intro!: s)
  show "\<exists>m w'. handleGetChainKeysRequest E H c w = (Some m, w')"
    using h made [OF keys_fit]
    by (auto simp: handleGetChainKeysRequest_def keys_message_def split: option.split intro!: s)
  show "\<exists>m w'. handleGetChainInfoRequest E H c w = (Some m, w')"
    using made [OF info_fits]
    by (auto simp: handleGetChainInfoRequest_def Let_def split: prod.split intro!: s)
qed

lemma handleMessage_answers:
  assumes "env_ok E V" and "sha_live (env_sha E)" and "pb_serves (env_pb E)"
    and "stored_fits E V (hdl_manager H) w"
  shows "\<exists>m w'. handleMessage E H msg w = Some (Some m, w')"
proof -
  have s: "length tx \<le> 100 \<Longrightarrow> \<exists>m. makeStatus (env_pb E) st tx = Some m" for st tx
    by (rule status_made [OF assms(3)])
  have "\<exists>m w'. dispatch E H req w = Some (Some m, w')" for req
    using write_handlers_made [OF assms(1,3)] read_handlers_made [OF assms]
    by (simp add: dispatch_def handlePingRequest_def s)
  with s show ?thesis by (auto simp: handleMessage_def split: option.split)
qed

text \<open>Every answer parses to a response with a status.\<close>

lemma handleMessage_status:
  assumes "pb_ok (env_pb E)" and "handleMessage E H msg w = Some (Some m, w')"
  shows "\<exists>resp. response_Parse (env_pb E) (msg_data m) = Some resp \<and> resp_status resp \<noteq> None"
proof -
  have status: ?thesis if "Some m = makeStatus (env_pb E) code tx" for code tx
    using makeStatus_carries [OF assms(1) that [symmetric]] by (auto simp: carries_def status_only_def)
  show ?thesis
  proof (cases "request_Parse (env_pb E) (msg_data msg)")
    case None
    with assms(2) have "Some m = makeStatus (env_pb E) DATA_ERROR ''Can't parse data''"
      by (simp add: handleMessage_def Message_data_def Message_length_def)
    then show ?thesis by (rule status)
  next
    case (Some req)
    show ?thesis
    proof (cases "authorized E H req")
      case True
      with assms(2) handleMessage_authorized [OF Some] have "dispatch E H req w = Some (Some m, w')"
        by simp
      from dispatch_answer [OF assms(1) this] show ?thesis
        by (auto simp: answers_def well_formed_def split: option.splits)
    next
      case False
      from handleMessage_unauthorized [OF Some this, of w] assms(2) obtain tx
        where "Some m = makeStatus (env_pb E) NOT_AUTHORIZED tx" by auto
      then show ?thesis by (rule status)
    qed
  qed
qed

section \<open>Acknowledged messages\<close>

text \<open>What a message that stands for adding a block, or for reading all, has done when it succeeds.\<close>

lemma addBlock_acknowledged:
  assumes "env_ok E V" and "request_Parse (env_pb E) (msg_data msg) = Some req"
    and "authorized E H req" and "requested req = Some (AddBlock i d)"
    and "chain_ledger E V (hdl_manager H) w i = Some (h, bs)" and "hdr_index h \<noteq> - 1"
    and "handleMessage E H msg w = Some (reply, w')"
    and "carries (env_pb E) resp reply"
    and "map_option sr_status (resp_status resp) = Some (status_code SUCCESS)"
  shows "\<exists>b. chain_ledger E V (hdl_manager H) w' i =
      Some (h\<lparr>hdr_index := hdr_index h + 1\<rparr>, bs @ [b]) \<and>
    c_data (block_data b) = d \<and> resp_add_block resp = Some (Some (setBlockData b))"
proof -
  note pb = env_okD(4) [OF assms(1)]
  note handleMessage_authorized [OF assms(2,3), of w]
  moreover from assms(4) obtain r where r: "req_add_block req = Some r" "cdr_chain_id r = i"
    "cdr_data r = d" "length d \<le> MAX_DATA_LENGTH"
    and "dispatch E H req w = Some (handleAddBlockRequest E H r w)"
    by (auto simp: requested_def dispatch_def data_command_def split: if_splits)
  ultimately have h: "handleAddBlockRequest E H r w = (reply, w')" using assms(7) by simp
  obtain bo w1 where a: "Manager_addBlock E (hdl_manager H) i d w = (bo, w1)"
    by (cases "Manager_addBlock E (hdl_manager H) i d w")
  show ?thesis
  proof (cases bo)
    case None
    with h a r have "reply = makeStatus (env_pb E) ERROR ''Can't add block''"
      by (simp add: handleAddBlockRequest_def)
    with assms(8,9) makeStatus_carries [OF pb, of ERROR "''Can't add block''"] show ?thesis
      by (auto simp: carries_def status_only_def)
  next
    case (Some b)
    with h a r have w: "w' = w1" and
      "reply = makeResponse (env_pb E)
         (success_response\<lparr>resp_add_block := Some (Some (setBlockData b))\<rparr>)"
      by (simp_all add: handleAddBlockRequest_def)
    with assms(8) makeResponse_carries [OF pb] have
      "resp = success_response\<lparr>resp_add_block := Some (Some (setBlockData b))\<rparr>"
      by (fastforce simp: carries_def)
    moreover from Manager_addBlock_ledger [OF assms(1) a assms(5,6)] Some
    have "chain_ledger E V (hdl_manager H) w1 i =
        Some (h\<lparr>hdr_index := hdr_index h + 1\<rparr>, bs @ [b]) \<and> c_data (block_data b) = d"
      by (auto simp: new_block_def)
    ultimately show ?thesis using w by simp
  qed
qed

lemma getBlocks_acknowledged:
  assumes ok: "env_ok E V" and p: "request_Parse (env_pb E) (msg_data msg) = Some req"
    and a: "authorized E H req" and r: "requested req = Some (GetBlocks i)"
    and l: "chain_ledger E V (hdl_manager H) w i = Some (h, bs)"
    and m: "handleMessage E H msg w = Some (reply, w')"
    and c: "carries (env_pb E) resp reply"
    and s: "map_option sr_status (resp_status resp) = Some (status_code SUCCESS)"
  shows "resp_get_blocks resp = (if bs = [] then None else Some (map setBlockData bs))"
proof -
  have "handleGetBlocksRequest E H \<lparr>cr_chain_id = i\<rparr> w = Some (reply, w')"
    using handleMessage_authorized [OF p a, of w] m r by (simp add: dispatch_read)
  from getBlocks_answer [OF ok l this c s] show ?thesis .
qed

text \<open>A message that adds a block is answered when it succeeds.\<close>

lemma addBlock_answered:
  assumes "env_ok E V" and "pb_serves (env_pb E)" and "command_of E H msg = Some (AddBlock i d)"
    and "Manager_addBlock E (hdl_manager H) i d w = (Some b, w')"
  shows "\<exists>reply. handleMessage E H msg w = Some (Some reply, w')"
proof -
  from assms(3) obtain req where p: "request_Parse (env_pb E) (msg_data msg) = Some req"
    "authorized E H req" and r: "requested req = Some (AddBlock i d)"
    by (auto simp: command_of_def split: option.splits if_splits)
  have m: "handleMessage E H msg w = Some (handleAddBlockRequest E H \<lparr>cdr_chain_id = i, cdr_data = d\<rparr> w)"
    using handleMessage_authorized [OF p, of w] dispatch_write(2) [OF r] by simp
  have d: "length d \<le> MAX_DATA_LENGTH" by (rule dispatch_write(5) [OF r])
  with addBlock_text [OF assms(1,4)] small_fits have "blocks_fit [block_text b]" by simp
  from response_made [OF assms(2) block_fits(1) [OF this]] m d assms(4) show ?thesis
    by (auto simp: handleAddBlockRequest_def)
qed

end
