(* ===== verification/Chain_Map.thy ===== *)
theory Chain_Map
  imports Answers
begin

text \<open>
  The manager without faults: what its callers can observe.  A directory of chains is a finite map
  from chain numbers to the data of the chain and of its blocks (\<open>chains\<close>); every operation of the
  manager is a step on it (\<open>map_step\<close>).  Keys, nonces, hashes and signatures are hidden.
\<close>

type_synonym chains = "size_t \<rightharpoonup> bytes \<times> bytes list"

text \<open>The results of the operations, as far as they do not depend on random numbers.\<close>

datatype answer =
  Done bool
| BlockData "bytes option"
| AllData "bytes list option"
| HeaderData "(size_t \<times> size_t \<times> bytes) option"
| ChainState "(size_t \<times> size_t) option"

fun observe ::
  "('w, 'h, 'c, 'pk, 'sg) env \<Rightarrow> manager \<Rightarrow> command \<Rightarrow> 'w \<Rightarrow> (answer \<times> 'w) option" where
  "observe E M (CreateChain i d) w = (let (r, w) = Manager_createChain E M i d w in Some (Done (r \<noteq> None), w))"
| "observe E M (AddBlock i d) w =
     (let (r, w) = Manager_addBlock E M i d w in Some (BlockData (map_option block_text r), w))"
| "observe E M (GetBlock i n) w =
     (let (r, w) = Manager_getBlock E M i n w in Some (BlockData (map_option block_text r), w))"
| "observe E M (GetBlocks i) w =
     (case Manager_getBlocks E M i [] w of
        None \<Rightarrow> None
      | Some (ok, bs, w) \<Rightarrow> Some (AllData (if ok then Some (map block_text bs) else None), w))"
| "observe E M (RemoveChain i) w = (let (ok, w) = Manager_removeChain E M i w in Some (Done ok, w))"
| "observe E M (VerifyChain i) w =
     (case Manager_verifyChain E M i w of None \<Rightarrow> None | Some (ok, w) \<Rightarrow> Some (Done ok, w))"
| "observe E M (GetChainHeader i) w =
     (let (r, w) = Manager_getChainHeader E M i w
      in Some (HeaderData (map_option (\<lambda>h. (hdr_version h, hdr_index h, hdr_data h)) r), w))"
| "observe E M (GetChainInfo i) w =
     (let (ok, out, w) = Manager_getChainInfo E M i (0, 0) w
      in Some (ChainState (if ok then Some out else None), w))"

fun map_step :: "command \<Rightarrow> chains \<Rightarrow> answer \<times> chains" where
  "map_step (CreateChain i d) s =
     (case s i of None \<Rightarrow> (Done True, s(i \<mapsto> (d, []))) | Some _ \<Rightarrow> (Done False, s))"
| "map_step (AddBlock i d) s =
     (case s i of
        None \<Rightarrow> (BlockData None, s)
      | Some (g, ds) \<Rightarrow> (BlockData (Some d), s(i \<mapsto> (g, ds @ [d]))))"
| "map_step (GetBlock i n) s =
     (BlockData (case s i of
        None \<Rightarrow> None
      | Some (g, ds) \<Rightarrow> if n = 0 \<or> length ds < unat n then None else Some (ds ! (unat n - 1))), s)"
| "map_step (GetBlocks i) s = (AllData (map_option snd (s i)), s)"
| "map_step (RemoveChain i) s = (Done True, s(i := None))"
| "map_step (VerifyChain i) s = (Done (s i \<noteq> None), s)"
| "map_step (GetChainHeader i) s =
     (HeaderData (map_option (\<lambda>(g, ds). (DB_VERSION, of_nat (length ds), g)) (s i)), s)"
| "map_step (GetChainInfo i) s =
     (ChainState (map_option (\<lambda>(g, ds). (DB_VERSION, of_nat (length ds))) (s i)), s)"

fun observe_all ::
  "('w, 'h, 'c, 'pk, 'sg) env \<Rightarrow> manager \<Rightarrow> command list \<Rightarrow> 'w \<Rightarrow> (answer list \<times> 'w) option" where
  "observe_all E M [] w = Some ([], w)"
| "observe_all E M (c # cs) w =
     (case observe E M c w of
        None \<Rightarrow> None
      | Some (a, w) \<Rightarrow> map_option (\<lambda>(as, w). (a # as, w)) (observe_all E M cs w))"

fun map_run :: "command list \<Rightarrow> chains \<Rightarrow> answer list \<times> chains" where
  "map_run [] s = ([], s)"
| "map_run (c # cs) s = (let (a, s) = map_step c s; (as, s) = map_run cs s in (a # as, s))"

text \<open>The observation adds nothing to \<open>run_command\<close> but the answer.\<close>

lemma observe_world: "map_option snd (observe E M c w) = run_command E M c w"
  by (cases c) (auto split: prod.split option.split)

section \<open>The map behind the databases\<close>

definition chain_at ::
  "('w, 'h, 'c, 'pk, 'sg) env \<Rightarrow> ('w, 'h) db_view \<Rightarrow> manager \<Rightarrow> 'w \<Rightarrow> size_t
     \<Rightarrow> (bytes \<times> bytes list) option \<Rightarrow> bool" where
  "chain_at E V M w i x \<longleftrightarrow> accessible V M w i \<and>
     (case x of
        None \<Rightarrow> disk V w (makeStoragePath M i) = None
      | Some (g, ds) \<Rightarrow>
          sound_chain E V M w i \<and>
          (\<exists>h bs. chain_ledger E V M w i = Some (h, bs) \<and> hdr_data h = g \<and> length g \<le> MAX_DATA_LENGTH \<and>
             ec_seckey_verify (env_ec E) (hdr_privateKey h) \<and> map block_text bs = ds))"

definition represents ::
  "('w, 'h, 'c, 'pk, 'sg) env \<Rightarrow> ('w, 'h) db_view \<Rightarrow> manager \<Rightarrow> 'w \<Rightarrow> chains \<Rightarrow> bool" where
  "represents E V M w s \<longleftrightarrow> (\<forall>i. chain_at E V M w i (s i))"

text \<open>A private key is made whatever the random numbers are.\<close>

definition keys_live :: "('w, 'h, 'c, 'pk, 'sg) env \<Rightarrow> bool" where
  "keys_live E \<longleftrightarrow> (\<forall>w. fst (generatePrivateKey (env_rand E) (env_ec E) w) \<noteq> None)"

lemma chain_at_unchanged: "unchanged V w w' \<Longrightarrow> chain_at E V M w' i x = chain_at E V M w i x"
  by (simp add: chain_at_def accessible_unchanged sound_chain_unchanged chain_ledger_unchanged
      unchanged_disk split: option.split)

lemma chain_at_other:
  "undisturbed V (makeStoragePath M j) w w' \<Longrightarrow> i \<noteq> j \<Longrightarrow> chain_at E V M w' i x = chain_at E V M w i x"
  by (simp add: chain_at_def accessible_undisturbed sound_chain_other chain_ledger_other
      undisturbed_disk split: option.split)

lemma chain_at_None [simp]:
  "chain_at E V M w i None \<longleftrightarrow> accessible V M w i \<and> disk V w (makeStoragePath M i) = None"
  by (simp add: chain_at_def)

lemma chain_atE:
  assumes "chain_at E V M w i (Some (g, ds))"
  obtains m h bs where "accessible V M w i" "sound_chain E V M w i"
    "disk V w (makeStoragePath M i) = Some m" "stored_header (env_pb E) m = Some h"
    "chain_ledger E V M w i = Some (h, bs)" "hdr_data h = g" "length g \<le> MAX_DATA_LENGTH"
    "ec_seckey_verify (env_ec E) (hdr_privateKey h)" "map block_text bs = ds"
    "hdr_version h = DB_VERSION" "hdr_index h = of_nat (length ds)"
proof -
  from assms obtain h bs where x: "accessible V M w i" "sound_chain E V M w i"
    "chain_ledger E V M w i = Some (h, bs)" "hdr_data h = g" "length g \<le> MAX_DATA_LENGTH"
    "ec_seckey_verify (env_ec E) (hdr_privateKey h)" "map block_text bs = ds"
    by (auto simp: chain_at_def)
  from chain_ledger_header [OF x(3)] x(7) that [OF x(1,2) _ _ x(3-7)] show thesis by auto
qed

text \<open>A step on one chain is a step on the map.\<close>

lemma represents_step:
  assumes "represents E V M w s" and "undisturbed V (makeStoragePath M i) w w'"
    and "chain_at E V M w' i x"
  shows "represents E V M w' (s(i := x))"
  using assms by (auto simp: represents_def chain_at_other)

lemma represents_read: "represents E V M w s \<Longrightarrow> unchanged V w w' \<Longrightarrow> represents E V M w' s"
  by (simp add: represents_def chain_at_unchanged)

lemma chain_ledger_absent: "disk V w (makeStoragePath M i) = None \<Longrightarrow> chain_ledger E V M w i = None"
  by (simp add: chain_ledger_def)

section \<open>The steps\<close>

fun command_fits :: "command \<Rightarrow> bool" where
  "command_fits (CreateChain i d) \<longleftrightarrow> length d \<le> MAX_DATA_LENGTH"
| "command_fits (AddBlock i d) \<longleftrightarrow> length d \<le> MAX_DATA_LENGTH"
| "command_fits _ \<longleftrightarrow> True"

text \<open>What one step has to satisfy.\<close>

definition simulated ::
  "('w, 'h, 'c, 'pk, 'sg) env \<Rightarrow> ('w, 'h) db_view \<Rightarrow> manager \<Rightarrow> command \<Rightarrow> 'w \<Rightarrow> chains \<Rightarrow> bool" where
  "simulated E V M c w s \<longleftrightarrow>
     (\<exists>w'. observe E M c w = Some (fst (map_step c s), w') \<and> represents E V M w' (snd (map_step c s)))"

lemma create_simulated:
  assumes ok: "env_ok E V" and live: "env_live E V" and keys: "keys_live E" and r: "represents E V M w s"
    and d: "length d \<le> MAX_DATA_LENGTH"
  shows "simulated E V M (CreateChain i d) w s"
proof -
  obtain co w' where c: "Manager_createChain E M i d w = (co, w')"
    by (cases "Manager_createChain E M i d w")
  note e = Manager_createChain_effect [OF ok c]
  from r have at: "chain_at E V M w i (s i)" by (simp add: represents_def)
  show ?thesis
  proof (cases "s i")
    case None
    with at have acc: "accessible V M w i" and new: "disk V w (makeStoragePath M i) = None" by simp_all
    obtain priv w1 where "generatePrivateKey (env_rand E) (env_ec E) w = (Some priv, w1)"
      using keys unfolding keys_live_def by (metis option.exhaust prod.exhaust fst_conv)
    from Manager_createChain_live [OF ok live d acc new this] c obtain ch where co: "co = Some ch" by auto
    from e(2) [OF co] have "chain_at E V M w' i (Some (d, []))"
      using acc d accessible_undisturbed [OF e(1)]
      by (auto simp: chain_at_def sound_chain_def verified_def header_new_def)
    from represents_step [OF r e(1) this] show ?thesis using None c co by (simp add: simulated_def)
  next
    case (Some x)
    obtain m where m: "disk V w (makeStoragePath M i) = Some m"
      using at Some by (cases x) (auto elim: chain_atE)
    from e(3) [OF this] have co: "co = None" and m': "disk V w' (makeStoragePath M i) = Some m" by simp_all
    have "unchanged V w w'" using unchangedI [OF e(1)] m m' by simp
    with represents_read [OF r] Some c co show ?thesis by (simp add: simulated_def)
  qed
qed

lemma add_simulated:
  assumes ok: "env_ok E V" and live: "env_live E V" and r: "represents E V M w s"
    and d: "length d \<le> MAX_DATA_LENGTH" and n: "\<And>g ds. s i = Some (g, ds) \<Longrightarrow> length ds < 2 ^ 64 - 1"
  shows "simulated E V M (AddBlock i d) w s"
proof -
  from r have at: "chain_at E V M w i (s i)" by (simp add: represents_def)
  show ?thesis
  proof (cases "s i")
    case None
    obtain bo w' where a: "Manager_addBlock E M i d w = (bo, w')" by (cases "Manager_addBlock E M i d w")
    with Manager_addBlock_effect [OF ok a] at None have "bo = None" "unchanged V w w'" by auto
    with represents_read [OF r] None a show ?thesis by (simp add: simulated_def)
  next
    case (Some x)
    obtain g ds where x: "x = (g, ds)" by (cases x)
    with at Some have at': "chain_at E V M w i (Some (g, ds))" by simp
    then obtain m h bs where acc: "accessible V M w i" and sound: "sound_chain E V M w i"
      and l: "chain_ledger E V M w i = Some (h, bs)" and g: "hdr_data h = g" "length g \<le> MAX_DATA_LENGTH"
      and k: "ec_seckey_verify (env_ec E) (hdr_privateKey h)" and ds: "map block_text bs = ds"
      by (rule chain_atE)
    have "length bs < 2 ^ 64 - 1" using n Some x ds by auto
    from Manager_addBlock_appends [OF ok live acc l ledger_bound [OF l this] k _ d] g
    obtain b w' where a: "Manager_addBlock E M i d w = (Some b, w')" and b: "c_data (block_data b) = d"
      and l': "chain_ledger E V M w' i = Some (h\<lparr>hdr_index := hdr_index h + 1\<rparr>, bs @ [b])"
      and acc': "accessible V M w' i" by auto
    have "sound_chain E V M w' i" by (rule addBlock_sound [OF ok a sound])
    with l' acc' g k ds b have "chain_at E V M w' i (Some (g, ds @ [d]))"
      by (simp add: chain_at_def block_text_def)
    from represents_step [OF r Manager_addBlock_undisturbed [OF ok a] this] Some x a b show ?thesis
      by (simp add: simulated_def block_text_def)
  qed
qed

lemma remove_simulated:
  assumes ok: "env_ok E V" and live: "env_live E V" and r: "represents E V M w s"
  shows "simulated E V M (RemoveChain i) w s"
proof -
  have acc: "accessible V M w i" using r by (simp add: represents_def chain_at_def)
  then obtain w' where m: "Manager_removeChain E M i w = (True, w')"
    using Manager_removeChain_live [OF live] by blast
  note e = Manager_removeChain_effect [OF ok m]
  have "chain_at E V M w' i None" using e(2) acc accessible_undisturbed [OF e(1)] by simp
  from represents_step [OF r e(1) this] m show ?thesis by (simp add: simulated_def)
qed

text \<open>The operations that only read: their answer is the map's, and no database changes.\<close>

lemma read_simulated:
  assumes "represents E V M w s" and "snd (map_step c s) = s"
    and "observe E M c w = Some (fst (map_step c s), w')" and "unchanged V w w'"
  shows "simulated E V M c w s"
  using assms by (auto simp: simulated_def intro: represents_read)

lemma getBlock_simulated:
  assumes ok: "env_ok E V" and live: "env_live E V" and r: "represents E V M w s"
  shows "simulated E V M (GetBlock i n) w s"
proof -
  from r have at: "chain_at E V M w i (s i)" by (simp add: represents_def)
  obtain bo w' where b: "Manager_getBlock E M i n w = (bo, w')" by (cases "Manager_getBlock E M i n w")
  have "observe E M (GetBlock i n) w = Some (fst (map_step (GetBlock i n) s), w')"
  proof (cases "s i")
    case None
    with at b Chain_getBlock_effect [OF env_okD(1) [OF ok] b [unfolded Manager_getBlock_def]]
    show ?thesis by (cases bo) auto
  next
    case (Some x)
    obtain g ds where x: "x = (g, ds)" by (cases x)
    with at Some have "chain_at E V M w i (Some (g, ds))" by simp
    then obtain h bs where acc: "accessible V M w i" and l: "chain_ledger E V M w i = Some (h, bs)"
      and ds: "map block_text bs = ds" by (rule chain_atE)
    have len: "length bs = length ds" using ds by auto
    have "length bs = unat (hdr_index h)"
      using l by (auto simp: chain_ledger_def bind_eq_Some_conv dest: ledger_length)
    then have le: "hdr_index h < n \<longleftrightarrow> length ds < unat n" by (simp add: word_less_nat_alt len)
    from Manager_getBlock_live [OF ok live acc l, of n] b
    have "bo = (if n = 0 \<or> hdr_index h < n then None else Some (bs ! (unat n - 1)))" by auto
    moreover have "unat n - 1 < length bs" if "n \<noteq> 0" "\<not> length ds < unat n"
      using that len unat_gt_0 [of n] by simp
    ultimately show ?thesis using b Some x ds le by auto
  qed
  with r b Manager_getBlock_effect(1) [OF ok b] show ?thesis by (intro read_simulated) simp_all
qed

lemma getBlocks_simulated:
  assumes ok: "env_ok E V" and live: "env_live E V" and r: "represents E V M w s"
    and n: "\<And>g ds. s i = Some (g, ds) \<Longrightarrow> length ds < 2 ^ 64 - 1"
  shows "simulated E V M (GetBlocks i) w s"
proof -
  from r have at: "chain_at E V M w i (s i)" by (simp add: represents_def)
  obtain q bs w' where b: "Manager_getBlocks E M i [] w = Some (q, bs, w')"
    and a: "(if q then Some (map block_text bs) else None) = map_option snd (s i)"
  proof (cases "s i")
    case None
    with at have d: "disk V w (makeStoragePath M i) = None" by simp
    then obtain q bs w' where b: "Manager_getBlocks E M i [] w = Some (q, bs, w')"
      using Manager_getBlocks_total [OF ok, of w M i "[]"] by auto
    with Manager_getBlocks_effect(2) [OF ok b] chain_ledger_absent [OF d, of E] have "\<not> q" by auto
    with b None that show thesis by simp
  next
    case (Some x)
    obtain g ds where x: "x = (g, ds)" by (cases x)
    with at Some have "chain_at E V M w i (Some (g, ds))" by simp
    then obtain m h bs where acc: "accessible V M w i" and m: "disk V w (makeStoragePath M i) = Some m"
      and l: "chain_ledger E V M w i = Some (h, bs)" and ds: "map block_text bs = ds" by (rule chain_atE)
    have "length bs < 2 ^ 64 - 1" using n Some x ds by auto
    note ix = ledger_bound [OF l this]
    from l m have lm: "ledger (env_pb E) m = Some (h, bs)" by (simp add: chain_ledger_def)
    from Chain_getBlocks_live [OF env_okD(1) [OF ok] env_liveD(1) [OF live] _ _ lm ix,
        of "\<lparr>chain_path = makeStoragePath M i\<rparr>" w "[]"] acc m
    obtain w' where "Manager_getBlocks E M i [] w = Some (True, bs, w')"
      by (auto simp: Manager_getBlocks_def accessible_def)
    with Some x ds that show thesis by simp
  qed
  from b a Manager_getBlocks_effect(1) [OF ok b] r show ?thesis by (intro read_simulated [where w' = w']) simp_all
qed

lemma verify_simulated:
  assumes ok: "env_ok E V" and live: "env_live E V" and r: "represents E V M w s"
    and n: "\<And>g ds. s i = Some (g, ds) \<Longrightarrow> length ds < 2 ^ 64 - 1"
  shows "simulated E V M (VerifyChain i) w s"
proof -
  from r have at: "chain_at E V M w i (s i)" by (simp add: represents_def)
  obtain q w' where b: "Manager_verifyChain E M i w = Some (q, w')" and a: "q \<longleftrightarrow> s i \<noteq> None"
  proof (cases "s i")
    case None
    with at have d: "disk V w (makeStoragePath M i) = None" by simp
    then obtain q w' where b: "Manager_verifyChain E M i w = Some (q, w')"
      using Manager_verifyChain_total [OF ok env_liveD(3) [OF live], of w M i] by auto
    with Manager_verifyChain_effect(2) [OF ok b] chain_ledger_absent [OF d, of E] have "\<not> q" by auto
    with b None that show thesis by simp
  next
    case (Some x)
    obtain g ds where x: "x = (g, ds)" by (cases x)
    with at Some have "chain_at E V M w i (Some (g, ds))" by simp
    then obtain h bs where acc: "accessible V M w i" and sound: "sound_chain E V M w i"
      and l: "chain_ledger E V M w i = Some (h, bs)" and ds: "map block_text bs = ds" by (rule chain_atE)
    have "length bs < 2 ^ 64 - 1" using n Some x ds by auto
    from Manager_verifyChain_live [OF ok live acc l ledger_bound [OF l this]] sound l
    obtain w' where "Manager_verifyChain E M i w = Some (True, w')" by (auto simp: sound_chain_def)
    with Some that show thesis by simp
  qed
  from b a Manager_verifyChain_effect(1) [OF ok b] r show ?thesis by (intro read_simulated [where w' = w']) simp_all
qed

text \<open>The header of a chain is found exactly if there is one.\<close>

lemma header_answer:
  assumes ok: "env_ok E V" and live: "env_live E V" and at: "chain_at E V M w i x"
    and g: "Chain_getHeader (env_pb E) (env_db E) \<lparr>chain_path = makeStoragePath M i\<rparr> w = (ho, w')"
  shows "map_option (\<lambda>h. (hdr_version h, hdr_index h, hdr_data h)) ho =
    map_option (\<lambda>(g, ds). (DB_VERSION, of_nat (length ds), g)) x"
proof (cases x)
  case None
  with at g Chain_getHeader_effect [OF env_okD(1) [OF ok] g] show ?thesis by (cases ho) auto
next
  case (Some y)
  obtain d ds where y: "y = (d, ds)" by (cases y)
  with at Some have "chain_at E V M w i (Some (d, ds))" by simp
  then obtain m h where acc: "accessible V M w i" and m: "disk V w (makeStoragePath M i) = Some m"
    and h: "stored_header (env_pb E) m = Some h" "hdr_data h = d" "hdr_version h = DB_VERSION"
      "hdr_index h = of_nat (length ds)" by (rule chain_atE)
  from Chain_getHeader_live [OF env_okD(1) [OF ok] env_liveD(1) [OF live] _ _ h(1),
      of "\<lparr>chain_path = makeStoragePath M i\<rparr>" w] acc m h(2-4) g show ?thesis by (auto simp: Some y accessible_def)
qed

lemma header_simulated:
  assumes ok: "env_ok E V" and live: "env_live E V" and r: "represents E V M w s"
  shows "simulated E V M (GetChainHeader i) w s" and "simulated E V M (GetChainInfo i) w s"
proof -
  obtain ho w' where g: "Chain_getHeader (env_pb E) (env_db E) \<lparr>chain_path = makeStoragePath M i\<rparr> w = (ho, w')"
    by (cases "Chain_getHeader (env_pb E) (env_db E) \<lparr>chain_path = makeStoragePath M i\<rparr> w")
  have u: "unchanged V w w'" using Chain_getHeader_effect(1) [OF env_okD(1) [OF ok] g] .
  from r have "chain_at E V M w i (s i)" by (simp add: represents_def)
  note a = header_answer [OF ok live this g]
  show "simulated E V M (GetChainHeader i) w s"
    using r u g a by (intro read_simulated [where w' = w'])
      (auto simp: Manager_getChainHeader_def split: option.split)
  show "simulated E V M (GetChainInfo i) w s"
    using r u g a by (intro read_simulated [where w' = w'])
      (cases "s i"; auto simp: Manager_getChainInfo_def split: option.splits)+
qed

section \<open>The run\<close>

lemma command_simulated:
  assumes "env_ok E V" and "env_live E V" and "keys_live E" and "represents E V M w s"
    and "command_fits c" and "\<And>i g ds. s i = Some (g, ds) \<Longrightarrow> length ds < 2 ^ 64 - 1"
  shows "simulated E V M c w s"
  using assms(5)
  by (cases c)
    (simp_all add: create_simulated [OF assms(1-4)] add_simulated [OF assms(1,2,4) _ assms(6)]
      getBlock_simulated [OF assms(1,2,4)] getBlocks_simulated [OF assms(1,2,4,6)]
      remove_simulated [OF assms(1,2,4)] verify_simulated [OF assms(1,2,4,6)]
      header_simulated [OF assms(1,2,4)])

lemma map_step_length:
  "snd (map_step c s) i = Some (g, ds) \<Longrightarrow>
    length ds \<le> Suc (case s i of None \<Rightarrow> 0 | Some (g', ds') \<Rightarrow> length ds')"
  by (cases c) (auto split: option.splits if_splits)

text \<open>Room for \<open>k\<close> more blocks in every chain: the counters of the chains do not wrap around.\<close>

definition room :: "chains \<Rightarrow> nat \<Rightarrow> bool" where
  "room s k \<longleftrightarrow> k < 2 ^ 64 \<and> (\<forall>i g ds. s i = Some (g, ds) \<longrightarrow> length ds + k < 2 ^ 64)"

lemma room_empty [simp]: "room Map.empty k \<longleftrightarrow> k < 2 ^ 64"
  by (simp add: room_def)

lemma room_step: "room s (Suc k) \<Longrightarrow> room (snd (map_step c s)) k"
  unfolding room_def using map_step_length [of c s] by (fastforce split: option.splits)

lemma room_small: "room s (Suc k) \<Longrightarrow> s i = Some (g, ds) \<Longrightarrow> length ds < 2 ^ 64 - 1"
  by (fastforce simp: room_def)

lemma commands_simulated:
  assumes "env_ok E V" and "env_live E V" and "keys_live E"
  shows "represents E V M w s \<Longrightarrow> list_all command_fits cs \<Longrightarrow> room s (length cs) \<Longrightarrow>
    \<exists>w'. observe_all E M cs w = Some (fst (map_run cs s), w') \<and> represents E V M w' (snd (map_run cs s))"
proof (induction cs arbitrary: w s)
  case Nil
  then show ?case by simp
next
  case (Cons c cs)
  have n: "room s (Suc (length cs))" using Cons.prems(3) by simp
  have "simulated E V M c w s"
    using Cons.prems(2) room_small [OF n] by (intro command_simulated [OF assms Cons.prems(1)]) simp_all
  then obtain w1 where o: "observe E M c w = Some (fst (map_step c s), w1)"
    and r: "represents E V M w1 (snd (map_step c s))" by (auto simp: simulated_def)
  obtain w' where "observe_all E M cs w1 = Some (fst (map_run cs (snd (map_step c s))), w')"
    and "represents E V M w' (snd (map_run cs (snd (map_step c s))))"
    using Cons.IH [OF r _ room_step [OF n]] Cons.prems(2) by auto
  with o show ?case by (auto simp: case_prod_beta Let_def)
qed

end
