(* ===== verification/Forgery.thy ===== *)
theory Forgery
  imports Chain_Service
begin

text \<open>
  What someone who can write a chain's database can make of it.  The record of the header is
  protected by nothing and contains the private key: the counter can be set back, and new blocks can
  be signed like the service does.
\<close>

section \<open>Cutting a chain off\<close>

lemma unat_word_of_nat: "n < 2 ^ 64 \<Longrightarrow> unat (word_of_nat n :: size_t) = n"
  by (simp add: unat_of_nat)

lemma ledger_cut:
  assumes "pb_ok P" and "ledger P m = Some (h, bs @ cs)"
    and "Header_pack P (h\<lparr>hdr_index := word_of_nat (length bs)\<rparr>) = Some hb"
  shows "ledger P (m(DB_HEADER_KEY \<mapsto> hb)) = Some (h\<lparr>hdr_index := word_of_nat (length bs)\<rparr>, bs)"
proof -
  let ?n = "length bs" and ?m = "m(DB_HEADER_KEY \<mapsto> hb)"
  note d = ledgerD [OF assms(2)]
  have len: "length bs + length cs = unat (hdr_index h)" using ledger_length [OF assms(2)] by simp
  moreover have "unat (hdr_index h) < 2 ^ LENGTH(64)" by (rule unsigned_less)
  ultimately have "?n < 2 ^ 64" by simp
  then have n: "unat (word_of_nat ?n :: size_t) = ?n" by (rule unat_word_of_nat)
  have "[1 ..< Suc (unat (hdr_index h))] = [1 ..< Suc ?n] @ [Suc ?n ..< Suc (unat (hdr_index h))]"
    using len by (metis Suc_eq_plus1_left le_add1 add_Suc upt_add_eq_append)
  with d obtain as where a: "stored_blocks P m 1 (Suc ?n) = Some as"
    and "prefix as (bs @ cs)"
    by (auto simp: stored_blocks_def those_append prefix_def simp del: upt_Suc split: option.splits) metis
  moreover have "length as = ?n" using those_length a by (fastforce simp: stored_blocks_def simp del: upt_Suc)
  ultimately have "as = bs" by (auto simp: prefix_def append_eq_append_conv)
  have "stored_blocks P ?m 1 (Suc ?n) = stored_blocks P m 1 (Suc ?n)"
    by (rule stored_blocks_cong) simp
  with a \<open>as = bs\<close> d assms(1,3) n show ?thesis
    by (auto simp: ledger_def simp del: upt_Suc)
qed

section \<open>Adding blocks without the service\<close>

text \<open>The records of a chain that its first \<open>n\<close> blocks do not need.\<close>

definition beyond :: "nat \<Rightarrow> bytes \<Rightarrow> bool" where
  "beyond n k \<longleftrightarrow> k = DB_HEADER_KEY \<or> (\<exists>j. n < unat j \<and> k = makeBlockName j)"

lemma beyond_header [simp]: "beyond n DB_HEADER_KEY"
  by (simp add: beyond_def)

lemma beyond_mono: "beyond n k \<Longrightarrow> n' \<le> n \<Longrightarrow> beyond n' k"
  by (auto simp: beyond_def)

lemma prev_hash_live: "sha_live S \<Longrightarrow> \<exists>prev. prev_hash S h bs = Some prev"
  using getHashN_live by (fastforce simp: prev_hash_def genesis_hash_def)

text \<open>A block can be made by whoever has the key, here with zero bytes as its nonce.\<close>

lemma new_block_exists:
  assumes "env_live E V" and "ec_seckey_verify (env_ec E) (hdr_privateKey h)"
  obtains b where "new_block E h prev d b"
proof -
  let ?nonce = "data_of_bytes [] :: nonce"
  obtain body where body: "getHash (env_sha E) [data_bytes prev, data_bytes ?nonce, d] = Some body"
    using getHash_live [OF env_liveD(3) [OF assms(1)]] by fastforce
  obtain sig where sig: "getSignature (env_ec E) body (hdr_privateKey h) = Some sig"
    using env_liveD(4) [OF assms(1)] assms(2) by (auto simp: ec_live_def)
  obtain hash where
    "getHash (env_sha E) [data_bytes prev, data_bytes ?nonce, d, data_bytes sig] = Some hash"
    using getHash_live [OF env_liveD(3) [OF assms(1)]] by fastforce
  with body sig have "new_block E h prev d (block_new \<lparr>c_hash = hash, c_prevHash = prev,
      c_nonce = ?nonce, c_data = d, c_signature = sig\<rparr>)"
    by (simp add: new_block_def signed_part_def hashed_part_def)
  with that show thesis .
qed

text \<open>A database whose chain continues the first one with the blocks \<open>new\<close>, and verifies.\<close>

definition continued ::
  "('w, 'h, 'c, 'pk, 'sg) env \<Rightarrow> header \<Rightarrow> block list \<Rightarrow> kv_map \<Rightarrow> block list \<Rightarrow> kv_map \<Rightarrow> bool" where
  "continued E h bs m new m' \<longleftrightarrow>
     (let h' = h\<lparr>hdr_index := word_of_nat (length bs + length new)\<rparr> in
      ledger (env_pb E) m' = Some (h', bs @ new) \<and> verified (env_sha E) (env_ec E) h' (bs @ new)) \<and>
     (\<forall>k. \<not> beyond (length bs) k \<longrightarrow> m' k = m k)"

lemma continued_snoc:
  assumes ok: "env_ok E V" and live: "env_live E V"
    and key: "ec_seckey_verify (env_ec E) (hdr_privateKey h)"
    and pub: "createPublicKey (env_ec E) (hdr_privateKey h) = Some (hdr_publicKey h)"
    and size: "length (hdr_data h) \<le> MAX_DATA_LENGTH" "length d \<le> MAX_DATA_LENGTH"
    and c: "continued E h bs m new m'" and n: "length bs + Suc (length new) < 2 ^ 64"
  obtains b m'' where "c_data (block_data b) = d" "continued E h bs m (new @ [b]) m''"
proof -
  let ?n = "length bs + length new"
  let ?h = "h\<lparr>hdr_index := word_of_nat ?n\<rparr>"
  from c have l: "ledger (env_pb E) m' = Some (?h, bs @ new)"
    and v: "verified (env_sha E) (env_ec E) ?h (bs @ new)"
    and k: "\<And>k. \<not> beyond (length bs) k \<Longrightarrow> m' k = m k"
    by (auto simp: continued_def Let_def)
  obtain prev where prev: "prev_hash (env_sha E) ?h (bs @ new) = Some prev"
    using prev_hash_live [OF env_liveD(3) [OF live]] by blast
  obtain b where b: "new_block E ?h prev d b"
    using new_block_exists [OF live, of ?h prev d] key by auto
  have v': "verified (env_sha E) (env_ec E) ?h ((bs @ new) @ [b])"
    by (rule verified_prev [OF prev v new_block_link [OF env_okD(3) [OF ok] _ b]]) (use pub in simp)
  have u: "unat (word_of_nat ?n :: size_t) = ?n" by (rule unat_word_of_nat) (use n in simp)
  have i: "(word_of_nat ?n :: size_t) \<noteq> - 1"
  proof
    assume "(word_of_nat ?n :: size_t) = - 1"
    with u have "?n = unat (- 1 :: size_t)" by simp
    then show False using n by (simp add: unsigned_minus_1_eq_mask mask_eq_exp_minus_1)
  qed
  have i1: "(word_of_nat ?n :: size_t) + 1 = word_of_nat (Suc ?n)" by (simp add: add.commute)
  obtain hb where hb: "Header_pack (env_pb E) (?h\<lparr>hdr_index := hdr_index ?h + 1\<rparr>) = Some hb"
    using Header_pack_live [OF env_liveD(5) [OF live]] size(1) by fastforce
  have d: "c_data (block_data b) = d" using b by (simp add: new_block_def)
  obtain bb where bb: "Container_pack (env_pb E) (block_data b) = Some bb"
    using Container_pack_live [OF env_liveD(5) [OF live]] size(2) d by blast
  let ?m = "m'(DB_HEADER_KEY \<mapsto> hb, makeBlockName (hdr_index ?h + 1) \<mapsto> bb)"
  have "appended (env_pb E) b m' ?m" using hb bb ledgerD [OF l] by (auto simp: appended_def)
  from ledger_appended [OF env_okD(4) [OF ok] this l] i
  have "ledger (env_pb E) ?m = Some (h\<lparr>hdr_index := word_of_nat (Suc ?n)\<rparr>, bs @ new @ [b])"
    by (simp add: i1)
  moreover have "?m k = m k" if "\<not> beyond (length bs) k" for k
  proof -
    have "beyond (length bs) (makeBlockName (hdr_index ?h + 1))"
      unfolding beyond_def using unat_plus_one [OF i] u by auto
    with that k [OF that] show ?thesis by auto
  qed
  ultimately have "continued E h bs m (new @ [b]) ?m"
    using v' by (simp add: continued_def)
  with d show thesis by (rule that)
qed

lemma continued_exists:
  assumes ok: "env_ok E V" and live: "env_live E V"
    and l: "ledger (env_pb E) m = Some (h, bs @ cs)"
    and v: "verified (env_sha E) (env_ec E) h (bs @ cs)"
    and key: "ec_seckey_verify (env_ec E) (hdr_privateKey h)"
      "createPublicKey (env_ec E) (hdr_privateKey h) = Some (hdr_publicKey h)"
    and size: "length (hdr_data h) \<le> MAX_DATA_LENGTH"
  shows "(\<And>d. d \<in> set ds \<Longrightarrow> length d \<le> MAX_DATA_LENGTH) \<Longrightarrow> length bs + length ds < 2 ^ 64 \<Longrightarrow>
    \<exists>new m'. map (\<lambda>b. c_data (block_data b)) new = ds \<and> continued E h bs m new m'"
proof (induction ds rule: rev_induct)
  case Nil
  obtain hb where "Header_pack (env_pb E) (h\<lparr>hdr_index := word_of_nat (length bs)\<rparr>) = Some hb"
    using Header_pack_live [OF env_liveD(5) [OF live]] size by fastforce
  from ledger_cut [OF env_okD(4) [OF ok] l this] verified_prefix [OF v]
  have "continued E h bs m [] (m(DB_HEADER_KEY \<mapsto> hb))" by (auto simp: continued_def)
  then show ?case by auto
next
  case (snoc d ds)
  then obtain new m' where new: "map (\<lambda>b. c_data (block_data b)) new = ds" "continued E h bs m new m'"
    by auto
  then have "length new = length ds" by auto
  with snoc.prems obtain b m'' where "c_data (block_data b) = d" "continued E h bs m (new @ [b]) m''"
    using continued_snoc [OF ok live key size _ new(2), of d] by auto
  with new(1) show ?case by (intro exI [of _ "new @ [b]"]) auto
qed

end
