(* ===== verification/Storage_Properties.thy ===== *)
theory Storage_Properties
  imports Example_Run Storage_Life Chain_Map Forgery
begin

text \<open>
  The properties of the storage layer: what the operations of the manager and of a chain promise,
  with and without input/output faults.  Each property is stated for every environment that meets
  the laws of its libraries; its witness applies it to the run of \<open>Example_Run\<close>.
\<close>

section \<open>Creating chains and adding blocks\<close>

text \<open>
  C19: \<open>Manager::createChain\<close> is correct on every path.  When it returns a chain, there was no
  database under the chain's path before; afterwards there is one whose ledger has no blocks and a
  header with the current version, the given data and a matching pair of keys.  When it fails, a
  database that existed is untouched.  In both cases no other database changes and none stays open.
\<close>

theorem createChain_correct:
  assumes "env_ok E V" and "Manager_createChain E M i d w = (r, w')"
  shows "undisturbed V (makeStoragePath M i) w w' \<and>
    (case r of
       None \<Rightarrow> (\<forall>m. disk V w (makeStoragePath M i) = Some m \<longrightarrow> disk V w' (makeStoragePath M i) = Some m)
     | Some ch \<Rightarrow>
         chain_path ch = makeStoragePath M i \<and> disk V w (makeStoragePath M i) = None \<and>
         (\<exists>h. chain_ledger E V M w' i = Some (h, []) \<and> hdr_version h = DB_VERSION \<and>
            hdr_index h = 0 \<and> hdr_data h = d \<and>
            createPublicKey (env_ec E) (hdr_privateKey h) = Some (hdr_publicKey h)))"
  using Manager_createChain_effect [OF assms]
  by (auto simp: header_new_def split: option.split)

lemma createChain_correct_witness:
  "\<exists>h. chain_ledger mem_env mem_view ex_manager created_world 1 = Some (h, []) \<and>
    hdr_data h = ''genesis''"
proof -
  obtain ch where "Manager_createChain mem_env ex_manager 1 ''genesis'' empty_world =
    (Some ch, created_world)" by (rule created)
  from createChain_correct [OF mem_env_ok this] show ?thesis by auto
qed

text \<open>
  C9: \<open>Manager::addBlock\<close> refines appending to a list.  Whatever faults occur, the chain keeps its
  ledger or gets one more block, which carries the given data, refers to the hash of its
  predecessor (or to the header's) and is hashed and signed with the chain's key; the header's
  counter grows with it.  A returned block is the appended one.
\<close>

theorem addBlock_appends:
  assumes "env_ok E V" and "Manager_addBlock E M i d w = (r, w')"
    and "chain_ledger E V M w i = Some (h, bs)" and "hdr_index h \<noteq> - 1"
  shows "r = None \<and> chain_ledger E V M w' i = Some (h, bs) \<or>
    (\<exists>prev b. prev_hash (env_sha E) h bs = Some prev \<and> new_block E h prev d b \<and>
       chain_ledger E V M w' i = Some (h\<lparr>hdr_index := hdr_index h + 1\<rparr>, bs @ [b]) \<and>
       (r = None \<or> r = Some b))"
  by (rule Manager_addBlock_ledger [OF assms])

lemma addBlock_appends_witness:
  "\<exists>b. chain_ledger mem_env mem_view ex_manager grown_world 1 = Some (ex_header\<lparr>hdr_index := 1\<rparr>, [b]) \<and>
    c_data (block_data b) = ''first''"
  using addBlock_appends [OF mem_env_ok grown_block created_ledger]
  by (auto simp: ex_header new_block_def)

text \<open>
  C25: no operation of the manager touches the database of another chain, and the five reading
  operations (including \<open>verifyChain\<close>) leave every database and every open handle as they are.
\<close>

fun command_chain :: "command \<Rightarrow> size_t" where
  "command_chain (CreateChain i d) = i"
| "command_chain (AddBlock i d) = i"
| "command_chain (GetBlock i n) = i"
| "command_chain (GetBlocks i) = i"
| "command_chain (RemoveChain i) = i"
| "command_chain (VerifyChain i) = i"
| "command_chain (GetChainHeader i) = i"
| "command_chain (GetChainInfo i) = i"

fun writes :: "command \<Rightarrow> bool" where
  "writes (CreateChain i d) = True"
| "writes (AddBlock i d) = True"
| "writes (RemoveChain i) = True"
| "writes _ = False"

theorem commands_are_local:
  assumes "env_ok E V" and "run_command E M c w = Some w'"
  shows "handles V w' = handles V w \<and>
    (\<forall>i. i \<noteq> command_chain c \<or> \<not> writes c \<longrightarrow>
       disk V w' (makeStoragePath M i) = disk V w (makeStoragePath M i))"
  using run_command_frame [OF assms]
  by (auto simp: undisturbed_def dest: unchanged_disk unchanged_handles)

lemma commands_are_local_witness:
  "files grown_world (makeStoragePath ex_manager 2) = None"
  using commands_are_local [OF mem_env_ok, of ex_manager "AddBlock 1 ''first''" created_world]
    commands_are_local [OF mem_env_ok, of ex_manager "CreateChain 1 ''genesis''" empty_world]
  by (simp add: grown_world_def created_world_def)

section \<open>Reading blocks\<close>

text \<open>
  C26: \<open>getBlock\<close> is a bounds-checked lookup.  Without faults it returns the block with the given
  number, counted from 1, and null for 0 and for numbers beyond the header's counter.
\<close>

theorem getBlock_exact:
  assumes "env_ok E V" and "env_live E V" and "accessible V M w i"
    and "chain_ledger E V M w i = Some (h, bs)"
  shows "\<exists>w'. unchanged V w w' \<and> Manager_getBlock E M i n w =
    (if n = 0 \<or> hdr_index h < n then None else Some (bs ! (unat n - 1)), w')"
  by (rule Manager_getBlock_live [OF assms])

lemma getBlock_exact_witness:
  "fst (Manager_getBlock mem_env ex_manager 1 1 grown_world) = Some ex_block \<and>
   fst (Manager_getBlock mem_env ex_manager 1 2 grown_world) = None"
  using getBlock_exact [OF mem_env_ok mem_env_live _ grown_ledger, of 1]
    getBlock_exact [OF mem_env_ok mem_env_live _ grown_ledger, of 2]
  by auto

text \<open>
  C27: \<open>getBlocks\<close> returns, unless the header counts \<open>2^64 - 1\<close> blocks.  Whatever faults occur, it
  changes nothing and extends the list it is given; when it reports success the new part is
  exactly the ledger.
\<close>

theorem getBlocks_returns:
  assumes "env_ok E V"
    and "\<And>m h. disk V w (makeStoragePath M i) = Some m \<Longrightarrow> stored_header (env_pb E) m = Some h \<Longrightarrow>
      hdr_index h \<noteq> - 1"
  shows "\<exists>ok new w'. Manager_getBlocks E M i blocks w = Some (ok, blocks @ new, w') \<and>
    unchanged V w w' \<and> (ok \<longrightarrow> (\<exists>h. chain_ledger E V M w i = Some (h, new)))"
proof -
  have "\<exists>r bs w'. Manager_getBlocks E M i blocks w = Some (r, blocks @ bs, w') \<and> unchanged V w w' \<and>
    (r \<longrightarrow> (\<exists>m h. disk V w (makeStoragePath M i) = Some m \<and> ledger (env_pb E) m = Some (h, bs)))"
    unfolding Manager_getBlocks_def
    using Chain_getBlocks_effect [OF env_okD(1) [OF assms(1)], of w "\<lparr>chain_path = makeStoragePath M i\<rparr>"
        "env_pb E" blocks] assms(2) by simp
  then show ?thesis by (fastforce simp: chain_ledger_def)
qed

lemma getBlocks_returns_witness:
  "\<exists>ok new w'. Manager_getBlocks mem_env ex_manager 1 [] grown_world = Some (ok, new, w') \<and>
    (ok \<longrightarrow> new = [ex_block])"
proof -
  have n: "hdr_index h \<noteq> - 1" if "disk mem_view grown_world (makeStoragePath ex_manager 1) = Some m"
    "stored_header (env_pb mem_env) m = Some h" for m h
    using that grown_ledger by (auto simp: chain_ledger_def dest!: ledgerD)
  have "\<exists>ok new w'. Manager_getBlocks mem_env ex_manager 1 [] grown_world = Some (ok, [] @ new, w') \<and>
    unchanged mem_view grown_world w' \<and>
    (ok \<longrightarrow> (\<exists>h. chain_ledger mem_env mem_view ex_manager grown_world 1 = Some (h, new)))"
    by (rule getBlocks_returns [OF mem_env_ok]) (rule n)
  with grown_ledger show ?thesis by auto
qed

text \<open>
  At the largest counter the loop condition \<open>i <= header->getIndex()\<close> never becomes false.
  There \<open>getBlocks\<close> cannot report success: it fails on an unreadable block or does not return.
\<close>

lemma getBlocks_at_last_index:
  assumes "env_ok E V" and "disk V w (makeStoragePath M i) = Some m"
    and "stored_header (env_pb E) m = Some h" and "hdr_index h = - 1"
  shows "\<forall>bs w'. Manager_getBlocks E M i blocks w \<noteq> Some (True, bs, w')"
proof (intro allI notI)
  fix bs w'
  assume "Manager_getBlocks E M i blocks w = Some (True, bs, w')"
  from Chain_getBlocks_returned [OF env_okD(1) [OF assms(1)] this [unfolded Manager_getBlocks_def]]
    assms(2-4) show False by (auto dest: ledgerD)
qed

definition full_header :: header where
  "full_header = (header_new DB_VERSION [] (data_of_bytes []) (data_of_bytes []))\<lparr>hdr_index := - 1\<rparr>"

definition full_map :: kv_map where
  "full_map = [DB_HEADER_KEY \<mapsto> the (Header_pack mem_pb full_header)]"

definition full_world :: world where
  "full_world = empty_world\<lparr>files := [makeStoragePath ex_manager 1 \<mapsto> full_map]\<rparr>"

lemma full_stored [simp]: "stored_header mem_pb full_map = Some full_header"
proof -
  obtain b where "Header_pack mem_pb full_header = Some b"
    using Header_pack_live [OF mem_pb_live, of full_header]
    by (auto simp: full_header_def header_new_def)
  then show ?thesis
    using header_codec.dec_enc [OF mem_pb_ok] by (simp add: stored_header_def full_map_def)
qed

lemma getBlocks_at_last_index_witness:
  "\<forall>bs w'. Manager_getBlocks mem_env ex_manager 1 [] full_world \<noteq> Some (True, bs, w')"
  by (rule getBlocks_at_last_index [OF mem_env_ok, where m = full_map and h = full_header])
    (simp_all add: full_world_def full_header_def)

text \<open>
  C37: the block counter is a \<open>size_t\<close>: adding a block to a chain that counts \<open>2^64 - 1\<close> blocks
  wraps it to 0, and the chain then reads as empty although the call reports success.
\<close>

theorem addBlock_wraps:
  assumes "db_ok D V" and "pb_ok P" and "Chain_addBlock P D c b w = (True, w')"
    and "disk V w (chain_path c) = Some m" and "stored_header P m = Some h" and "hdr_index h = - 1"
  shows "Option.bind (disk V w' (chain_path c)) (ledger P) = Some (h\<lparr>hdr_index := 0\<rparr>, [])"
  using Chain_addBlock_effect [OF assms(1,3)] assms(4) ledger_appended_wraps [OF assms(2) _ assms(5,6)]
  by auto

lemma addBlock_wraps_witness:
  "\<exists>w'. Chain_addBlock mem_pb mem_db \<lparr>chain_path = makeStoragePath ex_manager 1\<rparr> ex_block full_world =
      (True, w') \<and>
    Option.bind (files w' (makeStoragePath ex_manager 1)) (ledger mem_pb) =
      Some (full_header\<lparr>hdr_index := 0\<rparr>, [])"
proof -
  let ?c = "\<lparr>chain_path = makeStoragePath ex_manager 1\<rparr>"
  have d: "c_data (block_data ex_block) = ''first''"
    using Manager_addBlock_ledger [OF mem_env_ok grown_block created_ledger]
    by (auto simp: ex_header new_block_def)
  have h: "handle_path full_world = Map.empty"
    by (simp add: full_world_def handle_path_def empty_world_def fun_eq_iff)
  have "\<exists>w'. Chain_addBlock mem_pb mem_db ?c ex_block full_world = (True, w')"
    using d h by (intro Chain_addBlock_live [OF mem_db_ok mem_db_live mem_pb_live, where m = full_map
        and h = full_header]) (simp_all add: full_world_def full_header_def header_new_def MAX_DATA_LENGTH_def)
  then obtain w' where a: "Chain_addBlock mem_pb mem_db ?c ex_block full_world = (True, w')" by blast
  have "disk mem_view full_world (chain_path ?c) = Some full_map" by (simp add: full_world_def)
  from addBlock_wraps [OF mem_db_ok mem_pb_ok a this] a show ?thesis
    by (auto simp: full_header_def)
qed

section \<open>Verification\<close>

text \<open>
  C24: the index loop of \<open>verifyChain\<close> computes the recursive predicate \<open>verified\<close>: every block is
  signed with the chain's key over its predecessor's hash, its nonce and its data, and its hash is
  the hash of these and the signature.
\<close>

theorem verify_loop_equivalence:
  "verify_loop S Ec h bs 0 = Some True \<longleftrightarrow> verified S Ec h bs"
  by (rule verify_loop_verified)

text \<open>
  C17: a positive answer of \<open>Manager::verifyChain\<close> is right even with input/output faults: the
  chain has a ledger on disk and that ledger verifies.  Verifying changes nothing.
\<close>

theorem verifyChain_sound:
  assumes "env_ok E V" and "Manager_verifyChain E M i w = Some (valid, w')"
  shows "unchanged V w w' \<and>
    (valid \<longrightarrow> (\<exists>h bs. chain_ledger E V M w i = Some (h, bs) \<and>
       verified (env_sha E) (env_ec E) h bs))"
  using Manager_verifyChain_effect [OF assms] by auto

text \<open>
  C14: without faults \<open>verifyChain\<close> decides whether the ledger verifies: it returns, and its answer
  is the predicate.
\<close>

theorem verifyChain_exact:
  assumes "env_ok E V" and "env_live E V" and "accessible V M w i"
    and "chain_ledger E V M w i = Some (h, bs)" and "hdr_index h \<noteq> - 1"
  shows "\<exists>w'. Manager_verifyChain E M i w = Some (verified (env_sha E) (env_ec E) h bs, w')"
  by (rule Manager_verifyChain_live [OF assms])

lemma verifyChain_exact_witness:
  "\<exists>w'. Manager_verifyChain mem_env ex_manager 1 grown_world = Some (True, w')"
proof -
  have "verified (env_sha mem_env) (env_ec mem_env) (ex_header\<lparr>hdr_index := 1\<rparr>) [ex_block]"
    using grown_sound grown_ledger by (auto simp: sound_chain_def)
  then show ?thesis
    using verifyChain_exact [OF mem_env_ok mem_env_live _ grown_ledger] by simp
qed

lemma verifyChain_sound_witness:
  "\<exists>h bs. chain_ledger mem_env mem_view ex_manager grown_world 1 = Some (h, bs) \<and>
    verified mem_sha mem_ec h bs"
proof -
  have v: "verified (env_sha mem_env) (env_ec mem_env) (ex_header\<lparr>hdr_index := 1\<rparr>) [ex_block]"
    using grown_sound grown_ledger by (auto simp: sound_chain_def)
  with Manager_verifyChain_live [OF mem_env_ok mem_env_live _ grown_ledger] obtain w'
    where "Manager_verifyChain mem_env ex_manager 1 grown_world = Some (True, w')" by auto
  from verifyChain_sound [OF mem_env_ok this] show ?thesis by simp
qed

text \<open>
  C13: tamper evidence.  If two chains over the same header verify and end in the same block hash,
  they have the same nonces, data, signatures and hashes (in particular the same length), or two
  of the byte strings that were hashed for them are a collision of the hash function.
\<close>

theorem tamper_evidence:
  assumes "sha_ok S H" and "verified S Ec h bs" and "verified S Ec h cs"
    and "bs \<noteq> []" and "cs \<noteq> []"
    and "c_hash (block_data (last bs)) = c_hash (block_data (last cs))"
  shows "map contents bs = map contents cs \<or>
    (\<exists>x \<in> set (chain_inputs H h bs). \<exists>y \<in> set (chain_inputs H h cs). x \<noteq> y \<and> H x = H y)"
  by (rule verified_collision [OF assms])

lemma tamper_evidence_witness:
  "map contents [ex_block] = map contents [with_prevHash (\<lambda>_. data_of_bytes []) ex_block] \<or>
   (\<exists>x \<in> set (chain_inputs data_of_bytes (ex_header\<lparr>hdr_index := 1\<rparr>) [ex_block]).
    \<exists>y \<in> set (chain_inputs data_of_bytes (ex_header\<lparr>hdr_index := 1\<rparr>)
        [with_prevHash (\<lambda>_. data_of_bytes []) ex_block]).
      x \<noteq> y \<and> (data_of_bytes x :: hash) = data_of_bytes y)"
proof -
  have v: "verified mem_sha mem_ec (ex_header\<lparr>hdr_index := 1\<rparr>) [ex_block]"
    using grown_sound grown_ledger by (auto simp: sound_chain_def)
  then have v': "verified mem_sha mem_ec (ex_header\<lparr>hdr_index := 1\<rparr>)
      (map (with_prevHash (\<lambda>_. data_of_bytes [])) [ex_block])"
    by (simp only: verify_loop_verified [symmetric] verify_loop_with_prevHash)
  from tamper_evidence [OF mem_sha_ok v v'] show ?thesis by simp
qed

text \<open>
  C34: the stored previous hashes are not part of what \<open>verifyChain\<close> checks: it compares nothing with
  them, so replacing every one of them by another value changes no verdict.
\<close>

theorem stored_prevHash_unchecked:
  "verify_loop S Ec h (map (with_prevHash f) bs) 0 = verify_loop S Ec h bs 0"
  by (rule verify_loop_with_prevHash)

text \<open>
  C33: whoever can write a database can rewrite history.  The signatures do not protect a chain
  against someone with access to its database, because the key is in it and nothing guards the
  counter: after any number of its blocks the chain can be replaced by blocks with arbitrary other
  data.  The new chain has the same header data and keys and \<open>verifyChain\<close> accepts it; the records of
  the blocks that are kept need not be touched.  Without new data the chain is just cut off.
\<close>

theorem history_rewritable:
  assumes "env_ok E V" and "env_live E V" and "ledger (env_pb E) m = Some (h, bs @ cs)"
    and "verify_loop (env_sha E) (env_ec E) h (bs @ cs) 0 = Some True"
    and "ec_seckey_verify (env_ec E) (hdr_privateKey h)"
    and "createPublicKey (env_ec E) (hdr_privateKey h) = Some (hdr_publicKey h)"
    and "length (hdr_data h) \<le> MAX_DATA_LENGTH" and "\<And>d. d \<in> set ds \<Longrightarrow> length d \<le> MAX_DATA_LENGTH"
    and "length bs + length ds < 2 ^ 64"
  shows "\<exists>m' h' new. ledger (env_pb E) m' = Some (h', bs @ new) \<and> same_chain h h' \<and>
    map (\<lambda>b. c_data (block_data b)) new = ds \<and>
    verify_loop (env_sha E) (env_ec E) h' (bs @ new) 0 = Some True \<and>
    (\<forall>k. k \<noteq> DB_HEADER_KEY \<and> (\<forall>j. length bs < unat j \<longrightarrow> k \<noteq> makeBlockName j) \<longrightarrow> m' k = m k)"
proof -
  from continued_exists [OF assms(1-3) assms(4) [unfolded verify_loop_verified] assms(5-7), of ds] assms(8,9)
  obtain new m' where "map (\<lambda>b. c_data (block_data b)) new = ds" "continued E h bs m new m'" by auto
  then show ?thesis
    by (intro exI [of _ m'] exI [of _ "h\<lparr>hdr_index := word_of_nat (length bs + length new)\<rparr>"] exI [of _ new])
      (auto simp: continued_def beyond_def verify_loop_verified)
qed

lemma history_rewritable_witness:
  "\<exists>m m' h' b. files grown_world (makeStoragePath ex_manager 1) = Some m \<and>
    ledger mem_pb m = Some (ex_header\<lparr>hdr_index := 1\<rparr>, [ex_block]) \<and>
    ledger mem_pb m' = Some (h', [b]) \<and> c_data (block_data b) = ''forged'' \<and>
    verify_loop mem_sha mem_ec h' [b] 0 = Some True"
proof -
  from grown_ledger obtain m where m: "files grown_world (makeStoragePath ex_manager 1) = Some m"
    and l: "ledger (env_pb mem_env) m = Some (ex_header\<lparr>hdr_index := 1\<rparr>, [] @ [ex_block])"
    by (auto simp: chain_ledger_def bind_eq_Some_conv)
  have "verify_loop (env_sha mem_env) (env_ec mem_env) (ex_header\<lparr>hdr_index := 1\<rparr>) ([] @ [ex_block]) 0 =
      Some True"
    using grown_sound grown_ledger by (simp add: sound_chain_def verify_loop_verified)
  moreover have "ec_seckey_verify mem_ec (hdr_privateKey ex_header)" by (simp add: mem_ec_def)
  ultimately obtain m' h' b where "ledger mem_pb m' = Some (h', [b])" "c_data (block_data b) = ''forged''"
    "verify_loop mem_sha mem_ec h' [b] 0 = Some True"
    using history_rewritable [OF mem_env_ok mem_env_live l, of "[''forged'']"]
    by (auto simp: ex_header MAX_DATA_LENGTH_def)
  with m l show ?thesis by auto
qed

text \<open>
  C35: exactly when verification crashes.  The loop checks the results of hashing for null except that
  of a block's body: it dereferences a null pointer (\<open>None\<close>) if and only if there is a block up to
  which the chain verifies, whose body cannot be hashed, while the key and the block's signature
  parse.
\<close>

theorem verifyChain_null_dereference:
  "verify_loop S Ec h bs 0 = None \<longleftrightarrow>
    (\<exists>i prev. i < length bs \<and> verified S Ec h (take i bs) \<and> previous S h bs i = Some prev \<and>
       getHash S (signed_part prev (bs ! i)) = None \<and>
       ec_pubkey_parse Ec (hdr_publicKey h) \<noteq> None \<and>
       ecdsa_signature_parse_compact Ec (c_signature (block_data (bs ! i))) \<noteq> None)"
  using verify_loop_None [of 0 bs S Ec h]
  by (auto simp: verified_take null_body_hash_def)

text \<open>A hash function that fails on inputs of 45 bytes, the length of the body of \<open>ex_block\<close>.\<close>

definition failing_sha :: "nat sha_lib" where
  "failing_sha =
     \<lparr>SHA256_Init = Some 0, SHA256_Update = (\<lambda>c d. Some (c + length d)),
      SHA256_Final = (\<lambda>c. if c = 45 then None else Some (data_of_bytes []))\<rparr>"

lemma ex_block_data: "c_data (block_data ex_block) = ''first''"
  using Manager_addBlock_ledger [OF mem_env_ok grown_block created_ledger]
  by (auto simp: ex_header new_block_def)

lemma verifyChain_null_dereference_witness:
  "verify_loop failing_sha mem_ec ex_header [ex_block] 0 = None"
proof -
  have "genesis_hash failing_sha ex_header = Some (data_of_bytes [])"
    by (simp add: genesis_hash_def getHashN_def getHash_def failing_sha_def ex_header numeral_2_eq_2)
  moreover have "getHash failing_sha (signed_part prev ex_block) = None" for prev
    by (simp add: getHash_def signed_part_def failing_sha_def ex_block_data)
  ultimately show ?thesis
    unfolding verifyChain_null_dereference
    by (intro exI [of _ 0]) (simp add: previous_def mem_ec_def)
qed

section \<open>Records and encodings\<close>

text \<open>
  C30: a packed header unpacks to itself, and so does a packed block container: what \<open>create\<close> and
  \<open>addBlock\<close> write is what \<open>getHeader\<close> and \<open>getBlock\<close> read back.
\<close>

theorem pack_roundtrip:
  assumes "pb_ok P"
  shows "(\<forall>h b. Header_pack P h = Some b \<longrightarrow> Header_unpack P b = Some h) \<and>
    (\<forall>c b. Container_pack P c = Some b \<longrightarrow> Container_unpack P b = Some c)"
  using header_codec.dec_enc [OF assms] block_codec.dec_enc [OF assms] by blast

lemma pack_roundtrip_witness:
  "\<exists>b. Header_pack mem_pb full_header = Some b \<and> Header_unpack mem_pb b = Some full_header"
proof -
  obtain b where "Header_pack mem_pb full_header = Some b"
    using Header_pack_live [OF mem_pb_live, of full_header]
    by (auto simp: full_header_def header_new_def)
  with pack_roundtrip [OF mem_pb_ok] show ?thesis by blast
qed

text \<open>
  Unpacking accepts exactly the records whose fixed-size fields have the right size, and then
  takes over every field unchanged.  A record with a short or long key, hash, nonce or signature
  is refused, never padded or cut.
\<close>

lemma unpack_checks_sizes:
  "(case Header_unpack P inbuf of
      Some h \<Rightarrow>
        (\<exists>x. header_Parse P inbuf = Some x \<and> hdr_version h = pbh_version x \<and>
           hdr_index h = pbh_index x \<and> hdr_data h = pbh_data x \<and>
           data_bytes (hdr_privateKey h) = pbh_private_key x \<and>
           data_bytes (hdr_publicKey h) = pbh_public_key x)
    | None \<Rightarrow>
        (case header_Parse P inbuf of None \<Rightarrow> True
         | Some x \<Rightarrow> \<not> (length (pbh_private_key x) = 32 \<and> length (pbh_public_key x) = 33))) \<and>
   (case Container_unpack P inbuf of
      Some c \<Rightarrow>
        (\<exists>x. block_Parse P inbuf = Some x \<and> data_bytes (c_hash c) = pbb_hash x \<and>
           data_bytes (c_prevHash c) = pbb_prev_hash x \<and> data_bytes (c_nonce c) = pbb_nonce x \<and>
           c_data c = pbb_data x \<and> data_bytes (c_signature c) = pbb_signature x)
    | None \<Rightarrow>
        (case block_Parse P inbuf of None \<Rightarrow> True
         | Some x \<Rightarrow> \<not> (length (pbb_hash x) = 32 \<and> length (pbb_prev_hash x) = 32 \<and>
             length (pbb_nonce x) = 8 \<and> length (pbb_signature x) = 64)))"
  by (auto simp: Header_unpack_def Container_unpack_def Let_def split: option.splits)

section \<open>The storage object\<close>






text \<open>
  A write batch is atomic and visible.  \<open>Storage::set\<close> on an open storage either applies all its
  pairs in order or, reporting failure, none of them; after a success a value that \<open>get\<close> returns is
  the one the batch (or an earlier write) left under that key.
\<close>

lemma set_is_atomic:
  assumes "db_ok D V" and "session V p w0 st w m" and "Storage_set D st kvs w = (ok, w')"
  shows "(disk V w' p = Some (apply_puts (map (\<lambda>kv. (kv_key kv, kv_value kv)) kvs) m) \<or>
      \<not> ok \<and> disk V w' p = Some m) \<and>
    (\<forall>q. q \<noteq> p \<longrightarrow> disk V w' q = disk V w0 q) \<and>
    (\<forall>k kv w2. ok \<and> Storage_get D st k w' = (Some kv, w2) \<longrightarrow>
       apply_puts (map (\<lambda>kv. (kv_key kv, kv_value kv)) kvs) m k = Some (kv_value kv))"
proof -
  have "session V p w0 st w' (apply_puts (map (\<lambda>kv. (kv_key kv, kv_value kv)) kvs) m) \<or>
      \<not> ok \<and> session V p w0 st w' m"
    by (rule kv.set_atomic [OF assms])
  moreover have "apply_puts (map (\<lambda>kv. (kv_key kv, kv_value kv)) kvs) m k = Some (kv_value kv)"
    if "ok" "Storage_get D st k w' = (Some kv, w2)" for k kv w2
    using kv.read_your_write [OF assms(1,2) _ that(2)] assms(3) that(1) by simp
  ultimately show ?thesis by (auto simp: session_def)
qed

lemma set_is_atomic_witness:
  "\<exists>st w1 w2. Storage_create mem_db (Storage_new ''db'') empty_world = (True, st, w1) \<and>
    Storage_set mem_db st [\<lparr>kv_key = ''a'', kv_value = ''1''\<rparr>] w1 = (True, w2) \<and>
    files w2 ''db'' = Some [''a'' \<mapsto> ''1'']"
proof -
  obtain st w1 where c: "Storage_create mem_db (Storage_new ''db'') empty_world = (True, st, w1)"
    using Storage_create_live [OF mem_db_live, of "''db''" empty_world] by auto
  note s = Storage_create_session(2) [OF mem_db_ok c]
  obtain w2 where "Storage_set mem_db st [\<lparr>kv_key = ''a'', kv_value = ''1''\<rparr>] w1 = (True, w2)"
    using Storage_set_live [OF mem_db_live s] by blast
  with set_is_atomic [OF mem_db_ok s this] c show ?thesis by auto
qed

text \<open>
  The version of a database is checked on one path only.  For a header of another version
  \<open>addBlock\<close>, \<open>getBlock\<close> and \<open>getBlocks\<close> fail, while the public \<open>getHeader\<close> (and with it the
  services that report headers, keys and counters) returns it.
\<close>

lemma getHeader_skips_version_check:
  assumes "db_ok D V" and "db_live D V" and "chain_path c \<notin> ran (handles V w)"
    and "disk V w (chain_path c) = Some m" and "stored_header P m = Some h"
    and "hdr_version h \<noteq> DB_VERSION"
  shows "(\<exists>w'. Chain_getHeader P D c w = (Some h, w')) \<and>
    \<not> fst (Chain_addBlock P D c b w) \<and> fst (Chain_getBlock P D c n w) = None \<and>
    (\<forall>bs w'. Chain_getBlocks P D c blocks w \<noteq> Some (True, bs, w'))"
proof (intro conjI allI notI)
  show "\<exists>w'. Chain_getHeader P D c w = (Some h, w')" by (rule Chain_getHeader_live [OF assms(1-5)])
  show False if "fst (Chain_addBlock P D c b w)"
    using Chain_addBlock_effect [OF assms(1) surjective_pairing, where P = P and c = c and b = b and w = w] that assms(4-6)
    by (auto simp: appended_def)
  show "fst (Chain_getBlock P D c n w) = None"
    using Chain_getBlock_effect [OF assms(1) surjective_pairing, where P = P and c = c and i = n and w = w] assms(4-6)
    by (cases "fst (Chain_getBlock P D c n w)") auto
  show False if "Chain_getBlocks P D c blocks w = Some (True, bs, w')" for bs w'
    using Chain_getBlocks_returned [OF assms(1) that] assms(4-6) by (auto dest: ledgerD)
qed

definition old_header :: header where
  "old_header = header_new 0 [] (data_of_bytes []) (data_of_bytes [])"

definition old_world :: world where
  "old_world = empty_world\<lparr>files := [''old'' \<mapsto> [DB_HEADER_KEY \<mapsto> the (Header_pack mem_pb old_header)]]\<rparr>"

lemma getHeader_skips_version_check_witness:
  "(\<exists>w'. Chain_getHeader mem_pb mem_db \<lparr>chain_path = ''old''\<rparr> old_world = (Some old_header, w')) \<and>
   fst (Chain_getBlock mem_pb mem_db \<lparr>chain_path = ''old''\<rparr> 1 old_world) = None"
proof -
  let ?m = "[DB_HEADER_KEY \<mapsto> the (Header_pack mem_pb old_header)]"
  obtain b where b: "Header_pack mem_pb old_header = Some b"
    using Header_pack_live [OF mem_pb_live, of old_header]
    by (auto simp: old_header_def header_new_def)
  then have h: "stored_header mem_pb ?m = Some old_header"
    using header_codec.dec_enc [OF mem_pb_ok] by (simp add: stored_header_def)
  have a: "chain_path \<lparr>chain_path = ''old''\<rparr> \<notin> ran (handles mem_view old_world)"
    by (simp add: old_world_def handle_path_def empty_world_def ran_def)
  from getHeader_skips_version_check [OF mem_db_ok mem_db_live a _ h, of ex_block 1 "[]"]
  show ?thesis by (simp add: old_world_def old_header_def header_new_def DB_VERSION_def)
qed

section \<open>The manager as a map\<close>

text \<open>
  C6: without faults the manager is a map from chain numbers to lists of data.  Whatever sequence of
  operations is called, with data within the size limit and fewer than \<open>2^64\<close> blocks in all, on a
  directory that represents a map (an empty one represents the empty map): every operation returns, its result is that of the map's
  operation (creation succeeds exactly if there is no such chain, a block is added exactly if there
  is one, reads return the data in the order of their addition, every chain verifies), and the
  directory represents the resulting map again.
\<close>

theorem manager_refines_map:
  assumes "env_ok E V" and "env_live E V" and "keys_live E"
    and "represents E V M w s" and "list_all command_fits cs"
    and "room s (length cs)"
  shows "\<exists>w'. observe_all E M cs w = Some (fst (map_run cs s), w') \<and>
    represents E V M w' (snd (map_run cs s))"
  by (rule commands_simulated [OF assms])

lemma mem_keys_live: "keys_live mem_env"
  unfolding keys_live_def
proof
  fix w :: world
  obtain out w1 where "Random_random mem_rand 32 True w = ((True, out), w1)"
    using Random_random_live [OF mem_rand_live] by blast
  then show "fst (generatePrivateKey (env_rand mem_env) (env_ec mem_env) w) \<noteq> None"
    by (simp add: generatePrivateKey_def mem_ec_def)
qed

text \<open>The calls of the unit tests of the manager (src/tests/Storage/Manager_test.cpp) on one directory,
  with shorter texts and fewer blocks.\<close>

definition test_calls :: "command list" where
  "test_calls =
     [CreateChain 1 ''car'', CreateChain 1 ''car'', AddBlock 0 ''bike'', AddBlock 1 ''bike'',
      GetBlock 1 0, GetBlock 1 1, GetBlock 1 2, AddBlock 1 ''bus'', GetBlocks 0, GetBlocks 1, GetBlocks 2,
      VerifyChain 1, VerifyChain 2, GetChainHeader 1, GetChainHeader 2, GetChainInfo 1, GetChainInfo 2,
      RemoveChain 1, RemoveChain 1, GetChainInfo 1]"

lemma manager_refines_map_witness:
  "\<exists>w. observe_all mem_env ex_manager test_calls empty_world = Some
     ([Done True, Done False, BlockData None, BlockData (Some ''bike''),
       BlockData None, BlockData (Some ''bike''), BlockData None, BlockData (Some ''bus''),
       AllData None, AllData (Some [''bike'', ''bus'']), AllData None,
       Done True, Done False, HeaderData (Some (DB_VERSION, 2, ''car'')), HeaderData None,
       ChainState (Some (DB_VERSION, 2)), ChainState None,
       Done True, Done True, ChainState None], w)"
proof -
  have "represents mem_env mem_view ex_manager empty_world Map.empty" by (simp add: represents_def)
  moreover have "list_all command_fits test_calls" by (simp add: test_calls_def MAX_DATA_LENGTH_def)
  moreover have "room Map.empty (length test_calls)" by (simp add: test_calls_def)
  ultimately obtain w where "observe_all mem_env ex_manager test_calls empty_world =
      Some (fst (map_run test_calls Map.empty), w)"
    using manager_refines_map [OF mem_env_ok mem_env_live mem_keys_live, of ex_manager empty_world Map.empty]
    by auto
  then show ?thesis by (simp add: test_calls_def)
qed

section \<open>Histories\<close>

text \<open>
  C8: every chain that was created properly verifies for ever.  From a sound chain, any sequence of
  manager operations that does not remove it (on this and other chains, with input/output faults
  on the way) leads to a state where \<open>verifyChain\<close>, run without faults, returns true.
\<close>

theorem history_verifies:
  assumes "env_ok E V" and "env_live E V" and "accessible V M w i"
    and "run_steps (run_command E M) cs w = Some w'" and "\<And>c. c \<in> set cs \<Longrightarrow> \<not> removes_chain c i"
    and "sound_chain E V M w i" and "chain_ledger E V M w i = Some (h, bs)"
    and "length bs + length cs < 2 ^ 64 - 1"
  shows "\<exists>w''. Manager_verifyChain E M i w' = Some (True, w'')"
proof -
  have b: "length bs + length cs < 2 ^ 64" using assms(8) by simp
  obtain h' new where l: "chain_ledger E V M w' i = Some (h', bs @ new)"
    and n: "length new \<le> length cs"
    using mgr.run_append_only [OF assms(1,4) _ assms(7) b] assms(5) by blast
  have "hdr_index h' \<noteq> - 1" using n assms(8) by (intro ledger_bound [OF l]) simp
  moreover have "accessible V M w' i"
    using assms(3) mgr.run_opened [OF assms(1,4)] by (simp add: accessible_def)
  ultimately have "\<exists>w''. Manager_verifyChain E M i w' =
      Some (verified (env_sha E) (env_ec E) h' (bs @ new), w'')"
    by (intro Manager_verifyChain_live [OF assms(1,2) _ l])
  moreover have "sound_chain E V M w' i"
    using mgr.run_sound [OF assms(1,4) _ assms(6)] assms(5) by blast
  ultimately show ?thesis using l by (auto simp: sound_chain_def)
qed

lemma history_verifies_witness:
  "\<exists>w'. Manager_verifyChain mem_env ex_manager 1 grown_world = Some (True, w')"
proof -
  have "run_steps (run_command mem_env ex_manager) [AddBlock 1 ''first''] created_world = Some grown_world"
    by (simp add: grown_world_def)
  from history_verifies [OF mem_env_ok mem_env_live _ this _ created_sound created_ledger]
  show ?thesis by simp
qed

text \<open>
  C36: a create that fails half-way cannot be repeated.  Whatever database \<open>createChain\<close> leaves under
  the chain's path, every later \<open>createChain\<close> refuses it; if it has no header (the write failed after
  the database was made), the chain cannot be read or extended either.
\<close>

theorem leftover_blocks_create:
  assumes "env_ok E V" and "Manager_createChain E M i d w = (None, w1)"
    and "disk V w1 (makeStoragePath M i) = Some m"
  shows "(\<exists>w2. Manager_createChain E M i d' w1 = (None, w2) \<and>
      disk V w2 (makeStoragePath M i) = Some m) \<and>
    (stored_header (env_pb E) m = None \<longrightarrow>
       fst (Manager_getChainHeader E M i w1) = None \<and> fst (Manager_addBlock E M i d' w1) = None)"
proof (intro conjI impI)
  obtain r2 w2 where c: "Manager_createChain E M i d' w1 = (r2, w2)"
    by (cases "Manager_createChain E M i d' w1")
  with Manager_createChain_effect(3) [OF assms(1) c assms(3)]
  show "\<exists>w2. Manager_createChain E M i d' w1 = (None, w2) \<and>
      disk V w2 (makeStoragePath M i) = Some m" by auto
  assume n: "stored_header (env_pb E) m = None"
  obtain h w3 where g: "Manager_getChainHeader E M i w1 = (h, w3)"
    by (cases "Manager_getChainHeader E M i w1")
  with Manager_getChainHeader_effect(2) [OF assms(1) g] assms(3) n
  show "fst (Manager_getChainHeader E M i w1) = None" by (cases h) auto
  obtain b w4 where a: "Manager_addBlock E M i d' w1 = (b, w4)"
    by (cases "Manager_addBlock E M i d' w1")
  with Manager_addBlock_effect [OF assms(1) a] assms(3) n
  show "fst (Manager_addBlock E M i d' w1) = None" by auto
qed

text \<open>The environment in memory with a disk that cannot be written to.\<close>

definition full_disk_env :: "(world, nat, bytes, private_key, hash \<times> private_key) env" where
  "full_disk_env = mem_env\<lparr>env_db := mem_db\<lparr>db_Write := \<lambda>s h batch w. (False, w)\<rparr>\<rparr>"

lemma full_disk_env_simps [simp]:
  "env_db full_disk_env = mem_db\<lparr>db_Write := \<lambda>s h batch w. (False, w)\<rparr>"
  "env_rand full_disk_env = mem_rand" "env_sha full_disk_env = mem_sha"
  "env_ec full_disk_env = mem_ec" "env_pb full_disk_env = mem_pb"
  by (simp_all add: full_disk_env_def)

lemma full_disk_env_ok: "env_ok full_disk_env mem_view"
proof -
  let ?D = "mem_db\<lparr>db_Write := \<lambda>s h batch w. (False, w)\<rparr>"
  have "open_ok ?D mem_view = open_ok mem_db mem_view" "get_ok ?D mem_view = get_ok mem_db mem_view"
    "delete_ok ?D mem_view = delete_ok mem_db mem_view"
    "destroy_ok ?D mem_view = destroy_ok mem_db mem_view"
    by (simp_all only: open_ok_def get_ok_def delete_ok_def destroy_ok_def db_lib.simps
        db_lib.update_convs mem_db_def)
  moreover have "write_ok ?D mem_view" by (simp add: write_ok_def)
  ultimately have "db_ok ?D mem_view" using mem_db_ok by (simp add: db_ok_def)
  then show ?thesis using mem_env_ok by (simp add: env_ok_def)
qed

lemma leftover_blocks_create_witness:
  "\<exists>w1 w2. Manager_createChain full_disk_env ex_manager 1 ''genesis'' empty_world = (None, w1) \<and>
    files w1 (makeStoragePath ex_manager 1) = Some Map.empty \<and>
    Manager_createChain full_disk_env ex_manager 1 ''genesis'' w1 = (None, w2)"
proof -
  let ?p = "makeStoragePath ex_manager 1" and ?D = "env_db full_disk_env"
  obtain out w0 where "Random_random mem_rand 32 True empty_world = ((True, out), w0)"
    using Random_random_live [OF mem_rand_live] by blast
  then have g: "generatePrivateKey mem_rand mem_ec empty_world = (Some (data_of_bytes out), w0)"
    by (simp add: generatePrivateKey_def mem_ec_def)
  obtain pub where pub: "createPublicKey mem_ec (data_of_bytes out) = Some pub"
    by (simp add: createPublicKey_def mem_ec_def)
  have u: "unchanged mem_view empty_world w0"
    using generatePrivateKey_unchanged [OF mem_env_ok] g by simp
  then have "?p \<notin> ran (handles mem_view w0)" and "disk mem_view w0 ?p = None"
    by (simp_all add: unchanged_def)
  then obtain st w1 where c: "Storage_create mem_db (Storage_new ?p) w0 = (True, st, w1)"
    using Storage_create_live [OF mem_db_live] by blast
  then have c': "Storage_create ?D (Storage_new ?p) w0 = (True, st, w1)"
    by (simp add: Storage_create_def)
  note s = Storage_create_session(2) [OF mem_db_ok c]
  obtain b where b: "Header_pack mem_pb (header_new DB_VERSION ''genesis'' (data_of_bytes out) pub) = Some b"
    using Header_pack_live [OF mem_pb_live] by (fastforce simp: header_new_def MAX_DATA_LENGTH_def)
  have "Storage_set ?D st kvs w1 = (False, w1)" for kvs
    by (simp add: Storage_set_def split: option.split)
  moreover have "Storage_dtor ?D st w1 = Storage_dtor mem_db st w1"
    by (simp add: Storage_dtor_def split: option.split)
  ultimately have m: "Manager_createChain full_disk_env ex_manager 1 ''genesis'' empty_world =
      (None, Storage_dtor mem_db st w1)"
    using g pub c' b by (simp add: Manager_createChain_def Chain_create_def scoped_storage_def)
  moreover have "files (Storage_dtor mem_db st w1) ?p = Some Map.empty"
    using kv.finish [OF mem_db_ok s] by simp
  ultimately show ?thesis
    using leftover_blocks_create [OF full_disk_env_ok m, of Map.empty "''genesis''"] by auto
qed

end
