(* ===== verification/Zmq.thy ===== *)
theory Zmq
  imports Message
begin

text \<open>
  The ZeroMQ library as the server and the client see it.  It is not part of the repository: the
  record \<open>zmq_lib\<close> holds its functions on the state \<open>'n\<close> of the network, with their C return codes.
  \<open>'o\<close> is the type of its objects (contexts, sockets, messages), which the code has to release.
\<close>

datatype socket_type = ZMQ_REP | ZMQ_REQ

text \<open>
  \<open>zmq_poll\<close> on one socket returns its code and whether \<open>ZMQ_POLLIN\<close> is among the events.
  \<open>zmq_msg_fill\<close> is \<open>memcpy\<close> into \<open>zmq_msg_data\<close>.  \<open>zmq_ctx_destroy\<close> is \<open>None\<close> in a state in which
  it does not return: it waits until the sockets of the context are closed and, as the code never
  sets \<open>ZMQ_LINGER\<close>, until every message that was sent has been passed on.  It returns -1 when a
  signal interrupts it, and then the context is still there.
\<close>

record ('n, 'o) zmq_lib =
  ZMQ_POLL_MSEC :: int
  zmq_ctx_new :: "'n \<Rightarrow> 'o option \<times> 'n"
  zmq_ctx_destroy :: "'o \<Rightarrow> 'n \<Rightarrow> (int \<times> 'n) option"
  zmq_socket :: "'o \<Rightarrow> socket_type \<Rightarrow> 'n \<Rightarrow> 'o option \<times> 'n"
  zmq_close :: "'o \<Rightarrow> 'n \<Rightarrow> 'n"
  zmq_bind :: "'o \<Rightarrow> string \<Rightarrow> 'n \<Rightarrow> int \<times> 'n"
  zmq_connect :: "'o \<Rightarrow> string \<Rightarrow> 'n \<Rightarrow> int \<times> 'n"
  zmq_poll :: "'o \<Rightarrow> int \<Rightarrow> 'n \<Rightarrow> (int \<times> bool) \<times> 'n"
  zmq_msg_init :: "'n \<Rightarrow> (int \<times> 'o) \<times> 'n"
  zmq_msg_init_size :: "nat \<Rightarrow> 'n \<Rightarrow> (int \<times> 'o) \<times> 'n"
  zmq_msg_fill :: "'o \<Rightarrow> bytes \<Rightarrow> 'n \<Rightarrow> 'n"
  zmq_msg_recv :: "'o \<Rightarrow> 'o \<Rightarrow> 'n \<Rightarrow> int \<times> 'n"
  zmq_msg_send :: "'o \<Rightarrow> 'o \<Rightarrow> 'n \<Rightarrow> int \<times> 'n"
  zmq_msg_data :: "'o \<Rightarrow> 'n \<Rightarrow> bytes"
  zmq_msg_size :: "'o \<Rightarrow> 'n \<Rightarrow> nat"
  zmq_msg_close :: "'o \<Rightarrow> 'n \<Rightarrow> 'n"

section \<open>What the code relies on\<close>

text \<open>
  \<open>live n\<close> is the set of objects that have been created and not released.  A constructor that
  succeeds adds a fresh object, a release removes its argument, everything else leaves the set.
  Closing a socket or a message that exists does not fail; destroying a context may.
\<close>

definition makes :: "('n \<Rightarrow> 'o set) \<Rightarrow> 'n \<Rightarrow> 'o option \<Rightarrow> 'n \<Rightarrow> bool" where
  "makes live n r n' \<longleftrightarrow>
     (case r of None \<Rightarrow> live n' = live n | Some x \<Rightarrow> x \<notin> live n \<and> live n' = insert x (live n))"

definition zmq_objects_ok :: "('n, 'o) zmq_lib \<Rightarrow> ('n \<Rightarrow> 'o set) \<Rightarrow> bool" where
  "zmq_objects_ok Z live \<longleftrightarrow>
     (\<forall>n. makes live n (fst (zmq_ctx_new Z n)) (snd (zmq_ctx_new Z n))) \<and>
     (\<forall>c t n. makes live n (fst (zmq_socket Z c t n)) (snd (zmq_socket Z c t n))) \<and>
     (\<forall>n e x n'. zmq_msg_init Z n = ((e, x), n') \<longrightarrow>
        makes live n (if e = 0 then Some x else None) n') \<and>
     (\<forall>k n e x n'. zmq_msg_init_size Z k n = ((e, x), n') \<longrightarrow>
        makes live n (if e = 0 then Some x else None) n') \<and>
     (\<forall>x n e n'. zmq_ctx_destroy Z x n = Some (e, n') \<longrightarrow>
        live n' = (if e = 0 then live n - {x} else live n)) \<and>
     (\<forall>x n. live (zmq_close Z x n) = live n - {x}) \<and>
     (\<forall>x n. live (zmq_msg_close Z x n) = live n - {x})"

definition zmq_frame_ok :: "('n, 'o) zmq_lib \<Rightarrow> ('n \<Rightarrow> 'o set) \<Rightarrow> bool" where
  "zmq_frame_ok Z live \<longleftrightarrow>
     (\<forall>s e n. live (snd (zmq_bind Z s e n)) = live n) \<and>
     (\<forall>s e n. live (snd (zmq_connect Z s e n)) = live n) \<and>
     (\<forall>s t n. live (snd (zmq_poll Z s t n)) = live n) \<and>
     (\<forall>x b n. live (zmq_msg_fill Z x b n) = live n) \<and>
     (\<forall>x s n. live (snd (zmq_msg_recv Z x s n)) = live n) \<and>
     (\<forall>x s n. live (snd (zmq_msg_send Z x s n)) = live n)"

definition zmq_ok :: "('n, 'o) zmq_lib \<Rightarrow> ('n \<Rightarrow> 'o set) \<Rightarrow> bool" where
  "zmq_ok Z live \<longleftrightarrow> zmq_objects_ok Z live \<and> zmq_frame_ok Z live"

lemma zmq_makes:
  assumes "zmq_ok Z live"
  shows "zmq_ctx_new Z n = (r, n') \<Longrightarrow> makes live n r n'"
    and "zmq_socket Z c t n = (r, n') \<Longrightarrow> makes live n r n'"
    and "zmq_msg_init Z n = ((e, x), n') \<Longrightarrow> makes live n (if e = 0 then Some x else None) n'"
    and "zmq_msg_init_size Z k n = ((e, x), n') \<Longrightarrow> makes live n (if e = 0 then Some x else None) n'"
  using assms by (simp_all add: zmq_ok_def zmq_objects_ok_def) (metis fst_conv snd_conv)+

lemma zmq_releases:
  assumes "zmq_ok Z live"
  shows "live (zmq_close Z x n) = live n - {x}" and "live (zmq_msg_close Z x n) = live n - {x}"
  using assms by (simp_all add: zmq_ok_def zmq_objects_ok_def)

lemma zmq_destroys:
  "zmq_ok Z live \<Longrightarrow> zmq_ctx_destroy Z x n = Some (e, n') \<Longrightarrow>
    live n' = (if e = 0 then live n - {x} else live n)"
  by (simp add: zmq_ok_def zmq_objects_ok_def)

lemma zmq_frames:
  assumes "zmq_ok Z live"
  shows "zmq_bind Z s ep n = (i, n') \<Longrightarrow> live n' = live n"
    and "zmq_connect Z s ep n = (i, n') \<Longrightarrow> live n' = live n"
    and "zmq_poll Z s t n = (pe, n') \<Longrightarrow> live n' = live n"
    and "live (zmq_msg_fill Z x b n) = live n"
    and "zmq_msg_recv Z x s n = (i, n') \<Longrightarrow> live n' = live n"
    and "zmq_msg_send Z x s n = (i, n') \<Longrightarrow> live n' = live n"
  using assms by (simp_all add: zmq_ok_def zmq_frame_ok_def) (metis snd_conv)+

lemma makes_Some [simp]: "makes live n (Some x) n' \<longleftrightarrow> x \<notin> live n \<and> live n' = insert x (live n)"
  and makes_None [simp]: "makes live n None n' \<longleftrightarrow> live n' = live n"
  by (simp_all add: makes_def)

text \<open>
  What a user of the library leaves behind that has made one context on top of the objects \<open>base\<close>,
  has released everything else, and whose last call was \<open>zmq_ctx_destroy\<close> on that context: nothing,
  or the context alone when that call failed.
\<close>

definition cleaned_up ::
  "('n, 'o) zmq_lib \<Rightarrow> ('n \<Rightarrow> 'o set) \<Rightarrow> 'o set \<Rightarrow> 'n \<Rightarrow> bool" where
  "cleaned_up Z live base n' \<longleftrightarrow> live n' = base \<or>
     (\<exists>ctx n e. zmq_ctx_destroy Z ctx n = Some (e, n') \<and> e \<noteq> 0 \<and> ctx \<notin> base \<and>
        live n' = insert ctx base)"

lemma destroy_cleans_up:
  assumes "zmq_ok Z live" and "zmq_ctx_destroy Z ctx n = Some (e, n')"
    and "ctx \<notin> base" and "live n = insert ctx base"
  shows "cleaned_up Z live base n'"
proof (cases "e = 0")
  case True
  with assms(3,4) zmq_destroys [OF assms(1,2)] show ?thesis by (auto simp: cleaned_up_def)
next
  case False
  with assms(4) zmq_destroys [OF assms(1,2)] have "live n' = insert ctx base" by simp
  with assms(2,3) False show ?thesis unfolding cleaned_up_def by blast
qed

end
