(* ===== verification/Server.thy ===== *)
theory Server
  imports Zmq Handler
begin

text \<open>
  \<open>Network::Server\<close> (src/Network/Server/Server.cpp): a thread that answers messages one at a time
  until another thread calls \<open>stop\<close>.  The state of the databases \<open>'d\<close>, which only the handler
  touches, and the state of the network \<open>'n\<close>, which only ZeroMQ touches, are kept apart.
\<close>

record server =
  srv_port :: size_t

definition Server_makeEndpointPath :: "server \<Rightarrow> string" where
  "Server_makeEndpointPath s = ''tcp://*:'' @ to_string (srv_port s)"

definition ZMQ_POOL_TIMEOUT :: int where
  "ZMQ_POOL_TIMEOUT = 5"

section \<open>The thread's function\<close>

text \<open>
  Where the thread is: at the condition of its loop, in the body of the loop, in its last call
  \<open>zmq_ctx_destroy\<close>, or at its end.
\<close>

datatype 'o phase = Serving 'o 'o | Turning 'o 'o | Closing 'o | Finished

text \<open>
  The code after the label \<open>out\<close>, up to the call of \<open>zmq_ctx_destroy\<close>, which may block and is a
  step of its own below.
\<close>

definition process_out :: "('n, 'o) zmq_lib \<Rightarrow> 'o \<Rightarrow> 'o \<Rightarrow> 'n \<Rightarrow> 'o phase \<times> 'n" where
  "process_out Z context socket n = (Closing context, zmq_close Z socket n)"

text \<open>The part of \<open>process\<close> before the loop, with the place that it leads to.\<close>

definition process_start :: "('n, 'o) zmq_lib \<Rightarrow> server \<Rightarrow> 'n \<Rightarrow> 'o phase \<times> 'n" where
  "process_start Z s n =
     (case zmq_ctx_new Z n of
        (None, n) \<Rightarrow> (Finished, n)
      | (Some context, n) \<Rightarrow>
          (case zmq_socket Z context ZMQ_REP n of
             (None, n) \<Rightarrow> (Closing context, n)
           | (Some socket, n) \<Rightarrow>
               let (err, n) = zmq_bind Z socket (Server_makeEndpointPath s) n
               in if err \<noteq> 0 then process_out Z context socket n
                  else (Serving context socket, n)))"

text \<open>
  The body of the loop.  The result is \<open>None\<close> when the handler does not return; otherwise it says
  whether the loop goes on (\<open>False\<close> is \<open>break\<close>) and which messages were handed to the handler.
\<close>

definition process_turn ::
  "('n, 'o) zmq_lib \<Rightarrow> 'd message_handler \<Rightarrow> 'o \<Rightarrow> 'd \<Rightarrow> 'n
     \<Rightarrow> (bool \<times> message list \<times> 'd \<times> 'n) option" where
  "process_turn Z handle socket d n =
     (let ((err, pollin), n) = zmq_poll Z socket (ZMQ_POOL_TIMEOUT * ZMQ_POLL_MSEC Z) n in
      if err = - 1 then Some (False, [], d, n)
      else if pollin then
        let ((err, reqMsg), n) = zmq_msg_init Z n in
        if err \<noteq> 0 then Some (False, [], d, n)
        else
          let (err, n) = zmq_msg_recv Z reqMsg socket n in
          if err = - 1 then
            let n = zmq_msg_close Z reqMsg n in Some (False, [], d, n)
          else
            let req = Message_new (zmq_msg_data Z reqMsg n) (zmq_msg_size Z reqMsg n) in
            case handle req d of
              None \<Rightarrow> None
            | Some (resp, d) \<Rightarrow>
                let n = zmq_msg_close Z reqMsg n in
                (case resp of
                   None \<Rightarrow> Some (True, [req], d, n)
                 | Some resp \<Rightarrow>
                     let ((err, respMsg), n) = zmq_msg_init_size Z (Message_length resp) n in
                     if err \<noteq> 0 then Some (False, [req], d, n)
                     else
                       let n = zmq_msg_fill Z respMsg (take (Message_length resp) (Message_data resp)) n;
                           (err, n) = zmq_msg_send Z respMsg socket n;
                           n = zmq_msg_close Z respMsg n
                       in Some (True, [req], d, n))
      else Some (True, [], d, n))"

text \<open>The ways through the body, with the calls that have been made.\<close>

lemma process_turn_cases:
  assumes t: "process_turn Z handle socket d n = Some (go, log, d', n')"
  obtains
    (quiet) pe where
      "zmq_poll Z socket (ZMQ_POOL_TIMEOUT * ZMQ_POLL_MSEC Z) n = (pe, n')" "log = []" "d' = d"
  | (no_buffer) e n1 e2 req where
      "zmq_poll Z socket (ZMQ_POOL_TIMEOUT * ZMQ_POLL_MSEC Z) n = ((e, True), n1)"
      "zmq_msg_init Z n1 = ((e2, req), n')" "e2 \<noteq> 0" "log = []" "d' = d"
  | (not_received) e n1 req n2 n3 where
      "zmq_poll Z socket (ZMQ_POOL_TIMEOUT * ZMQ_POLL_MSEC Z) n = ((e, True), n1)"
      "zmq_msg_init Z n1 = ((0, req), n2)" "zmq_msg_recv Z req socket n2 = (- 1, n3)"
      "n' = zmq_msg_close Z req n3" "log = []" "d' = d"
  | (no_reply) e n1 req n2 e3 n3 where
      "zmq_poll Z socket (ZMQ_POOL_TIMEOUT * ZMQ_POLL_MSEC Z) n = ((e, True), n1)"
      "zmq_msg_init Z n1 = ((0, req), n2)" "zmq_msg_recv Z req socket n2 = (e3, n3)" "e3 \<noteq> - 1"
      "handle (Message_new (zmq_msg_data Z req n3) (zmq_msg_size Z req n3)) d = Some (None, d')"
      "log = [Message_new (zmq_msg_data Z req n3) (zmq_msg_size Z req n3)]"
      "n' = zmq_msg_close Z req n3"
  | (no_reply_buffer) e n1 req n2 e3 n3 resp e5 x where
      "zmq_poll Z socket (ZMQ_POOL_TIMEOUT * ZMQ_POLL_MSEC Z) n = ((e, True), n1)"
      "zmq_msg_init Z n1 = ((0, req), n2)" "zmq_msg_recv Z req socket n2 = (e3, n3)" "e3 \<noteq> - 1"
      "handle (Message_new (zmq_msg_data Z req n3) (zmq_msg_size Z req n3)) d = Some (Some resp, d')"
      "zmq_msg_init_size Z (length (msg_data resp)) (zmq_msg_close Z req n3) = ((e5, x), n')" "e5 \<noteq> 0"
      "log = [Message_new (zmq_msg_data Z req n3) (zmq_msg_size Z req n3)]"
  | (replied) e n1 req n2 e3 n3 resp x n5 e7 n7 where
      "zmq_poll Z socket (ZMQ_POOL_TIMEOUT * ZMQ_POLL_MSEC Z) n = ((e, True), n1)"
      "zmq_msg_init Z n1 = ((0, req), n2)" "zmq_msg_recv Z req socket n2 = (e3, n3)" "e3 \<noteq> - 1"
      "handle (Message_new (zmq_msg_data Z req n3) (zmq_msg_size Z req n3)) d = Some (Some resp, d')"
      "zmq_msg_init_size Z (length (msg_data resp)) (zmq_msg_close Z req n3) = ((0, x), n5)"
      "zmq_msg_send Z x socket (zmq_msg_fill Z x (msg_data resp) n5) = (e7, n7)"
      "n' = zmq_msg_close Z x n7"
      "log = [Message_new (zmq_msg_data Z req n3) (zmq_msg_size Z req n3)]"
proof -
  obtain e1 pollin n1 where p: "zmq_poll Z socket (ZMQ_POOL_TIMEOUT * ZMQ_POLL_MSEC Z) n =
      ((e1, pollin), n1)" by (cases "zmq_poll Z socket (ZMQ_POOL_TIMEOUT * ZMQ_POLL_MSEC Z) n") auto
  show thesis
  proof (cases "e1 = - 1 \<or> \<not> pollin")
    case True
    with t p have "n' = n1" "log = []" "d' = d" by (auto simp: process_turn_def split: if_splits)
    with p show thesis by (intro quiet) simp_all
  next
    case False
    with p have p': "zmq_poll Z socket (ZMQ_POOL_TIMEOUT * ZMQ_POLL_MSEC Z) n = ((e1, True), n1)"
      by simp
    obtain e2 req n2 where i: "zmq_msg_init Z n1 = ((e2, req), n2)"
      by (cases "zmq_msg_init Z n1") auto
    obtain e3 n3 where r: "zmq_msg_recv Z req socket n2 = (e3, n3)"
      by (cases "zmq_msg_recv Z req socket n2")
    let ?m = "Message_new (zmq_msg_data Z req n3) (zmq_msg_size Z req n3)"
    show thesis
    proof (cases "e2 = 0 \<and> e3 \<noteq> - 1")
      case not_got: False
      with t p' i r False no_buffer [OF p'] not_received [OF p'] show thesis
        by (auto simp: process_turn_def split: if_splits)
    next
      case True
      note got = p' i [unfolded True [THEN conjunct1]] r True [THEN conjunct2]
      obtain resp d1 where h: "handle ?m d = Some (resp, d1)"
        using t False got by (auto simp: process_turn_def Let_def split: option.splits)
      show thesis
      proof (cases resp)
        case None
        with t False got h no_reply [OF got] show thesis by (simp add: process_turn_def)
      next
        case (Some m)
        obtain e5 x n5 where j: "zmq_msg_init_size Z (length (msg_data m)) (zmq_msg_close Z req n3) =
            ((e5, x), n5)"
          by (cases "zmq_msg_init_size Z (length (msg_data m)) (zmq_msg_close Z req n3)") auto
        obtain e7 n7 where k: "zmq_msg_send Z x socket (zmq_msg_fill Z x (msg_data m) n5) = (e7, n7)"
          by (cases "zmq_msg_send Z x socket (zmq_msg_fill Z x (msg_data m) n5)")
        from t False got h Some j k no_reply_buffer [OF got] replied [OF got] show thesis
          by (auto simp: process_turn_def Let_def Message_data_def Message_length_def split: if_splits)
      qed
    qed
  qed
qed

section \<open>The server as a state machine\<close>

text \<open>
  \<open>_isStopped\<close> is an atomic flag that is set while the server runs: \<open>stop\<close> clears it, the loop
  condition \<open>test_and_set\<close> reads and sets it.  The test is a step of the thread and the body of the
  loop another, so that a \<open>stop\<close> between the two is seen only after the body, which may still handle
  a message.  The body itself does not read the flag: a \<open>stop\<close> while it runs has the effect of one
  just before or after it.
\<close>

record ('d, 'n, 'o) server_state =
  isStopped :: bool
  phase :: "'o phase"
  databases :: 'd
  network :: 'n

text \<open>The state when the thread has run the part before the loop; the constructor sets the flag.\<close>

definition Server_start :: "('n, 'o) zmq_lib \<Rightarrow> server \<Rightarrow> 'd \<Rightarrow> 'n \<Rightarrow> ('d, 'n, 'o) server_state" where
  "Server_start Z s d n =
     (let (ph, n) = process_start Z s n
      in \<lparr>isStopped = True, phase = ph, databases = d, network = n\<rparr>)"

definition Server_stop :: "('d, 'n, 'o) server_state \<Rightarrow> ('d, 'n, 'o) server_state" where
  "Server_stop s = s\<lparr>isStopped := False\<rparr>"

text \<open>One step of the thread, or a call of \<open>stop\<close> by another; the label is what was handled.\<close>

inductive server_step ::
  "('n, 'o) zmq_lib \<Rightarrow> 'd message_handler \<Rightarrow> ('d, 'n, 'o) server_state \<Rightarrow> message list
     \<Rightarrow> ('d, 'n, 'o) server_state \<Rightarrow> bool"
  for Z :: "('n, 'o) zmq_lib" and handle :: "'d message_handler" where
  enter: "phase s = Serving context socket \<Longrightarrow> isStopped s \<Longrightarrow>
    server_step Z handle s [] (s\<lparr>phase := Turning context socket\<rparr>)"
| turn: "phase s = Turning context socket \<Longrightarrow>
    process_turn Z handle socket (databases s) (network s) = Some (True, log, d, n) \<Longrightarrow>
    server_step Z handle s log (s\<lparr>phase := Serving context socket, databases := d, network := n\<rparr>)"
| broken: "phase s = Turning context socket \<Longrightarrow>
    process_turn Z handle socket (databases s) (network s) = Some (False, log, d, n) \<Longrightarrow>
    process_out Z context socket n = (ph, n') \<Longrightarrow>
    server_step Z handle s log (s\<lparr>phase := ph, databases := d, network := n'\<rparr>)"
| leave: "phase s = Serving context socket \<Longrightarrow> \<not> isStopped s \<Longrightarrow>
    process_out Z context socket (network s) = (ph, n) \<Longrightarrow>
    server_step Z handle s [] (s\<lparr>isStopped := True, phase := ph, network := n\<rparr>)"
| destroyed: "phase s = Closing context \<Longrightarrow> zmq_ctx_destroy Z context (network s) = Some (err, n) \<Longrightarrow>
    server_step Z handle s [] (s\<lparr>phase := Finished, network := n\<rparr>)"
| stop: "server_step Z handle s [] (Server_stop s)"

inductive server_runs ::
  "('n, 'o) zmq_lib \<Rightarrow> 'd message_handler \<Rightarrow> ('d, 'n, 'o) server_state \<Rightarrow> message list
     \<Rightarrow> ('d, 'n, 'o) server_state \<Rightarrow> bool"
  for Z :: "('n, 'o) zmq_lib" and handle :: "'d message_handler" where
  here: "server_runs Z handle s [] s"
| more: "server_runs Z handle s log s' \<Longrightarrow> server_step Z handle s' log' s'' \<Longrightarrow>
    server_runs Z handle s (log @ log') s''"

inductive_cases server_stepE: "server_step Z handle s log s'"

text \<open>How the loop is reached.\<close>

lemma serving_start:
  assumes "phase (Server_start Z srv d n) = Serving ctx S"
  obtains n1 n2 where "zmq_ctx_new Z n = (Some ctx, n1)" "zmq_socket Z ctx ZMQ_REP n1 = (Some S, n2)"
    "zmq_bind Z S (Server_makeEndpointPath srv) n2 = (0, network (Server_start Z srv d n))"
  using assms
  by (auto simp: Server_start_def process_start_def process_out_def split: prod.splits option.splits if_splits)

lemma start_not_turning: "phase (Server_start Z srv d n) \<noteq> Turning ctx S"
  by (auto simp: Server_start_def process_start_def process_out_def split: prod.splits option.splits if_splits)

section \<open>What the databases see\<close>

text \<open>The handler as a step on the databases.\<close>

definition handled :: "'d message_handler \<Rightarrow> message \<Rightarrow> 'd \<Rightarrow> 'd option" where
  "handled handle m d = map_option snd (handle m d)"

lemma process_turn_databases:
  assumes "process_turn Z handle socket d n = Some (go, log, d', n')"
  shows "run_steps (handled handle) log d = Some d' \<and> length log \<le> 1"
  using assms unfolding process_turn_def Let_def
  by (auto simp: handled_def split: prod.splits if_splits option.splits)

lemma server_step_databases:
  assumes "server_step Z handle s log s'"
  shows "run_steps (handled handle) log (databases s) = Some (databases s')"
  using assms by (elim server_stepE) (auto simp: Server_stop_def dest: process_turn_databases)

lemma server_runs_databases:
  "server_runs Z handle s log s' \<Longrightarrow>
    run_steps (handled handle) log (databases s) = Some (databases s')"
  by (induction rule: server_runs.induct)
    (simp_all add: run_steps_append server_step_databases)

section \<open>Release of network objects\<close>

lemma process_turn_objects:
  assumes ok: "zmq_ok Z live" and t: "process_turn Z handle socket d n = Some (go, log, d', n')"
  shows "live n' = live n"
proof -
  note facts = zmq_frames [OF ok] zmq_makes [OF ok]
  have got: "live (zmq_msg_close Z req n3) = live n"
    if "zmq_poll Z socket (ZMQ_POOL_TIMEOUT * ZMQ_POLL_MSEC Z) n = (pe, n1)"
      "zmq_msg_init Z n1 = ((0, req), n2)" "zmq_msg_recv Z req socket n2 = (e, n3)"
    for pe n1 req n2 e n3
    using facts(3) [OF that(1)] facts(9) [OF that(2)] facts(5) [OF that(3)]
    by (simp add: zmq_releases(2) [OF ok])
  from t show ?thesis
  proof (cases rule: process_turn_cases)
    case (quiet pe)
    from facts(3) [OF this(1)] show ?thesis .
  next
    case (no_buffer e n1 e2 req)
    with facts(3) [OF no_buffer(1)] facts(9) [OF no_buffer(2)] show ?thesis by simp
  next
    case (not_received e n1 req n2 n3)
    with got [OF not_received(1-3)] show ?thesis by simp
  next
    case (no_reply e n1 req n2 e3 n3)
    with got [OF no_reply(1-3)] show ?thesis by simp
  next
    case (no_reply_buffer e n1 req n2 e3 n3 resp e5 x)
    with got [OF no_reply_buffer(1-3)] facts(10) [OF no_reply_buffer(6)] show ?thesis by simp
  next
    case (replied e n1 req n2 e3 n3 resp x n5 e7 n7)
    with got [OF replied(1-3)] facts(10) [OF replied(6)] facts(6) [OF replied(7)]
      facts(4) [of x "msg_data resp" n5] show ?thesis
      by (simp add: zmq_releases(2) [OF ok])
  qed
qed

text \<open>What is held in a state, on top of the objects \<open>base\<close> that existed before.\<close>

definition holds_objects ::
  "('n, 'o) zmq_lib \<Rightarrow> ('n \<Rightarrow> 'o set) \<Rightarrow> 'o set \<Rightarrow> ('d, 'n, 'o) server_state \<Rightarrow> bool" where
  "holds_objects Z live base s \<longleftrightarrow>
     (case phase s of
        Finished \<Rightarrow> cleaned_up Z live base (network s)
      | Closing context \<Rightarrow> context \<notin> base \<and> live (network s) = insert context base
      | Serving context socket \<Rightarrow>
          context \<notin> base \<and> socket \<notin> insert context base \<and>
          live (network s) = insert socket (insert context base)
      | Turning context socket \<Rightarrow>
          context \<notin> base \<and> socket \<notin> insert context base \<and>
          live (network s) = insert socket (insert context base))"

lemma process_out_objects:
  assumes "zmq_ok Z live" and "process_out Z context socket n = (ph, n')"
    and "context \<notin> base" and "socket \<notin> insert context base"
    and "live n = insert socket (insert context base)"
  shows "ph = Closing context \<and> live n' = insert context base"
  using assms zmq_releases(1) [OF assms(1), of socket n] by (auto simp: process_out_def)

lemma Server_start_objects:
  assumes ok: "zmq_ok Z live"
  shows "holds_objects Z live (live n) (Server_start Z srv d n)"
proof -
  note makes = zmq_makes [OF ok]
  obtain c n1 where c: "zmq_ctx_new Z n = (c, n1)" by (cases "zmq_ctx_new Z n")
  show ?thesis
  proof (cases c)
    case None
    with c makes(1) [OF c] show ?thesis
      by (simp add: Server_start_def process_start_def holds_objects_def cleaned_up_def)
  next
    case (Some ctx)
    note f1 = makes(1) [OF c, unfolded Some]
    obtain k n2 where k: "zmq_socket Z ctx ZMQ_REP n1 = (k, n2)"
      by (cases "zmq_socket Z ctx ZMQ_REP n1")
    show ?thesis
    proof (cases k)
      case None
      with c Some k makes(2) [OF k] f1 show ?thesis
        by (simp add: Server_start_def process_start_def holds_objects_def)
    next
      case sk: (Some socket)
      note f2 = makes(2) [OF k, unfolded sk]
      obtain e n3 where b: "zmq_bind Z socket (Server_makeEndpointPath srv) n2 = (e, n3)"
        by (cases "zmq_bind Z socket (Server_makeEndpointPath srv) n2")
      with c Some k sk f1 f2 zmq_frames(1) [OF ok b] zmq_releases(1) [OF ok, of socket n3] show ?thesis
        by (auto simp: Server_start_def process_start_def process_out_def holds_objects_def)
    qed
  qed
qed

lemma server_step_objects:
  assumes ok: "zmq_ok Z live" and st: "server_step Z handle s log s'" and h: "holds_objects Z live base s"
  shows "holds_objects Z live base s'"
  using st
proof (cases rule: server_step.cases)
  case (enter ctx socket)
  with h show ?thesis by (simp add: holds_objects_def)
next
  case (turn ctx socket d n)
  with h process_turn_objects [OF ok turn(3)] show ?thesis by (simp add: holds_objects_def)
next
  case (broken ctx socket d n ph n')
  with h process_turn_objects [OF ok broken(3)] process_out_objects [OF ok broken(4), of base]
  show ?thesis by (simp add: holds_objects_def)
next
  case (leave ctx socket ph n)
  with h process_out_objects [OF ok leave(5), of base] show ?thesis by (simp add: holds_objects_def)
next
  case (destroyed ctx err n)
  with h destroy_cleans_up [OF ok destroyed(4), of base] show ?thesis by (simp add: holds_objects_def)
next
  case stop
  with h show ?thesis by (simp add: holds_objects_def Server_stop_def split: phase.splits)
qed

lemma server_runs_objects:
  "server_runs Z handle s log s' \<Longrightarrow> zmq_ok Z live \<Longrightarrow> holds_objects Z live base s \<Longrightarrow>
    holds_objects Z live base s'"
  by (induction rule: server_runs.induct) (auto intro: server_step_objects)

section \<open>Stopping\<close>

text \<open>
  After \<open>stop\<close> the thread can finish the turn it is in, leave the loop and destroy its context, and
  nothing else: \<open>remaining\<close> counts these steps.
\<close>

fun remaining :: "'o phase \<Rightarrow> nat" where
  "remaining (Turning context socket) = 3"
| "remaining (Serving context socket) = 2"
| "remaining (Closing context) = 1"
| "remaining Finished = 0"

fun in_turn :: "'o phase \<Rightarrow> bool" where
  "in_turn (Turning context socket) = True"
| "in_turn ph = False"

definition stopping :: "('d, 'n, 'o) server_state \<Rightarrow> bool" where
  "stopping s \<longleftrightarrow> \<not> isStopped s \<or> remaining (phase s) \<le> 1"

lemma stopped_step:
  assumes "server_step Z handle s log s'" and "stopping s"
  shows "stopping s' \<and> (log \<noteq> [] \<longrightarrow> in_turn (phase s)) \<and> (in_turn (phase s') \<longrightarrow> in_turn (phase s) \<and> log = []) \<and>
    (s' = Server_stop s \<or> remaining (phase s') < remaining (phase s))"
  using assms by (elim server_stepE) (auto simp: stopping_def Server_stop_def process_out_def)

lemma stopped_runs:
  "server_runs Z handle s log s' \<Longrightarrow> stopping s \<Longrightarrow>
    stopping s' \<and> length log \<le> 1 \<and> (log \<noteq> [] \<longrightarrow> in_turn (phase s)) \<and>
    (in_turn (phase s') \<longrightarrow> in_turn (phase s) \<and> log = [])"
proof (induction rule: server_runs.induct)
  case (here s)
  then show ?case by simp
next
  case (more s log s' log' s'')
  have "length log' \<le> 1"
    using more.hyps(2) by (elim server_stepE) (auto dest: process_turn_databases)
  with more stopped_step [OF more.hyps(2)] show ?case by (cases "log = []") auto
qed

text \<open>The next step of a thread that is to stop; a turn needs a handler that returns.\<close>

lemma stopped_advances:
  assumes "stopping s" and "remaining (phase s) > 0"
    and "\<And>context. phase s = Closing context \<Longrightarrow> zmq_ctx_destroy Z context (network s) \<noteq> None"
    and "\<And>context socket. phase s = Turning context socket \<Longrightarrow>
      process_turn Z handle socket (databases s) (network s) \<noteq> None"
  shows "\<exists>log s'. server_step Z handle s log s' \<and> remaining (phase s') < remaining (phase s)"
proof (cases "phase s")
  case (Serving ctx S)
  with assms(1) have "\<not> isStopped s" by (simp add: stopping_def)
  from server_step.leave [OF Serving this process_out_def, of Z handle] Serving show ?thesis by fastforce
next
  case (Turning ctx S)
  with assms(4) obtain go log d n
    where t: "process_turn Z handle S (databases s) (network s) = Some (go, log, d, n)" by fastforce
  show ?thesis
  proof (cases go)
    case True
    with server_step.turn [OF Turning, of Z handle log d n] t Turning show ?thesis by fastforce
  next
    case False
    with server_step.broken [OF Turning _ process_out_def, of Z handle log d n] t Turning
    show ?thesis by fastforce
  qed
next
  case (Closing ctx)
  with assms(3) obtain e n where "zmq_ctx_destroy Z ctx (network s) = Some (e, n)" by fastforce
  from server_step.destroyed [OF Closing this] Closing show ?thesis by fastforce
next
  case Finished
  with assms(2) show ?thesis by simp
qed

end
