(* ===== verification/Arguments.thy ===== *)
theory Arguments
  imports Prelude "HOL-Library.List_Lexorder" "HOL-Library.Char_ord"
begin

text \<open>
  \<open>System::IApplication\<close> (src/System/IApplication.cpp): the command line \<open>--key value ...\<close> of both
  programs.  A handler map binds keys to pointers into the application object; a pointer is
  modelled by the update of the field it points to.
\<close>

section \<open>std::stoi\<close>

text \<open>
  The C++ library function in base 10: white space, an optional sign and the longest sequence of
  digits.  It throws \<open>invalid_argument\<close> without a digit and \<open>out_of_range\<close> when the number is not an
  \<open>int\<close>; what follows the digits is ignored.
\<close>

datatype stoi_result =
  Invalid_argument
| Out_of_range
| Value int

definition is_space :: "char \<Rightarrow> bool" where
  "is_space c \<longleftrightarrow> (let n = of_char c :: nat in n = 32 \<or> 9 \<le> n \<and> n \<le> 13)"

definition stoi :: "string \<Rightarrow> stoi_result" where
  "stoi str =
     (let s = dropWhile is_space str;
          negative = (case s of c # _ \<Rightarrow> c = CHR ''-'' | [] \<Rightarrow> False);
          s = (case s of c # s' \<Rightarrow> if c = CHR ''-'' \<or> c = CHR ''+'' then s' else s | [] \<Rightarrow> s);
          digits = takeWhile is_digit s;
          n = int (decimal_value digits);
          n = (if negative then - n else n)
      in if digits = [] then Invalid_argument
         else if n < - (2 ^ 31) \<or> 2 ^ 31 - 1 < n then Out_of_range
         else Value n)"

section \<open>The class\<close>

datatype 's arg_data =
  BoolPtr "bool \<Rightarrow> 's \<Rightarrow> 's"
| IntPtr "int \<Rightarrow> 's \<Rightarrow> 's"
| StringPtr "string \<Rightarrow> 's \<Rightarrow> 's"

type_synonym 's handler_map = "(string \<times> 's arg_data) list"

datatype output_line = Cout string | Cerr string

fun type_name :: "'s arg_data \<Rightarrow> string" where
  "type_name (BoolPtr f) = ''bool''"
| "type_name (IntPtr f) = ''int''"
| "type_name (StringPtr f) = ''string''"

text \<open>A \<open>std::map\<close> is traversed in the order of its keys.\<close>

definition printHelp :: "'s handler_map \<Rightarrow> output_line list" where
  "printHelp handlers =
     Cout ''Usage:'' #
     map (\<lambda>(key, data). Cout (key @ '' '' @ type_name data)) (sort_key fst handlers)"

text \<open>
  The result of \<open>parseArgs\<close>: it returns a flag, or \<open>std::out_of_range\<close>, which it does not catch,
  leaves it.
\<close>

datatype parse_result = Returned bool | Threw_out_of_range

text \<open>The loop over the arguments from \<open>argv[i]\<close> on, with the fields assigned and the lines printed.\<close>

fun parse_from :: "'s handler_map \<Rightarrow> string list \<Rightarrow> 's \<Rightarrow> parse_result \<times> 's \<times> output_line list" where
  "parse_from handlers [] s = (Returned True, s, [])"
| "parse_from handlers [key] s =
     (Returned False, s,
      Cerr (''Key \"'' @ key @ ''\" must have an argument'') # printHelp handlers)"
| "parse_from handlers (key # val # args) s =
     (case map_of handlers key of
        Some (BoolPtr assign) \<Rightarrow> parse_from handlers args (assign (val = ''true'') s)
      | Some (IntPtr assign) \<Rightarrow>
          (case stoi val of
             Invalid_argument \<Rightarrow>
               (Returned False, s,
                Cerr (''Invalid data for key \"'' @ key @ ''\"'') # printHelp handlers)
           | Out_of_range \<Rightarrow> (Threw_out_of_range, s, [])
           | Value n \<Rightarrow> parse_from handlers args (assign n s))
      | Some (StringPtr assign) \<Rightarrow> parse_from handlers args (assign val s)
      | None \<Rightarrow>
          (Returned False, s,
           Cerr (''Key \"'' @ key @ ''\" is not supported'') # printHelp handlers))"

text \<open>\<open>argv[0]\<close> is the name of the program.\<close>

definition parseArgs ::
  "string list \<Rightarrow> 's handler_map \<Rightarrow> 's \<Rightarrow> parse_result \<times> 's \<times> output_line list" where
  "parseArgs argv handlers s = parse_from handlers (drop 1 argv) s"

section \<open>Reading numbers\<close>

lemma is_digit_not_space: "is_digit c \<Longrightarrow> \<not> is_space c"
  by (auto simp: is_digit_def is_space_def Let_def)

lemma is_digit_not_sign: "is_digit c \<Longrightarrow> c \<noteq> CHR ''-'' \<and> c \<noteq> CHR ''+''"
  by (auto simp: is_digit_def)

text \<open>The decimal notation of an integer, as \<open>std::to_string\<close> on \<open>int\<close> prints it.\<close>

definition int_to_string :: "int \<Rightarrow> string" where
  "int_to_string n = (if n < 0 then ''-'' @ digits_of (nat (- n)) else digits_of (nat n))"

lemma takeWhile_digits: "takeWhile is_digit (digits_of n) = digits_of n"
  using digits_of_all_digits by (simp add: takeWhile_eq_all_conv)

lemma digits_of_Cons: obtains c s where "digits_of n = c # s" "is_digit c"
  by (metis digits_of_all_digits digits_of_not_Nil list.set_intros(1) neq_Nil_conv)

lemma dropWhile_digits: "dropWhile is_space (digits_of n) = digits_of n"
  using digits_of_Cons [of n] is_digit_not_space by (metis dropWhile.simps(2))

lemma digits_of_no_sign:
  "(case digits_of n of c # _ \<Rightarrow> c = CHR ''-'' | [] \<Rightarrow> False) = False"
  "(case digits_of n of c # s' \<Rightarrow> if c = CHR ''-'' \<or> c = CHR ''+'' then s' else digits_of n
     | [] \<Rightarrow> digits_of n) = digits_of n"
proof -
  obtain c s where c: "digits_of n = c # s" "is_digit c" by (rule digits_of_Cons)
  with is_digit_not_sign show "(case digits_of n of c # _ \<Rightarrow> c = CHR ''-'' | [] \<Rightarrow> False) = False"
    "(case digits_of n of c # s' \<Rightarrow> if c = CHR ''-'' \<or> c = CHR ''+'' then s' else digits_of n
       | [] \<Rightarrow> digits_of n) = digits_of n"
    unfolding c(1) by simp_all
qed

lemma stoi_int_to_string:
  "stoi (int_to_string n) = (if n < - (2 ^ 31) \<or> 2 ^ 31 - 1 < n then Out_of_range else Value n)"
proof (cases "n < 0")
  case True
  then have "int_to_string n = CHR ''-'' # digits_of (nat (- n))" by (simp add: int_to_string_def)
  moreover have "\<not> is_space (CHR ''-'')" by (simp add: is_space_def)
  ultimately show ?thesis using True by (simp add: stoi_def takeWhile_digits Let_def)
next
  case False
  then have "int_to_string n = digits_of (nat n)" by (simp add: int_to_string_def)
  then show ?thesis
    using False
    by (simp add: stoi_def takeWhile_digits dropWhile_digits digits_of_no_sign Let_def)
qed

lemma stoi_no_digit:
  assumes "\<And>c. c \<in> set str \<Longrightarrow> \<not> is_digit c"
  shows "stoi str = Invalid_argument"
proof -
  have none: "(\<And>c. c \<in> set s \<Longrightarrow> \<not> is_digit c) \<Longrightarrow> takeWhile is_digit s = []" for s
    by (cases s) auto
  have signed: "(\<And>c. c \<in> set s \<Longrightarrow> \<not> is_digit c) \<Longrightarrow>
      takeWhile is_digit (case s of c # s' \<Rightarrow> if c = CHR ''-'' \<or> c = CHR ''+'' then s' else s
        | [] \<Rightarrow> s) = []" for s
    by (cases s) (auto simp: none)
  have "\<And>c. c \<in> set (dropWhile is_space str) \<Longrightarrow> \<not> is_digit c"
    using assms set_dropWhileD by metis
  from signed [OF this] show ?thesis by (simp only: stoi_def Let_def if_True simp_thms)
qed

end
