(* ===== verification/Service.thy ===== *)
theory Service
  imports Server Arguments
begin

text \<open>
  The service program: \<open>System::IService\<close> (src/System/IService.cpp), \<open>ChainDB\<close> (src/ChainDB.cpp) and
  \<open>main\<close> (src/Main.cpp).  POSIX and the logging library are records of functions on the state of the
  outside world; the signal handler runs in another context than the server thread and only calls
  \<open>stop\<close>.
\<close>

section \<open>Becoming a daemon\<close>

record 'w posix_lib =
  posix_fork :: "'w \<Rightarrow> int \<times> 'w"
  posix_setsid :: "'w \<Rightarrow> 'w"
  posix_open :: "string \<Rightarrow> 'w \<Rightarrow> int \<times> 'w"
  posix_dup2 :: "int \<Rightarrow> int \<Rightarrow> 'w \<Rightarrow> 'w"
  posix_close :: "int \<Rightarrow> 'w \<Rightarrow> 'w"
  posix_signal :: "int \<Rightarrow> 'w \<Rightarrow> 'w"
  rotating_file_sink :: "string \<Rightarrow> nat \<Rightarrow> nat \<Rightarrow> 'w \<Rightarrow> bool \<times> 'w"

definition STDERR_FILENO :: int where
  "STDERR_FILENO = 2"

text \<open>
  \<open>False\<close> when the process has called \<open>exit(0)\<close>: the parent of a successful fork, but also the only
  process when \<open>fork\<close> fails and returns -1.
\<close>

definition daemonize :: "'w posix_lib \<Rightarrow> 'w \<Rightarrow> bool \<times> 'w" where
  "daemonize X w =
     (let (pid, w) = posix_fork X w in
      if pid \<noteq> 0 then (False, w)
      else
        let w = posix_setsid X w;
            (fd, w) = posix_open X ''/dev/null'' w in
        if fd \<noteq> - 1 then
          let w = posix_dup2 X fd 0 w;
              w = posix_dup2 X fd 1 w;
              w = posix_dup2 X fd STDERR_FILENO w
          in if fd > STDERR_FILENO then (True, posix_close X fd w) else (True, w)
        else (True, w))"

section \<open>The class\<close>

record chaindb =
  svc_daemonize :: bool
  svc_logPath :: string
  svc_storageDir :: string
  svc_password :: string
  svc_serverPort :: int
  svc_server :: "server option"

definition ChainDB_new :: chaindb where
  "ChainDB_new =
     \<lparr>svc_daemonize = True, svc_logPath = ''chain_db_service.log'', svc_storageDir = '''',
      svc_password = '''', svc_serverPort = 8888, svc_server = None\<rparr>"

definition ChainDB_handlers :: "chaindb handler_map" where
  "ChainDB_handlers =
     [(''--daemonize'', BoolPtr (\<lambda>v c. c\<lparr>svc_daemonize := v\<rparr>)),
      (''--log-path'', StringPtr (\<lambda>v c. c\<lparr>svc_logPath := v\<rparr>)),
      (''--storage-path'', StringPtr (\<lambda>v c. c\<lparr>svc_storageDir := v\<rparr>)),
      (''--password'', StringPtr (\<lambda>v c. c\<lparr>svc_password := v\<rparr>)),
      (''--port'', IntPtr (\<lambda>v c. c\<lparr>svc_serverPort := v\<rparr>))]"

definition SIGINT :: int where "SIGINT = 2"
definition SIGTERM :: int where "SIGTERM = 15"

definition initializeSignalHandler :: "'w posix_lib \<Rightarrow> 'w \<Rightarrow> 'w" where
  "initializeSignalHandler X w = posix_signal X SIGTERM (posix_signal X SIGINT w)"

text \<open>
  The constructor of the rotating file sink opens the log file and throws when it cannot: the flag
  is false then.  The rest of the function only configures the library.
\<close>

definition initializeLogger :: "'w posix_lib \<Rightarrow> chaindb \<Rightarrow> 'w \<Rightarrow> bool \<times> 'w" where
  "initializeLogger X c w =
     rotating_file_sink X (svc_logPath c) LOG_MAX_FILE_SIZE LOG_MAX_FILE_COUNT w"

definition initializeRandomGenerator :: "'w rand_lib \<Rightarrow> 'w \<Rightarrow> bool \<times> 'w" where
  "initializeRandomGenerator R w =
     (if \<not> Random_status R w then (False, w)
      else
        let (ok, w) = Random_poll R w
        in if \<not> ok then (False, w) else (True, w))"

text \<open>How \<open>initialize\<close> ends: it returns, the process exits, or an exception leaves it.\<close>

datatype init_result = Initialized bool | Exited | Threw

definition ChainDB_initialize ::
  "'w posix_lib \<Rightarrow> 'w rand_lib \<Rightarrow> string list \<Rightarrow> chaindb \<Rightarrow> 'w \<Rightarrow> init_result \<times> chaindb \<times> 'w" where
  "ChainDB_initialize X R argv c w =
     (let w = initializeSignalHandler X w;
          (parsed, c, out) = parseArgs argv ChainDB_handlers c in
      case parsed of
        Threw_out_of_range \<Rightarrow> (Threw, c, w)
      | Returned ok \<Rightarrow>
          if \<not> ok then (Initialized False, c, w)
          else
            let (alive, w) = (if svc_daemonize c then daemonize X w else (True, w)) in
            if \<not> alive then (Exited, c, w)
            else
              let (opened, w) = initializeLogger X c w in
              if \<not> opened then (Threw, c, w)
              else
                let (ok, w) = initializeRandomGenerator R w
                in if \<not> ok then (Initialized False, c, w) else (Initialized True, c, w))"

section \<open>Running\<close>

text \<open>The manager, the handler and the server that \<open>run\<close> makes; the port becomes a \<open>size_t\<close>.\<close>

definition ChainDB_handler :: "chaindb \<Rightarrow> handler" where
  "ChainDB_handler c =
     \<lparr>hdl_manager = \<lparr>storageDir = svc_storageDir c\<rparr>, hdl_password = svc_password c\<rparr>"

definition ChainDB_server :: "chaindb \<Rightarrow> server" where
  "ChainDB_server c = \<lparr>srv_port = word_of_int (svc_serverPort c)\<rparr>"

text \<open>
  \<open>run\<close> from the creation of the server to the return of \<open>join\<close>: it returns true, in the state
  \<open>s\<close>, when the server thread started from the databases \<open>d\<close> and the network \<open>n\<close> has finished.
\<close>

inductive ChainDB_run ::
  "('n, 'o) zmq_lib \<Rightarrow> ('d, 'h, 'c, 'pk, 'sg) env \<Rightarrow> chaindb \<Rightarrow> 'd \<Rightarrow> 'n \<Rightarrow> message list
     \<Rightarrow> ('d, 'n, 'o) server_state \<Rightarrow> bool \<Rightarrow> bool"
  for Z :: "('n, 'o) zmq_lib" and E :: "('d, 'h, 'c, 'pk, 'sg) env" and c d n where
  joined: "server_runs Z (handleMessage E (ChainDB_handler c))
      (Server_start Z (ChainDB_server c) d n) log s \<Longrightarrow>
    phase s = Finished \<Longrightarrow> ChainDB_run Z E c d n log s True"

text \<open>\<open>stop\<close> and the signal handler, on the state of the server if there is one.\<close>

definition ChainDB_stop :: "('d, 'n, 'o) server_state option \<Rightarrow> ('d, 'n, 'o) server_state option" where
  "ChainDB_stop server = map_option Server_stop server"

definition signalHandler ::
  "int \<Rightarrow> ('d, 'n, 'o) server_state option \<Rightarrow> ('d, 'n, 'o) server_state option" where
  "signalHandler signum server =
     (if signum = SIGINT \<or> signum = SIGTERM then ChainDB_stop server else server)"

text \<open>
  \<open>main\<close> on the singleton instance: the exit code of the process, the messages it handled and the
  databases it leaves behind.  A process that ends by an exception has no exit code of its own.
\<close>

inductive service_main ::
  "'d posix_lib \<Rightarrow> ('n, 'o) zmq_lib \<Rightarrow> ('d, 'h, 'c, 'pk, 'sg) env \<Rightarrow> string list \<Rightarrow> 'd \<Rightarrow> 'n
     \<Rightarrow> int option \<Rightarrow> message list \<Rightarrow> 'd \<Rightarrow> bool"
  for X :: "'d posix_lib" and Z :: "('n, 'o) zmq_lib" and E :: "('d, 'h, 'c, 'pk, 'sg) env"
    and argv d n where
  refused: "ChainDB_initialize X (env_rand E) argv ChainDB_new d = (Initialized False, c, d') \<Longrightarrow>
    service_main X Z E argv d n (Some (- 1)) [] d'"
| detached: "ChainDB_initialize X (env_rand E) argv ChainDB_new d = (Exited, c, d') \<Longrightarrow>
    service_main X Z E argv d n (Some 0) [] d'"
| threw: "ChainDB_initialize X (env_rand E) argv ChainDB_new d = (Threw, c, d') \<Longrightarrow>
    service_main X Z E argv d n None [] d'"
| finished: "ChainDB_initialize X (env_rand E) argv ChainDB_new d = (Initialized True, c, d') \<Longrightarrow>
    ChainDB_run Z E c d' n log s r \<Longrightarrow>
    service_main X Z E argv d n (Some (if \<not> r then - 1 else 0)) log (databases s)"

inductive_cases service_mainE: "service_main X Z E argv d n code log d'"

section \<open>Runs\<close>

lemma handled_handleMessage: "handled (handleMessage E H) msg d = message_step E H msg d"
  by (simp add: handled_def message_step_def)

lemma run_handled: "run_steps (handled (handleMessage E H)) log d = run_steps (message_step E H) log d"
  by (induction log arbitrary: d) (simp_all add: handled_handleMessage split: option.split)

lemma Server_start_databases [simp]: "databases (Server_start Z srv d n) = d"
  by (simp add: Server_start_def split: prod.split)

lemma ChainDB_run_history:
  "ChainDB_run Z E c d n log s r \<Longrightarrow>
    run_steps (message_step E (ChainDB_handler c)) log d = Some (databases s)"
  by (auto simp: run_handled elim!: ChainDB_run.cases dest!: server_runs_databases)

end
