(* ===== verification/Client.thy ===== *)
theory Client
  imports Zmq
begin

text \<open>
  \<open>Network::Client\<close> (src/Network/Client/Client.cpp): one request and at most one reply over a fresh
  socket.  The label \<open>out\<close> is \<open>client_out\<close>; every path after the socket has been made goes through
  it.
\<close>

record client =
  cl_addr :: string
  cl_port :: size_t
  cl_timeout :: size_t

text \<open>The constructor without an address.\<close>

definition Client_local :: "size_t \<Rightarrow> size_t \<Rightarrow> client" where
  "Client_local port timeout = \<lparr>cl_addr = ''127.0.0.1'', cl_port = port, cl_timeout = timeout\<rparr>"

definition Client_makeEndpointPath :: "client \<Rightarrow> string" where
  "Client_makeEndpointPath c = ''tcp://'' @ cl_addr c @ '':'' @ to_string (cl_port c)"

text \<open>
  \<open>zmq_ctx_destroy\<close> may block: how a call of \<open>sendMessage\<close> ends, with the state of the network in
  which it hangs or returns.
\<close>

datatype ('a, 'n) call_end = Hangs 'n | Returns 'a 'n

definition destroy_context :: "('n, 'o) zmq_lib \<Rightarrow> 'o \<Rightarrow> 'a \<Rightarrow> 'n \<Rightarrow> ('a, 'n) call_end" where
  "destroy_context Z context resp n =
     (case zmq_ctx_destroy Z context n of None \<Rightarrow> Hangs n | Some (err, n) \<Rightarrow> Returns resp n)"

definition client_out :: "('n, 'o) zmq_lib \<Rightarrow> 'o \<Rightarrow> 'o \<Rightarrow> 'a \<Rightarrow> 'n \<Rightarrow> ('a, 'n) call_end" where
  "client_out Z context socket resp n =
     (let n = zmq_close Z socket n in destroy_context Z context resp n)"

text \<open>
  The part of \<open>sendMessage\<close> from the poll on: the reply, before the label \<open>out\<close>.  The product
  \<open>_timeout * ZMQ_POLL_MSEC\<close> is a \<open>size_t\<close> and becomes the \<open>long\<close> argument of \<open>zmq_poll\<close>.
\<close>

definition receive_reply ::
  "('n, 'o) zmq_lib \<Rightarrow> client \<Rightarrow> 'o \<Rightarrow> 'n \<Rightarrow> message option \<times> 'n" where
  "receive_reply Z c socket n =
     (let ((err, pollin), n) = zmq_poll Z socket (sint (cl_timeout c * word_of_int (ZMQ_POLL_MSEC Z))) n in
      if err = - 1 then (None, n)
      else if pollin then
        let ((err, respMsg), n) = zmq_msg_init Z n in
        if err \<noteq> 0 then (None, n)
        else
          let (err, n) = zmq_msg_recv Z respMsg socket n in
          if err = - 1 then
            let n = zmq_msg_close Z respMsg n in (None, n)
          else
            let resp =
                  (if zmq_msg_size Z respMsg n \<noteq> 0 then
                     Some (Message_new (zmq_msg_data Z respMsg n) (zmq_msg_size Z respMsg n))
                   else None);
                n = zmq_msg_close Z respMsg n
            in (resp, n)
      else (None, n))"

definition Client_sendMessage ::
  "('n, 'o) zmq_lib \<Rightarrow> client \<Rightarrow> message \<Rightarrow> 'n \<Rightarrow> (message option, 'n) call_end" where
  "Client_sendMessage Z c msg n =
     (case zmq_ctx_new Z n of
        (None, n) \<Rightarrow> Returns None n
      | (Some context, n) \<Rightarrow>
          (case zmq_socket Z context ZMQ_REQ n of
             (None, n) \<Rightarrow> destroy_context Z context None n
           | (Some socket, n) \<Rightarrow>
               let (err, n) = zmq_connect Z socket (Client_makeEndpointPath c) n in
               if err \<noteq> 0 then client_out Z context socket None n
               else
                 let ((err, reqMsg), n) = zmq_msg_init_size Z (Message_length msg) n in
                 if err \<noteq> 0 then client_out Z context socket None n
                 else
                   let n = zmq_msg_fill Z reqMsg (take (Message_length msg) (Message_data msg)) n;
                       (err, n) = zmq_msg_send Z reqMsg socket n in
                   if err = - 1 then
                     let n = zmq_msg_close Z reqMsg n in client_out Z context socket None n
                   else
                     let n = zmq_msg_close Z reqMsg n;
                         (resp, n) = receive_reply Z c socket n
                     in client_out Z context socket resp n))"

section \<open>The ways through\<close>

lemma receive_reply_cases:
  assumes r: "receive_reply Z c socket n = (resp, n')"
  obtains
    (silent) pe where
      "zmq_poll Z socket (sint (cl_timeout c * word_of_int (ZMQ_POLL_MSEC Z))) n = (pe, n')"
      "resp = None"
  | (no_buffer) e n1 e2 x where
      "zmq_poll Z socket (sint (cl_timeout c * word_of_int (ZMQ_POLL_MSEC Z))) n = ((e, True), n1)"
      "zmq_msg_init Z n1 = ((e2, x), n')" "e2 \<noteq> 0" "resp = None"
  | (not_received) e n1 x n2 n3 where
      "zmq_poll Z socket (sint (cl_timeout c * word_of_int (ZMQ_POLL_MSEC Z))) n = ((e, True), n1)"
      "zmq_msg_init Z n1 = ((0, x), n2)" "zmq_msg_recv Z x socket n2 = (- 1, n3)"
      "n' = zmq_msg_close Z x n3" "resp = None"
  | (received) e n1 x n2 e3 n3 where
      "zmq_poll Z socket (sint (cl_timeout c * word_of_int (ZMQ_POLL_MSEC Z))) n = ((e, True), n1)"
      "zmq_msg_init Z n1 = ((0, x), n2)" "zmq_msg_recv Z x socket n2 = (e3, n3)" "e3 \<noteq> - 1"
      "n' = zmq_msg_close Z x n3"
      "resp = (if zmq_msg_size Z x n3 = 0 then None
               else Some (Message_new (zmq_msg_data Z x n3) (zmq_msg_size Z x n3)))"
proof -
  let ?t = "sint (cl_timeout c * word_of_int (ZMQ_POLL_MSEC Z))"
  obtain e1 pollin n1 where p: "zmq_poll Z socket ?t n = ((e1, pollin), n1)"
    by (cases "zmq_poll Z socket ?t n") auto
  obtain e2 x n2 where i: "zmq_msg_init Z n1 = ((e2, x), n2)" by (cases "zmq_msg_init Z n1") auto
  obtain e3 n3 where v: "zmq_msg_recv Z x socket n2 = (e3, n3)" by (cases "zmq_msg_recv Z x socket n2")
  show thesis
  proof (cases "e1 = - 1 \<or> \<not> pollin")
    case True
    with r p have "n' = n1" "resp = None" by (auto simp: receive_reply_def split: if_splits)
    with p show thesis by (intro silent) simp_all
  next
    case False
    with p have p': "zmq_poll Z socket ?t n = ((e1, True), n1)" by simp
    from r p' i v False no_buffer [OF p'] not_received [OF p'] received [OF p'] show thesis
      by (auto simp: receive_reply_def split: if_splits)
  qed
qed

lemma Client_sendMessage_cases:
  assumes s: "Client_sendMessage Z c msg n = end"
  obtains
    (no_context) n1 where "zmq_ctx_new Z n = (None, n1)" "end = Returns None n1"
  | (no_socket) ctx n1 n2 where
      "zmq_ctx_new Z n = (Some ctx, n1)" "zmq_socket Z ctx ZMQ_REQ n1 = (None, n2)"
      "end = destroy_context Z ctx None n2"
  | (not_connected) ctx n1 sk n2 e3 n3 where
      "zmq_ctx_new Z n = (Some ctx, n1)" "zmq_socket Z ctx ZMQ_REQ n1 = (Some sk, n2)"
      "zmq_connect Z sk (Client_makeEndpointPath c) n2 = (e3, n3)"
      "end = client_out Z ctx sk None n3"
  | (no_buffer) ctx n1 sk n2 n3 e4 x n4 where
      "zmq_ctx_new Z n = (Some ctx, n1)" "zmq_socket Z ctx ZMQ_REQ n1 = (Some sk, n2)"
      "zmq_connect Z sk (Client_makeEndpointPath c) n2 = (0, n3)"
      "zmq_msg_init_size Z (length (msg_data msg)) n3 = ((e4, x), n4)" "e4 \<noteq> 0"
      "end = client_out Z ctx sk None n4"
  | (not_sent) ctx n1 sk n2 n3 x n4 n6 where
      "zmq_ctx_new Z n = (Some ctx, n1)" "zmq_socket Z ctx ZMQ_REQ n1 = (Some sk, n2)"
      "zmq_connect Z sk (Client_makeEndpointPath c) n2 = (0, n3)"
      "zmq_msg_init_size Z (length (msg_data msg)) n3 = ((0, x), n4)"
      "zmq_msg_send Z x sk (zmq_msg_fill Z x (msg_data msg) n4) = (- 1, n6)"
      "end = client_out Z ctx sk None (zmq_msg_close Z x n6)"
  | (asked) ctx n1 sk n2 n3 x n4 e6 n6 resp n7 where
      "zmq_ctx_new Z n = (Some ctx, n1)" "zmq_socket Z ctx ZMQ_REQ n1 = (Some sk, n2)"
      "zmq_connect Z sk (Client_makeEndpointPath c) n2 = (0, n3)"
      "zmq_msg_init_size Z (length (msg_data msg)) n3 = ((0, x), n4)"
      "zmq_msg_send Z x sk (zmq_msg_fill Z x (msg_data msg) n4) = (e6, n6)" "e6 \<noteq> - 1"
      "receive_reply Z c sk (zmq_msg_close Z x n6) = (resp, n7)" "end = client_out Z ctx sk resp n7"
proof -
  obtain co n1 where c: "zmq_ctx_new Z n = (co, n1)" by (cases "zmq_ctx_new Z n")
  show thesis
  proof (cases co)
    case None
    with c s no_context show thesis by (simp add: Client_sendMessage_def)
  next
    case (Some ctx)
    with c have c': "zmq_ctx_new Z n = (Some ctx, n1)" by simp
    obtain so n2 where k: "zmq_socket Z ctx ZMQ_REQ n1 = (so, n2)"
      by (cases "zmq_socket Z ctx ZMQ_REQ n1")
    show thesis
    proof (cases so)
      case None
      with c' s k no_socket [OF c'] show thesis by (simp add: Client_sendMessage_def)
    next
      case (Some sk)
      with k have k': "zmq_socket Z ctx ZMQ_REQ n1 = (Some sk, n2)" by simp
      obtain e3 n3 where b: "zmq_connect Z sk (Client_makeEndpointPath c) n2 = (e3, n3)"
        by (cases "zmq_connect Z sk (Client_makeEndpointPath c) n2")
      obtain e4 x n4 where i: "zmq_msg_init_size Z (length (msg_data msg)) n3 = ((e4, x), n4)"
        by (cases "zmq_msg_init_size Z (length (msg_data msg)) n3") auto
      obtain e6 n6 where d: "zmq_msg_send Z x sk (zmq_msg_fill Z x (msg_data msg) n4) = (e6, n6)"
        by (cases "zmq_msg_send Z x sk (zmq_msg_fill Z x (msg_data msg) n4)")
      obtain rr n7 where r: "receive_reply Z c sk (zmq_msg_close Z x n6) = (rr, n7)"
        by (cases "receive_reply Z c sk (zmq_msg_close Z x n6)")
      from s c' k' b i d r not_connected [OF c' k' b] no_buffer [OF c' k'] not_sent [OF c' k']
        asked [OF c' k']
      show thesis
        by (auto simp: Client_sendMessage_def Let_def Message_data_def Message_length_def
            split: if_splits)
    qed
  qed
qed

text \<open>The state in which a call ends, and its result if it returns.\<close>

fun end_state :: "('a, 'n) call_end \<Rightarrow> 'n" where
  "end_state (Hangs n) = n"
| "end_state (Returns r n) = n"

lemma destroy_context_cases:
  obtains (hangs) "destroy_context Z ctx resp n = Hangs n" "zmq_ctx_destroy Z ctx n = None"
  | (returns) e n' where "destroy_context Z ctx resp n = Returns resp n'"
      "zmq_ctx_destroy Z ctx n = Some (e, n')"
  by (cases "zmq_ctx_destroy Z ctx n") (auto simp: destroy_context_def)

lemma destroy_context_returns: "destroy_context Z ctx resp n = Returns r n' \<Longrightarrow> r = resp"
  by (cases "zmq_ctx_destroy Z ctx n") (auto simp: destroy_context_def)

lemma client_out_returns: "client_out Z ctx sk resp n = Returns r n' \<Longrightarrow> r = resp"
  by (auto simp: client_out_def dest: destroy_context_returns)

lemma no_reply [simp]:
  "destroy_context Z ctx None n \<noteq> Returns (Some reply) n'"
  "client_out Z ctx sk None n \<noteq> Returns (Some reply) n'"
  using destroy_context_returns [of Z ctx None n "Some reply" n']
    client_out_returns [of Z ctx sk None n "Some reply" n'] by auto

section \<open>Release of network objects\<close>

lemma receive_reply_objects:
  assumes ok: "zmq_ok Z live" and r: "receive_reply Z c socket n = (resp, n')"
  shows "live n' = live n"
  using r
proof (cases rule: receive_reply_cases)
  case (silent pe)
  from zmq_frames(3) [OF ok this(1)] show ?thesis .
next
  case (no_buffer e n1 e2 x)
  with zmq_frames(3) [OF ok no_buffer(1)] zmq_makes(3) [OF ok no_buffer(2)] show ?thesis by simp
next
  case (not_received e n1 x n2 n3)
  with zmq_frames(3) [OF ok not_received(1)] zmq_makes(3) [OF ok not_received(2)]
    zmq_frames(5) [OF ok not_received(3)] show ?thesis by (simp add: zmq_releases(2) [OF ok])
next
  case (received e n1 x n2 e3 n3)
  with zmq_frames(3) [OF ok received(1)] zmq_makes(3) [OF ok received(2)]
    zmq_frames(5) [OF ok received(3)] show ?thesis by (simp add: zmq_releases(2) [OF ok])
qed

text \<open>
  A call that returns has released everything, except for its context if destroying it failed; one
  that hangs has released everything but its context.
\<close>

definition call_cleans ::
  "('n, 'o) zmq_lib \<Rightarrow> ('n \<Rightarrow> 'o set) \<Rightarrow> 'o set \<Rightarrow> ('a, 'n) call_end \<Rightarrow> bool" where
  "call_cleans Z live base end \<longleftrightarrow>
     (case end of
        Returns r n \<Rightarrow> cleaned_up Z live base n
      | Hangs n \<Rightarrow> \<exists>ctx. ctx \<notin> base \<and> live n = insert ctx base \<and> zmq_ctx_destroy Z ctx n = None)"

lemma destroy_context_cleans:
  assumes "zmq_ok Z live" and "ctx \<notin> base" and "live n = insert ctx base"
  shows "call_cleans Z live base (destroy_context Z ctx resp n)"
  using assms destroy_cleans_up [OF assms(1) _ assms(2,3)]
  by (cases rule: destroy_context_cases [of Z ctx resp n]) (auto simp: call_cleans_def)

lemma client_out_cleans:
  assumes "zmq_ok Z live" and "ctx \<notin> base" and "sk \<notin> insert ctx base"
    and "live n = insert sk (insert ctx base)"
  shows "call_cleans Z live base (client_out Z ctx sk resp n)"
  using assms zmq_releases(1) [OF assms(1), of sk n]
  by (auto simp: client_out_def intro!: destroy_context_cleans)

lemma Client_sendMessage_cleans:
  assumes ok: "zmq_ok Z live"
  shows "call_cleans Z live (live n) (Client_sendMessage Z c msg n)"
proof -
  note makes = zmq_makes [OF ok] and frames = zmq_frames [OF ok] and rel = zmq_releases(2) [OF ok]
  have out: "call_cleans Z live (live n) (client_out Z ctx sk resp m)"
    if "zmq_ctx_new Z n = (Some ctx, n1)" "zmq_socket Z ctx ZMQ_REQ n1 = (Some sk, n2)" "live m = live n2"
    for ctx n1 sk n2 m resp
    using makes(1) [OF that(1)] makes(2) [OF that(2)] that(3) client_out_cleans [OF ok, of ctx "live n" sk m]
    by simp
  from refl show ?thesis
  proof (cases rule: Client_sendMessage_cases [of Z c msg n "Client_sendMessage Z c msg n"])
    case (no_context n1)
    with makes(1) [OF no_context(1)] show ?thesis by (simp add: call_cleans_def cleaned_up_def)
  next
    case (no_socket ctx n1 n2)
    with makes(1) [OF no_socket(1)] makes(2) [OF no_socket(2)] show ?thesis
      by (simp add: destroy_context_cleans [OF ok])
  next
    case (not_connected ctx n1 sk n2 e3 n3)
    with out [OF not_connected(1,2)] frames(2) [OF not_connected(3)] show ?thesis by simp
  next
    case (no_buffer ctx n1 sk n2 n3 e4 x n4)
    with out [OF no_buffer(1,2)] frames(2) [OF no_buffer(3)] makes(4) [OF no_buffer(4)]
    show ?thesis by simp
  next
    case (not_sent ctx n1 sk n2 n3 x n4 n6)
    with out [OF not_sent(1,2)] frames(2) [OF not_sent(3)] makes(4) [OF not_sent(4)]
      frames(4) [of x "msg_data msg" n4] frames(6) [OF not_sent(5)] rel [of x n6]
    show ?thesis by simp
  next
    case (asked ctx n1 sk n2 n3 x n4 e6 n6 resp n7)
    with out [OF asked(1,2)] frames(2) [OF asked(3)] makes(4) [OF asked(4)]
      frames(4) [of x "msg_data msg" n4] frames(6) [OF asked(5)]
      receive_reply_objects [OF ok asked(7)]
    show ?thesis by (simp add: rel)
  qed
qed

end
