(* ===== verification/Command_Line.thy ===== *)
theory Command_Line
  imports Client Arguments Handler
begin

text \<open>
  The command line client (cli/src/Application.cpp): it builds one request from its options, sends
  it and prints the response.  Printing goes to the logging library and is left out.
\<close>

definition TIMEOUT_MS :: size_t where
  "TIMEOUT_MS = 1000"

record application =
  app_serverAddr :: string
  app_serverPort :: int
  app_timeout :: int
  app_isPingRequest :: bool
  app_isCreateChainRequest :: bool
  app_isRemoveChainRequest :: bool
  app_isAddBlockRequest :: bool
  app_isGetBlockRequest :: bool
  app_isGetBlocksRequest :: bool
  app_isVerifyChainRequest :: bool
  app_isGetChainHeaderRequest :: bool
  app_isGetChainKeysRequest :: bool
  app_isGetChainInfoRequest :: bool
  app_chainId :: int
  app_blockId :: int
  app_password :: string
  app_data :: string
  app_client :: "client option"

definition Application_new :: application where
  "Application_new =
     \<lparr>app_serverAddr = ''127.0.0.1'', app_serverPort = 8888, app_timeout = 1,
      app_isPingRequest = False, app_isCreateChainRequest = False,
      app_isRemoveChainRequest = False, app_isAddBlockRequest = False,
      app_isGetBlockRequest = False, app_isGetBlocksRequest = False,
      app_isVerifyChainRequest = False, app_isGetChainHeaderRequest = False,
      app_isGetChainKeysRequest = False, app_isGetChainInfoRequest = False,
      app_chainId = 1, app_blockId = 1, app_password = '''', app_data = ''{}'',
      app_client = None\<rparr>"

definition Application_handlers :: "application handler_map" where
  "Application_handlers =
     [(''--addr'', StringPtr (\<lambda>v a. a\<lparr>app_serverAddr := v\<rparr>)),
      (''--port'', IntPtr (\<lambda>v a. a\<lparr>app_serverPort := v\<rparr>)),
      (''--timeout'', IntPtr (\<lambda>v a. a\<lparr>app_timeout := v\<rparr>)),
      (''--ping'', BoolPtr (\<lambda>v a. a\<lparr>app_isPingRequest := v\<rparr>)),
      (''--create-chain'', BoolPtr (\<lambda>v a. a\<lparr>app_isCreateChainRequest := v\<rparr>)),
      (''--remove-chain'', BoolPtr (\<lambda>v a. a\<lparr>app_isRemoveChainRequest := v\<rparr>)),
      (''--add-block'', BoolPtr (\<lambda>v a. a\<lparr>app_isAddBlockRequest := v\<rparr>)),
      (''--get-block'', BoolPtr (\<lambda>v a. a\<lparr>app_isGetBlockRequest := v\<rparr>)),
      (''--get-blocks'', BoolPtr (\<lambda>v a. a\<lparr>app_isGetBlocksRequest := v\<rparr>)),
      (''--verify-chain'', BoolPtr (\<lambda>v a. a\<lparr>app_isVerifyChainRequest := v\<rparr>)),
      (''--get-header'', BoolPtr (\<lambda>v a. a\<lparr>app_isGetChainHeaderRequest := v\<rparr>)),
      (''--get-keys'', BoolPtr (\<lambda>v a. a\<lparr>app_isGetChainKeysRequest := v\<rparr>)),
      (''--get-info'', BoolPtr (\<lambda>v a. a\<lparr>app_isGetChainInfoRequest := v\<rparr>)),
      (''--chain-id'', IntPtr (\<lambda>v a. a\<lparr>app_chainId := v\<rparr>)),
      (''--block-id'', IntPtr (\<lambda>v a. a\<lparr>app_blockId := v\<rparr>)),
      (''--password'', StringPtr (\<lambda>v a. a\<lparr>app_password := v\<rparr>)),
      (''--data'', StringPtr (\<lambda>v a. a\<lparr>app_data := v\<rparr>))]"

text \<open>
  The product \<open>_timeout * TIMEOUT_MS\<close> is computed in \<open>size_t\<close>.  \<open>None\<close> is the exception that
  \<open>parseArgs\<close> lets pass.
\<close>

definition Application_initialize :: "string list \<Rightarrow> application \<Rightarrow> bool option \<times> application" where
  "Application_initialize argv a =
     (let (parsed, a, out) = parseArgs argv Application_handlers a in
      case parsed of
        Threw_out_of_range \<Rightarrow> (None, a)
      | Returned ok \<Rightarrow>
          if \<not> ok then (Some False, a)
          else
            (Some True,
             a\<lparr>app_client := Some \<lparr>cl_addr = app_serverAddr a, cl_port = word_of_int (app_serverPort a),
                 cl_timeout = word_of_int (app_timeout a) * TIMEOUT_MS\<rparr>\<rparr>))"

section \<open>Requests\<close>

definition setAuthData :: "'c sha_lib \<Rightarrow> application \<Rightarrow> auth_data \<Rightarrow> auth_data" where
  "setAuthData S a data =
     (if app_password a = '''' then data
      else
        case getHash S [PASSWORD_SALT, app_password a] of
          None \<Rightarrow> data
        | Some hash \<Rightarrow> data\<lparr>password_hash := data_bytes hash\<rparr>)"

text \<open>A new request with authorization data: the beginning of all requests but \<open>ping\<close>.\<close>

definition request_with_auth :: "'c sha_lib \<Rightarrow> application \<Rightarrow> request" where
  "request_with_auth S a =
     request_default\<lparr>req_auth_data := Some (setAuthData S a \<lparr>password_hash = []\<rparr>)\<rparr>"

text \<open>
  \<open>processRequest\<close> with the client \<open>cl\<close>: it is true when a response arrives and parses, whatever
  status the response has; it hangs when the call of \<open>sendMessage\<close> does.
\<close>

definition processRequest ::
  "pb_lib \<Rightarrow> ('n, 'o) zmq_lib \<Rightarrow> client \<Rightarrow> request \<Rightarrow> 'n \<Rightarrow> (bool, 'n) call_end" where
  "processRequest P Z cl req n =
     (case request_Serialize P req of
        None \<Rightarrow> Returns False n
      | Some data \<Rightarrow>
          let msg = Message_new data (length data)
          in case Client_sendMessage Z cl msg n of
               Hangs n \<Rightarrow> Hangs n
             | Returns result n \<Rightarrow>
                 (case result of
                    None \<Rightarrow> Returns False n
                  | Some result \<Rightarrow>
                      (case response_Parse P (take (Message_length result) (Message_data result)) of
                         None \<Rightarrow> Returns False n
                       | Some resp \<Rightarrow> Returns True n)))"

definition ping_request :: request where
  "ping_request = request_default\<lparr>req_ping := Some ()\<rparr>"

definition createChain_request :: "'c sha_lib \<Rightarrow> application \<Rightarrow> size_t \<Rightarrow> string \<Rightarrow> request" where
  "createChain_request S a chainId data =
     (request_with_auth S a)
       \<lparr>req_create_chain := Some \<lparr>cdr_chain_id = chainId, cdr_data = data\<rparr>\<rparr>"

definition removeChain_request :: "'c sha_lib \<Rightarrow> application \<Rightarrow> size_t \<Rightarrow> request" where
  "removeChain_request S a chainId =
     (request_with_auth S a)\<lparr>req_remove_chain := Some \<lparr>cr_chain_id = chainId\<rparr>\<rparr>"

definition addBlock_request :: "'c sha_lib \<Rightarrow> application \<Rightarrow> size_t \<Rightarrow> string \<Rightarrow> request" where
  "addBlock_request S a chainId data =
     (request_with_auth S a)
       \<lparr>req_add_block := Some \<lparr>cdr_chain_id = chainId, cdr_data = data\<rparr>\<rparr>"

definition getBlock_request :: "'c sha_lib \<Rightarrow> application \<Rightarrow> size_t \<Rightarrow> size_t \<Rightarrow> request" where
  "getBlock_request S a chainId blockId =
     (request_with_auth S a)
       \<lparr>req_get_block := Some \<lparr>gbr_chain_id = chainId, gbr_block_id = blockId\<rparr>\<rparr>"

definition getBlocks_request :: "'c sha_lib \<Rightarrow> application \<Rightarrow> size_t \<Rightarrow> request" where
  "getBlocks_request S a chainId =
     (request_with_auth S a)\<lparr>req_get_blocks := Some \<lparr>cr_chain_id = chainId\<rparr>\<rparr>"

definition verifyChain_request :: "'c sha_lib \<Rightarrow> application \<Rightarrow> size_t \<Rightarrow> request" where
  "verifyChain_request S a chainId =
     (request_with_auth S a)\<lparr>req_verify_chain := Some \<lparr>cr_chain_id = chainId\<rparr>\<rparr>"

definition getChainHeader_request :: "'c sha_lib \<Rightarrow> application \<Rightarrow> size_t \<Rightarrow> request" where
  "getChainHeader_request S a chainId =
     (request_with_auth S a)\<lparr>req_get_chain_header := Some \<lparr>cr_chain_id = chainId\<rparr>\<rparr>"

definition getChainKeys_request :: "'c sha_lib \<Rightarrow> application \<Rightarrow> size_t \<Rightarrow> request" where
  "getChainKeys_request S a chainId =
     (request_with_auth S a)\<lparr>req_get_chain_keys := Some \<lparr>cr_chain_id = chainId\<rparr>\<rparr>"

definition getChainInfo_request :: "'c sha_lib \<Rightarrow> application \<Rightarrow> size_t \<Rightarrow> request" where
  "getChainInfo_request S a chainId =
     (request_with_auth S a)\<lparr>req_get_chain_info := Some \<lparr>cr_chain_id = chainId\<rparr>\<rparr>"

section \<open>Running\<close>

text \<open>
  The request that \<open>run\<close> processes, if any; the options are \<open>int\<close> and the parameters \<open>size_t\<close>, so
  negative numbers wrap around.
\<close>

definition selected_request :: "'c sha_lib \<Rightarrow> application \<Rightarrow> request option" where
  "selected_request S a =
     (let chainId = word_of_int (app_chainId a); blockId = word_of_int (app_blockId a) in
      if app_isPingRequest a then Some ping_request
      else if app_isCreateChainRequest a then Some (createChain_request S a chainId (app_data a))
      else if app_isRemoveChainRequest a then Some (removeChain_request S a chainId)
      else if app_isAddBlockRequest a then Some (addBlock_request S a chainId (app_data a))
      else if app_isGetBlockRequest a then Some (getBlock_request S a chainId blockId)
      else if app_isGetBlocksRequest a then Some (getBlocks_request S a chainId)
      else if app_isVerifyChainRequest a then Some (verifyChain_request S a chainId)
      else if app_isGetChainHeaderRequest a then Some (getChainHeader_request S a chainId)
      else if app_isGetChainKeysRequest a then Some (getChainKeys_request S a chainId)
      else if app_isGetChainInfoRequest a then Some (getChainInfo_request S a chainId)
      else None)"

text \<open>\<open>None\<close> is a call through the null pointer \<open>_client\<close>, when \<open>initialize\<close> has not succeeded.\<close>

definition Application_run ::
  "'c sha_lib \<Rightarrow> pb_lib \<Rightarrow> ('n, 'o) zmq_lib \<Rightarrow> application \<Rightarrow> 'n \<Rightarrow> (bool, 'n) call_end option" where
  "Application_run S P Z a n =
     (case selected_request S a of
        None \<Rightarrow> Some (Returns True n)
      | Some req \<Rightarrow> map_option (\<lambda>cl. processRequest P Z cl req n) (app_client a))"

text \<open>\<open>main\<close>: the exit code, \<open>None\<close> when an exception ends the process, unless the process hangs.\<close>

definition Application_main ::
  "'c sha_lib \<Rightarrow> pb_lib \<Rightarrow> ('n, 'o) zmq_lib \<Rightarrow> string list \<Rightarrow> 'n \<Rightarrow> (int option, 'n) call_end" where
  "Application_main S P Z argv n =
     (case Application_initialize argv Application_new of
        (None, a) \<Rightarrow> Returns None n
      | (Some ok, a) \<Rightarrow>
          if \<not> ok then Returns (Some (- 1)) n
          else
            case Application_run S P Z a n of
              None \<Rightarrow> Returns None n
            | Some (Hangs n) \<Rightarrow> Hangs n
            | Some (Returns ok n) \<Rightarrow> Returns (Some (if \<not> ok then - 1 else 0)) n)"

end
