(* ===== verification/Replies.thy ===== *)
theory Replies
  imports Server Client
begin

text \<open>
  What goes over the network: the request and reply discipline of ZeroMQ's \<open>REP\<close> and \<open>REQ\<close> sockets
  and what the server and the client send under it.  The discipline is stated over a view of the
  network state: the messages that have been sent, and the sockets that have received a message
  without sending one since (a \<open>REP\<close> socket in that state reports no further message).
\<close>

record ('n, 'o) traffic_view =
  sent :: "'n \<Rightarrow> bytes list"
  pending :: "'n \<Rightarrow> 'o \<Rightarrow> bool"

definition same_traffic :: "('n, 'o) traffic_view \<Rightarrow> 'n \<Rightarrow> 'n \<Rightarrow> bool" where
  "same_traffic T n n' \<longleftrightarrow> sent T n' = sent T n \<and> pending T n' = pending T n"

section \<open>What the code relies on\<close>

text \<open>Making, connecting and releasing objects and filling a buffer sends and receives nothing.\<close>

definition traffic_frame :: "('n, 'o) zmq_lib \<Rightarrow> ('n, 'o) traffic_view \<Rightarrow> bool" where
  "traffic_frame Z T \<longleftrightarrow>
     (\<forall>n. same_traffic T n (snd (zmq_ctx_new Z n))) \<and>
     (\<forall>c n e n'. zmq_ctx_destroy Z c n = Some (e, n') \<longrightarrow> same_traffic T n n') \<and>
     (\<forall>c t n. same_traffic T n (snd (zmq_socket Z c t n))) \<and>
     (\<forall>s n. same_traffic T n (zmq_close Z s n)) \<and>
     (\<forall>s e n. same_traffic T n (snd (zmq_bind Z s e n))) \<and>
     (\<forall>s e n. same_traffic T n (snd (zmq_connect Z s e n))) \<and>
     (\<forall>n. same_traffic T n (snd (zmq_msg_init Z n))) \<and>
     (\<forall>k n. same_traffic T n (snd (zmq_msg_init_size Z k n))) \<and>
     (\<forall>x b n. same_traffic T n (zmq_msg_fill Z x b n)) \<and>
     (\<forall>x n. same_traffic T n (zmq_msg_close Z x n))"

text \<open>
  A poll reports no message on a socket that owes a reply; a message that is received makes its
  socket owe one; a message that is sent carries what its buffer was filled with and settles the
  debt; a call that fails leaves both as they were.
\<close>

definition traffic_rules :: "('n, 'o) zmq_lib \<Rightarrow> ('n, 'o) traffic_view \<Rightarrow> bool" where
  "traffic_rules Z T \<longleftrightarrow>
     (\<forall>s t n e pollin n'. zmq_poll Z s t n = ((e, pollin), n') \<longrightarrow>
        same_traffic T n n' \<and> (pollin \<longrightarrow> \<not> pending T n s)) \<and>
     (\<forall>x s n e n'. zmq_msg_recv Z x s n = (e, n') \<longrightarrow>
        (if e = - 1 then same_traffic T n n'
         else sent T n' = sent T n \<and> pending T n' = (pending T n)(s := True))) \<and>
     (\<forall>n0 x b s n e n'. zmq_msg_init_size Z (length b) n0 = ((0, x), n) \<longrightarrow>
        zmq_msg_send Z x s (zmq_msg_fill Z x b n) = (e, n') \<longrightarrow>
        (if e = - 1 then same_traffic T n n'
         else sent T n' = sent T n @ [b] \<and> pending T n' = (pending T n)(s := False)))"

definition traffic_ok :: "('n, 'o) zmq_lib \<Rightarrow> ('n, 'o) traffic_view \<Rightarrow> bool" where
  "traffic_ok Z T \<longleftrightarrow> traffic_frame Z T \<and> traffic_rules Z T"

lemma same_traffic_refl [simp]: "same_traffic T n n"
  by (simp add: same_traffic_def)

lemma same_traffic_trans:
  "same_traffic T n1 n2 \<Longrightarrow> same_traffic T n2 n3 \<Longrightarrow> same_traffic T n1 n3"
  by (simp add: same_traffic_def)

lemma traffic_frames:
  assumes "traffic_ok Z T"
  shows "zmq_ctx_new Z n = (c, n') \<Longrightarrow> same_traffic T n n'"
    and "zmq_ctx_destroy Z x n = Some (i, n') \<Longrightarrow> same_traffic T n n'"
    and "zmq_socket Z x t n = (c, n') \<Longrightarrow> same_traffic T n n'"
    and "same_traffic T n (zmq_close Z x n)"
    and "zmq_bind Z x ep n = (i, n') \<Longrightarrow> same_traffic T n n'"
    and "zmq_connect Z x ep n = (i, n') \<Longrightarrow> same_traffic T n n'"
    and "zmq_msg_init Z n = (ex, n') \<Longrightarrow> same_traffic T n n'"
    and "zmq_msg_init_size Z k n = (ex, n') \<Longrightarrow> same_traffic T n n'"
    and "same_traffic T n (zmq_msg_close Z x n)"
  using assms by (simp_all add: traffic_ok_def traffic_frame_def) (metis snd_conv)+

lemma traffic_poll:
  assumes "traffic_ok Z T" and "zmq_poll Z s t n = ((e, pollin), n')"
  shows "same_traffic T n n' \<and> (pollin \<longrightarrow> \<not> pending T n s)"
  using assms by (simp add: traffic_ok_def traffic_rules_def)

lemma traffic_recv:
  assumes "traffic_ok Z T" and "zmq_msg_recv Z x s n = (e, n')"
  shows "if e = - 1 then same_traffic T n n'
    else sent T n' = sent T n \<and> pending T n' = (pending T n)(s := True)"
  using assms by (simp add: traffic_ok_def traffic_rules_def)

lemma traffic_send:
  assumes "traffic_ok Z T" and "zmq_msg_init_size Z (length b) n0 = ((0, x), n)"
    and "zmq_msg_send Z x s (zmq_msg_fill Z x b n) = (e, n')"
  shows "if e = - 1 then same_traffic T n n'
    else sent T n' = sent T n @ [b] \<and> pending T n' = (pending T n)(s := False)"
  using assms unfolding traffic_ok_def traffic_rules_def by blast

section \<open>One turn of the server\<close>

text \<open>
  A turn handles nothing and sends nothing, or it handles one message that a settled socket has
  received and then either sends exactly the handler's reply or leaves the socket owing one.
\<close>

lemma process_turn_traffic:
  assumes ok: "traffic_ok Z T" and t: "process_turn Z handle socket d n = Some (go, log, d', n')"
  obtains "log = []" "same_traffic T n n'" "d' = d"
    | req resp where "log = [req]" "handle req d = Some (Some resp, d')" "\<not> pending T n socket"
        "sent T n' = sent T n @ [msg_data resp]"
    | req resp where "log = [req]" "handle req d = Some (resp, d')" "\<not> pending T n socket"
        "sent T n' = sent T n" "pending T n' socket"
proof -
  note frames = traffic_frames [OF ok]
  have got: "\<not> pending T n socket"
      "if e3 = - 1 then same_traffic T n (zmq_msg_close Z req n3)
       else sent T (zmq_msg_close Z req n3) = sent T n \<and>
         pending T (zmq_msg_close Z req n3) = (pending T n)(socket := True)"
    if "zmq_poll Z socket (ZMQ_POOL_TIMEOUT * ZMQ_POLL_MSEC Z) n = ((e, True), n1)"
      "zmq_msg_init Z n1 = ((0, req), n2)" "zmq_msg_recv Z req socket n2 = (e3, n3)"
    for e n1 req n2 e3 n3
    using traffic_poll [OF ok that(1)] frames(7) [OF that(2)] traffic_recv [OF ok that(3)]
      frames(9) [of n3 req]
    by (auto simp: same_traffic_def)
  from t show thesis
  proof (cases rule: process_turn_cases)
    case (quiet pe)
    with traffic_poll [OF ok, of socket _ n "fst pe" "snd pe" n'] show thesis by (intro that(1)) auto
  next
    case (no_buffer e n1 e2 req)
    with traffic_poll [OF ok no_buffer(1)] frames(7) [OF no_buffer(2)] show thesis
      by (intro that(1)) (auto intro: same_traffic_trans)
  next
    case (not_received e n1 req n2 n3)
    with got [OF not_received(1-3)] show thesis by (intro that(1)) simp_all
  next
    case (no_reply e n1 req n2 e3 n3)
    with got [OF no_reply(1-3)] show thesis
      by (intro that(3) [of "Message_new (zmq_msg_data Z req n3) (zmq_msg_size Z req n3)" None]) simp_all
  next
    case (no_reply_buffer e n1 req n2 e3 n3 resp e5 x)
    with got [OF no_reply_buffer(1-3)] frames(8) [OF no_reply_buffer(6)] show thesis
      by (intro that(3) [of _ "Some resp"]) (auto simp: same_traffic_def)
  next
    case (replied e n1 req n2 e3 n3 resp x n5 e7 n7)
    note g = got [OF replied(1-3)] frames(8) [OF replied(6)] frames(9) [of n7 x]
      traffic_send [OF ok replied(6,7)]
    show thesis
    proof (cases "e7 = - 1")
      case True
      with replied g show thesis by (intro that(3) [of _ "Some resp"]) (auto simp: same_traffic_def)
    next
      case False
      with replied g show thesis by (intro that(2) [of _ resp]) (auto simp: same_traffic_def)
    qed
  qed
qed

section \<open>Runs of the server\<close>

text \<open>The handler's replies to a sequence of messages, null replies included.\<close>

fun replies :: "'d message_handler \<Rightarrow> message list \<Rightarrow> 'd \<Rightarrow> message option list" where
  "replies handle [] d = []"
| "replies handle (msg # log) d =
     (case handle msg d of None \<Rightarrow> [] | Some (resp, d) \<Rightarrow> resp # replies handle log d)"

lemma replies_append:
  "run_steps (handled handle) log d = Some d' \<Longrightarrow>
    replies handle (log @ log') d = replies handle log d @ replies handle log' d'"
  by (induction log arbitrary: d) (auto simp: handled_def split: option.splits)

text \<open>A thread that will handle nothing more: it has finished or its socket owes a reply.\<close>

definition deaf :: "('n, 'o) traffic_view \<Rightarrow> ('d, 'n, 'o) server_state \<Rightarrow> bool" where
  "deaf T s \<longleftrightarrow>
     (case phase s of
        Serving context socket \<Rightarrow> pending T (network s) socket
      | Turning context socket \<Rightarrow> pending T (network s) socket
      | _ \<Rightarrow> True)"

lemma process_out_traffic:
  "traffic_ok Z T \<Longrightarrow> process_out Z context socket n = (ph, n') \<Longrightarrow>
    same_traffic T n n' \<and> ph = Closing context"
  using traffic_frames(4) [of Z T] by (auto simp: process_out_def)

lemma deaf_step:
  assumes ok: "traffic_ok Z T" and st: "server_step Z handle s log s'" and d: "deaf T s"
  shows "log = [] \<and> deaf T s' \<and> sent T (network s') = sent T (network s) \<and>
    databases s' = databases s"
  using st
proof (cases rule: server_step.cases)
  case (enter ctx socket)
  with d show ?thesis by (simp add: deaf_def)
next
  case (turn ctx socket d n)
  from turn(3) show ?thesis
    by (rule process_turn_traffic [OF ok]) (insert turn d, auto simp: deaf_def same_traffic_def)
next
  case (broken ctx socket d n ph n')
  note out = process_out_traffic [OF ok broken(4)]
  from broken(3) show ?thesis
    by (rule process_turn_traffic [OF ok]) (insert broken d out, auto simp: deaf_def same_traffic_def)
next
  case (leave ctx socket ph n)
  with process_out_traffic [OF ok leave(5)] show ?thesis
    by (simp add: deaf_def same_traffic_def)
next
  case (destroyed ctx err n)
  with traffic_frames(2) [OF ok destroyed(4)] show ?thesis by (simp add: deaf_def same_traffic_def)
next
  case stop
  with d show ?thesis by (auto simp: Server_stop_def deaf_def split: phase.splits)
qed

lemma deaf_runs:
  "server_runs Z handle s log s' \<Longrightarrow> traffic_ok Z T \<Longrightarrow> deaf T s \<Longrightarrow>
    log = [] \<and> deaf T s' \<and> sent T (network s') = sent T (network s) \<and> databases s' = databases s"
  by (induction rule: server_runs.induct) (auto dest!: deaf_step)

text \<open>
  Along a run: the messages of the log have been answered in order, each once and with the handler's
  reply, except that the last one may have gone without an answer, and then the thread is deaf.
\<close>

definition answered_to ::
  "('n, 'o) traffic_view \<Rightarrow> 'n \<Rightarrow> message option list \<Rightarrow> ('d, 'n, 'o) server_state \<Rightarrow> bool" where
  "answered_to T n rs s \<longleftrightarrow>
     (\<exists>ans rest. rs = map Some ans @ rest \<and> length rest \<le> 1 \<and> (rest = [] \<or> deaf T s) \<and>
        sent T (network s) = sent T n @ map msg_data ans)"

lemma server_step_answers:
  assumes ok: "traffic_ok Z T" and st: "server_step Z handle s log s'"
    and a: "answered_to T n rs s"
  shows "answered_to T n (rs @ replies handle log (databases s)) s'"
proof (cases "deaf T s")
  case True
  from deaf_step [OF ok st this] a show ?thesis by (auto simp: answered_to_def)
next
  case False
  with a obtain ans where rs: "rs = map Some ans" and se: "sent T (network s) = sent T n @ map msg_data ans"
    by (auto simp: answered_to_def)
  have quiet: ?thesis if "log = []" "sent T (network s') = sent T (network s)"
    using that rs se unfolding answered_to_def by (intro exI [of _ ans] exI [of _ "[]"]) simp
  have step: ?thesis
    if t: "process_turn Z handle socket (databases s) (network s) = Some (go, log, d1, n1)"
      and s': "same_traffic T n1 (network s')" "phase s' = Closing ctx \<or> phase s' = Serving ctx socket"
    for ctx socket go d1 n1
    using t
  proof (rule process_turn_traffic [OF ok])
    assume "log = []" "same_traffic T (network s) n1"
    with s'(1) quiet show ?thesis by (simp add: same_traffic_def)
  next
    fix req resp
    assume "log = [req]" "handle req (databases s) = Some (Some resp, d1)"
      "sent T n1 = sent T (network s) @ [msg_data resp]"
    with s'(1) rs se show ?thesis
      unfolding answered_to_def by (intro exI [of _ "ans @ [resp]"]) (simp add: same_traffic_def)
  next
    fix req resp
    assume "log = [req]" "handle req (databases s) = Some (resp, d1)"
      "sent T n1 = sent T (network s)" "pending T n1 socket"
    with s' rs se show ?thesis
      unfolding answered_to_def
      by (intro exI [of _ ans] exI [of _ "[resp]"]) (auto simp: same_traffic_def deaf_def)
  qed
  from st show ?thesis
  proof (cases rule: server_step.cases)
    case (enter ctx socket)
    then show ?thesis by (intro quiet) simp_all
  next
    case (turn ctx socket d n)
    then show ?thesis by (intro step [of socket True d n ctx]) simp_all
  next
    case (broken ctx socket d n ph n')
    with process_out_traffic [OF ok broken(4)] show ?thesis
      by (intro step [of socket False d n ctx]) simp_all
  next
    case (leave ctx socket ph n)
    with process_out_traffic [OF ok leave(5)] show ?thesis
      by (intro quiet) (simp_all add: same_traffic_def)
  next
    case (destroyed ctx err n)
    with traffic_frames(2) [OF ok destroyed(4)] show ?thesis
      by (intro quiet) (simp_all add: same_traffic_def)
  next
    case stop
    then show ?thesis by (intro quiet) (simp_all add: Server_stop_def)
  qed
qed

lemma server_runs_answers:
  "server_runs Z handle s log s' \<Longrightarrow> traffic_ok Z T \<Longrightarrow> answered_to T n [] s \<Longrightarrow>
    answered_to T n (replies handle log (databases s)) s'"
proof (induction rule: server_runs.induct)
  case here
  then show ?case by simp
next
  case (more s log s' log' s'')
  from server_step_answers [OF more.prems(1) more.hyps(2) more.IH [OF more.prems]]
    server_runs_databases [OF more.hyps(1)] show ?case
    by (simp add: replies_append)
qed

lemma Server_start_traffic:
  assumes ok: "traffic_ok Z T"
  shows "sent T (network (Server_start Z srv d n)) = sent T n"
proof -
  note frames = traffic_frames [OF ok]
  obtain c n1 where c: "zmq_ctx_new Z n = (c, n1)" by (cases "zmq_ctx_new Z n")
  show ?thesis
  proof (cases c)
    case None
    with c frames(1) [OF c] show ?thesis
      by (simp add: Server_start_def process_start_def same_traffic_def)
  next
    case (Some ctx)
    obtain k n2 where k: "zmq_socket Z ctx ZMQ_REP n1 = (k, n2)"
      by (cases "zmq_socket Z ctx ZMQ_REP n1")
    show ?thesis
    proof (cases k)
      case None
      with c Some k frames(1) [OF c] frames(3) [OF k] show ?thesis
        by (simp add: Server_start_def process_start_def same_traffic_def)
    next
      case sk: (Some socket)
      obtain e n3 where b: "zmq_bind Z socket (Server_makeEndpointPath srv) n2 = (e, n3)"
        by (cases "zmq_bind Z socket (Server_makeEndpointPath srv) n2")
      with c Some k sk frames(1) [OF c] frames(3) [OF k] frames(5) [OF b]
        frames(4) [of n3 socket] show ?thesis
        by (simp add: Server_start_def process_start_def process_out_def same_traffic_def)
    qed
  qed
qed

section \<open>The client\<close>

text \<open>
  A call of \<open>sendMessage\<close> sends its message once or not at all, and a reply means that it was sent.
\<close>

lemma receive_reply_traffic:
  assumes ok: "traffic_ok Z T" and r: "receive_reply Z c socket n = (resp, n')"
  shows "sent T n' = sent T n"
proof -
  note frames = traffic_frames [OF ok] and poll = traffic_poll [OF ok] and recv = traffic_recv [OF ok]
  from r show ?thesis
  proof (cases rule: receive_reply_cases)
    case (silent pe)
    with poll [of socket _ n "fst pe" "snd pe" n'] show ?thesis by (auto simp: same_traffic_def)
  next
    case (no_buffer e n1 e2 x)
    with poll [OF no_buffer(1)] frames(7) [OF no_buffer(2)] show ?thesis by (simp add: same_traffic_def)
  next
    case (not_received e n1 x n2 n3)
    with poll [OF not_received(1)] frames(7) [OF not_received(2)] recv [OF not_received(3)]
      frames(9) [of n3 x] show ?thesis by (simp add: same_traffic_def)
  next
    case (received e n1 x n2 e3 n3)
    with poll [OF received(1)] frames(7) [OF received(2)] recv [OF received(3)]
      frames(9) [of n3 x] show ?thesis by (simp add: same_traffic_def)
  qed
qed

lemma destroy_context_traffic:
  assumes "traffic_ok Z T"
  shows "sent T (end_state (destroy_context Z ctx resp n)) = sent T n"
  using traffic_frames(2) [OF assms]
  by (cases rule: destroy_context_cases [of Z ctx resp n]) (auto simp: same_traffic_def)

lemma client_out_traffic:
  assumes "traffic_ok Z T"
  shows "sent T (end_state (client_out Z ctx sk resp n)) = sent T n"
  using traffic_frames(4) [OF assms]
  by (simp add: client_out_def destroy_context_traffic [OF assms] same_traffic_def)

text \<open>This holds for calls that return and for calls that hang.\<close>

lemma Client_sendMessage_traffic:
  assumes ok: "traffic_ok Z T" and s: "Client_sendMessage Z c msg n = ce"
  shows "sent T (end_state ce) = sent T n @ [msg_data msg] \<or>
    sent T (end_state ce) = sent T n \<and> (\<forall>r n'. ce = Returns r n' \<longrightarrow> r = None)"
proof -
  note frames = traffic_frames [OF ok] and out = client_out_traffic [OF ok]
    and ends = destroy_context_traffic [OF ok]
  have ready: "sent T n3 = sent T n"
    if "zmq_ctx_new Z n = (Some ctx, n1)" "zmq_socket Z ctx ZMQ_REQ n1 = (Some sk, n2)"
      "zmq_connect Z sk (Client_makeEndpointPath c) n2 = (e3, n3)" for ctx n1 sk n2 e3 n3
    using frames(1) [OF that(1)] frames(3) [OF that(2)] frames(6) [OF that(3)]
    by (simp add: same_traffic_def)
  from s show ?thesis
  proof (cases rule: Client_sendMessage_cases)
    case (no_context n1)
    with frames(1) [OF no_context(1)] show ?thesis by (simp add: same_traffic_def)
  next
    case (no_socket ctx n1 n2)
    with frames(1) [OF no_socket(1)] frames(3) [OF no_socket(2)] show ?thesis
      by (auto simp: same_traffic_def ends dest: destroy_context_returns)
  next
    case (not_connected ctx n1 sk n2 e3 n3)
    with ready [OF not_connected(1-3)] show ?thesis by (auto simp: out dest: client_out_returns)
  next
    case (no_buffer ctx n1 sk n2 n3 e4 x n4)
    with ready [OF no_buffer(1-3)] frames(8) [OF no_buffer(4)] show ?thesis
      by (auto simp: out same_traffic_def dest: client_out_returns)
  next
    case (not_sent ctx n1 sk n2 n3 x n4 n6)
    with ready [OF not_sent(1-3)] frames(8) [OF not_sent(4)] traffic_send [OF ok not_sent(4,5)]
      frames(9) [of n6 x] show ?thesis by (auto simp: out same_traffic_def dest: client_out_returns)
  next
    case (asked ctx n1 sk n2 n3 x n4 e6 n6 resp n7)
    with ready [OF asked(1-3)] frames(8) [OF asked(4)] traffic_send [OF ok asked(4,5)]
      frames(9) [of n6 x] receive_reply_traffic [OF ok asked(7)] show ?thesis
      by (simp add: out same_traffic_def)
  qed
qed

end
