(* ===== verification/Memory_Net.thy ===== *)
theory Memory_Net
  imports Example_Run Answers Service Command_Line Replies
begin

text \<open>
  An instance of ZeroMQ that runs in memory: objects are numbered, received messages come from an
  inbox and sent ones go to an outbox.  It meets the laws of \<open>zmq_ok\<close>; with it a turn of the
  server can be run on the chain of \<open>Example_Run\<close>.
\<close>

record net =
  alive :: "bool list"
  inbox :: "bytes list"
  outbox :: "bytes list"
  buffers :: "nat \<Rightarrow> bytes"
  owes :: "nat \<Rightarrow> bool"

definition empty_net :: net where
  "empty_net = \<lparr>alive = [], inbox = [], outbox = [], buffers = (\<lambda>_. []), owes = (\<lambda>_. False)\<rparr>"

definition net_live :: "net \<Rightarrow> nat set" where
  "net_live n = {x. x < length (alive n) \<and> alive n ! x}"

definition net_new :: "net \<Rightarrow> nat \<times> net" where
  "net_new n = (length (alive n), n\<lparr>alive := alive n @ [True]\<rparr>)"

definition net_release :: "nat \<Rightarrow> net \<Rightarrow> net" where
  "net_release x n = n\<lparr>alive := (alive n)[x := False]\<rparr>"

definition net_recv :: "nat \<Rightarrow> nat \<Rightarrow> net \<Rightarrow> int \<times> net" where
  "net_recv x s n =
     (case inbox n of
        [] \<Rightarrow> (- 1, n)
      | b # bs \<Rightarrow>
          (int (length b),
           n\<lparr>inbox := bs, buffers := (buffers n)(x := b), owes := (owes n)(s := True)\<rparr>))"

definition mem_zmq :: "(net, nat) zmq_lib" where
  "mem_zmq =
     \<lparr>ZMQ_POLL_MSEC = 1,
      zmq_ctx_new = (\<lambda>n. apfst Some (net_new n)),
      zmq_ctx_destroy = (\<lambda>x n. Some (0, net_release x n)),
      zmq_socket = (\<lambda>c t n. apfst Some (net_new n)),
      zmq_close = net_release,
      zmq_bind = (\<lambda>s e n. (0, n)),
      zmq_connect = (\<lambda>s e n. (0, n)),
      zmq_poll = (\<lambda>s t n. ((0, inbox n \<noteq> [] \<and> \<not> owes n s), n)),
      zmq_msg_init = (\<lambda>n. apfst (Pair 0) (net_new n)),
      zmq_msg_init_size = (\<lambda>k n. apfst (Pair 0) (net_new n)),
      zmq_msg_fill = (\<lambda>x b n. n\<lparr>buffers := (buffers n)(x := b)\<rparr>),
      zmq_msg_recv = net_recv,
      zmq_msg_send = (\<lambda>x s n.
        (0, n\<lparr>outbox := outbox n @ [buffers n x], owes := (owes n)(s := False)\<rparr>)),
      zmq_msg_data = (\<lambda>x n. buffers n x),
      zmq_msg_size = (\<lambda>x n. length (buffers n x)),
      zmq_msg_close = net_release\<rparr>"

lemma net_live_release: "net_live (net_release x n) = net_live n - {x}"
  by (cases "x < length (alive n)") (auto simp: net_live_def net_release_def nth_list_update)

lemma net_live_new: "net_new n = (x, n') \<Longrightarrow> x \<notin> net_live n \<and> net_live n' = insert x (net_live n)"
  by (auto simp: net_live_def net_new_def nth_append less_Suc_eq)

lemma net_live_cong: "alive n' = alive n \<Longrightarrow> net_live n' = net_live n"
  by (simp add: net_live_def)

lemma mem_zmq_ok: "zmq_ok mem_zmq net_live"
proof -
  have "zmq_objects_ok mem_zmq net_live"
    using net_live_new
    by (auto simp: zmq_objects_ok_def mem_zmq_def net_live_release makes_def apfst_def map_prod_def
        split: prod.splits)
  moreover have "zmq_frame_ok mem_zmq net_live"
    by (auto simp: zmq_frame_ok_def mem_zmq_def net_recv_def intro!: net_live_cong split: list.splits)
  ultimately show ?thesis by (simp add: zmq_ok_def)
qed

definition net_traffic :: "(net, nat) traffic_view" where
  "net_traffic = \<lparr>sent = outbox, pending = owes\<rparr>"

lemma mem_traffic_ok: "traffic_ok mem_zmq net_traffic"
proof -
  have "traffic_frame mem_zmq net_traffic"
    by (simp add: traffic_frame_def mem_zmq_def net_traffic_def same_traffic_def net_new_def
        net_release_def)
  moreover have "traffic_rules mem_zmq net_traffic"
    by (auto simp: traffic_rules_def mem_zmq_def net_traffic_def same_traffic_def net_recv_def
        split: list.splits)
  ultimately show ?thesis by (simp add: traffic_ok_def)
qed

text \<open>A process that forks, and system calls without an effect on the databases.\<close>

definition mem_posix :: "world posix_lib" where
  "mem_posix =
     \<lparr>posix_fork = (\<lambda>w. (0, w)), posix_setsid = (\<lambda>w. w), posix_open = (\<lambda>p w. (3, w)),
      posix_dup2 = (\<lambda>a b w. w), posix_close = (\<lambda>fd w. w), posix_signal = (\<lambda>s w. w),
      rotating_file_sink = (\<lambda>p s k w. (True, w))\<rparr>"

section \<open>A turn of the server\<close>

text \<open>The service without a password over the directory of the run.\<close>

definition ex_service :: chaindb where
  "ex_service = ChainDB_new\<lparr>svc_storageDir := ''/data''\<rparr>"

definition waiting_net :: net where
  "waiting_net = empty_net\<lparr>inbox := [enc_request add_first]\<rparr>"

definition started_state :: "(world, net, nat) server_state" where
  "started_state = Server_start mem_zmq (ChainDB_server ex_service) created_world waiting_net"

lemma ex_service_handler: "ChainDB_handler ex_service = open_handler"
  by (simp add: ChainDB_handler_def ex_service_def ChainDB_new_def open_handler_def ex_manager_def)

lemma started: "started_state =
    \<lparr>isStopped = True, phase = Serving 0 1, databases = created_world,
     network = waiting_net\<lparr>alive := [True, True]\<rparr>\<rparr>"
  by (simp add: started_state_def Server_start_def process_start_def mem_zmq_def net_new_def
      waiting_net_def empty_net_def)

definition add_reply :: message where
  "add_reply = \<lparr>msg_data = enc_response
     (success_response\<lparr>resp_add_block := Some (Some (setBlockData ex_block))\<rparr>)\<rparr>"

lemma handle_add_first:
  "handleMessage mem_env open_handler (message_of add_first) created_world =
    Some (Some add_reply, grown_world)"
  using parse_message_of [of add_first]
  by (simp add: handleMessage_def Message_length_def Message_data_def dispatch_def add_first_def
      request_default_def handleAddBlockRequest_def grown_block MAX_DATA_LENGTH_def
      makeResponse_def mem_pb_def add_reply_def)

definition served_net :: net where
  "served_net = snd (snd (snd (the (process_turn mem_zmq (handleMessage mem_env open_handler) 1
     created_world (network started_state)))))"

lemma served_turn:
  "process_turn mem_zmq (handleMessage mem_env open_handler) 1 created_world (network started_state) =
    Some (True, [message_of add_first], grown_world, served_net)"
  and served_outbox: "outbox served_net = [msg_data add_reply]"
proof -
  have m: "Message_new (enc_request add_first) (length (enc_request add_first)) = message_of add_first"
    by (simp add: message_of_def)
  have "\<exists>n. process_turn mem_zmq (handleMessage mem_env open_handler) 1 created_world
      (network started_state) = Some (True, [message_of add_first], grown_world, n) \<and>
      outbox n = [msg_data add_reply]"
    by (simp add: process_turn_def started mem_zmq_def net_new_def net_recv_def waiting_net_def
        empty_net_def ZMQ_POOL_TIMEOUT_def m handle_add_first net_release_def Message_length_def
        Message_data_def del: Message_new_whole)
  then show "process_turn mem_zmq (handleMessage mem_env open_handler) 1 created_world
      (network started_state) = Some (True, [message_of add_first], grown_world, served_net)"
    "outbox served_net = [msg_data add_reply]"
    by (auto simp: served_net_def)
qed

definition served_state :: "(world, net, nat) server_state" where
  "served_state = started_state\<lparr>databases := grown_world, network := served_net\<rparr>"

lemma served: "server_runs mem_zmq (handleMessage mem_env open_handler) started_state
    [message_of add_first] served_state"
proof -
  let ?h = "handleMessage mem_env open_handler" and ?s = "started_state\<lparr>phase := Turning 0 1\<rparr>"
  have "server_step mem_zmq ?h started_state [] ?s"
    by (rule server_step.enter) (simp_all add: started)
  then have e: "server_runs mem_zmq ?h started_state ([] @ []) ?s"
    by (rule server_runs.more [OF server_runs.here])
  have "process_turn mem_zmq ?h 1 (databases ?s) (network ?s) =
      Some (True, [message_of add_first], grown_world, served_net)"
    using served_turn by (simp add: started)
  then have "server_step mem_zmq ?h ?s [message_of add_first]
      (?s\<lparr>phase := Serving 0 1, databases := grown_world, network := served_net\<rparr>)"
    by (intro server_step.turn) simp_all
  also have "?s\<lparr>phase := Serving 0 1, databases := grown_world, network := served_net\<rparr> = served_state"
    by (simp add: served_state_def started)
  finally show ?thesis using server_runs.more [OF e] by simp
qed

section \<open>Reading the block back\<close>

definition read_response :: response where
  "read_response = success_response\<lparr>resp_get_block := Some (Some (setBlockData ex_block))\<rparr>"

lemma handle_read_first:
  obtains reply w' where
    "handleMessage mem_env open_handler (message_of read_first) grown_world = Some (reply, w')"
    "carries (env_pb mem_env) read_response reply"
proof -
  from Manager_getBlock_live [OF mem_env_ok mem_env_live _ grown_ledger, of 1] obtain w'
    where b: "Manager_getBlock mem_env ex_manager 1 1 grown_world = (Some ex_block, w')" by auto
  have "authorized mem_env open_handler read_first" by (simp add: authorized_def)
  from handleMessage_authorized [OF parse_example this, of grown_world] b
  have "handleMessage mem_env open_handler (message_of read_first) grown_world =
      Some (makeResponse mem_pb read_response, w')"
    by (simp add: dispatch_def read_first_def request_default_def handleGetBlockRequest_def
        read_response_def)
  moreover have "carries (env_pb mem_env) read_response (makeResponse mem_pb read_response)"
    by (simp add: carries_def makeResponse_def mem_pb_def whole_inverts inverts_response)
  ultimately show thesis by (rule that)
qed

end
