(* ===== verification/Restarts.thy ===== *)
theory Restarts
  imports Service
begin

text \<open>
  The service over many lives: its process ends, or is killed, and is started again over the same
  storage directory.  A process that is killed is one whose calls of the database library do not
  reach the disk any more from some call on; \<open>mortal_env\<close> gives every environment such a limit.
  \<open>service_lives\<close> are sequences of processes, each with its own arguments and its own end.
\<close>

section \<open>A process that dies\<close>

text \<open>
  The number \<open>k\<close> next to the world counts the calls of the library that still have an effect.
  After the last one every call fails and changes nothing.  Files are closed when the process dies,
  so \<open>delete\<close> always works; it does not change the disk.
\<close>

definition reaching :: "('w \<Rightarrow> 'r \<times> 'w) \<Rightarrow> 'r \<Rightarrow> 'w \<times> nat \<Rightarrow> 'r \<times> 'w \<times> nat" where
  "reaching call lost = (\<lambda>(w, k).
     (case k of
        0 \<Rightarrow> (lost, (w, 0))
      | Suc k \<Rightarrow> let (r, w) = call w in (r, (w, k))))"

definition mortal_db :: "('w, 'h) db_lib \<Rightarrow> ('w \<times> nat, 'h) db_lib" where
  "mortal_db D =
     \<lparr>db_Open = (\<lambda>opt p. reaching (db_Open D opt p) None),
      db_Get = (\<lambda>c h k. reaching (db_Get D c h k) None),
      db_Write = (\<lambda>s h batch. reaching (db_Write D s h batch) False),
      db_delete = (\<lambda>h (w, k). (db_delete D h w, k)),
      db_DestroyDB = (\<lambda>p opt. reaching (db_DestroyDB D p opt) False)\<rparr>"

definition beside :: "('w \<Rightarrow> 'r \<times> 'w) \<Rightarrow> 'w \<times> nat \<Rightarrow> 'r \<times> 'w \<times> nat" where
  "beside call = (\<lambda>(w, k). let (r, w) = call w in (r, (w, k)))"

definition mortal_rand :: "'w rand_lib \<Rightarrow> ('w \<times> nat) rand_lib" where
  "mortal_rand R =
     \<lparr>RAND_status = RAND_status R \<circ> fst, RAND_poll = beside (RAND_poll R),
      RAND_bytes = (\<lambda>n. beside (RAND_bytes R n)),
      RAND_priv_bytes = (\<lambda>n. beside (RAND_priv_bytes R n))\<rparr>"

definition mortal_env :: "('w, 'h, 'c, 'pk, 'sg) env \<Rightarrow> ('w \<times> nat, 'h, 'c, 'pk, 'sg) env" where
  "mortal_env E =
     \<lparr>env_db = mortal_db (env_db E), env_rand = mortal_rand (env_rand E), env_sha = env_sha E,
      env_ec = env_ec E, env_pb = env_pb E\<rparr>"

definition mortal_view :: "('w, 'h) db_view \<Rightarrow> ('w \<times> nat, 'h) db_view" where
  "mortal_view V = \<lparr>disk = disk V \<circ> fst, handles = handles V \<circ> fst\<rparr>"

lemma beside_simps [simp]:
  "fst (beside call wk) = fst (call (fst wk))" "fst (snd (beside call wk)) = snd (call (fst wk))"
  by (simp_all add: beside_def split: prod.split)

lemma mortal_simps [simp]:
  "env_db (mortal_env E) = mortal_db (env_db E)" "env_rand (mortal_env E) = mortal_rand (env_rand E)"
  "env_sha (mortal_env E) = env_sha E" "env_ec (mortal_env E) = env_ec E" "env_pb (mortal_env E) = env_pb E"
  "disk (mortal_view V) wk = disk V (fst wk)" "handles (mortal_view V) wk = handles V (fst wk)"
  by (simp_all add: mortal_env_def mortal_view_def)

lemma reaching_cases:
  assumes "reaching call lost wk = (r, wk')"
  obtains "r = lost" "wk' = wk" | "call (fst wk) = (r, fst wk')"
  using assms by (auto simp: reaching_def split: prod.splits nat.splits)

text \<open>Such a process meets the laws of the environment: dying is a fault like others.\<close>

lemma mortal_open_ok: "open_ok D V \<Longrightarrow> open_ok (mortal_db D) (mortal_view V)"
  unfolding open_ok_def mortal_view_def db_view.simps comp_apply
proof (intro allI impI, goal_cases)
  case law: (1 opt p wk r wk')
  from law(2) have "reaching (db_Open D opt p) None wk = (r, wk')" by (simp add: mortal_db_def)
  then show ?case
  proof (cases rule: reaching_cases)
    case 2
    show ?thesis by (rule law(1) [THEN spec, THEN spec, THEN spec, THEN spec, THEN spec,
          THEN mp, OF 2])
  qed simp
qed

lemma mortal_get_ok: "get_ok D V \<Longrightarrow> get_ok (mortal_db D) (mortal_view V)"
  unfolding get_ok_def mortal_view_def db_view.simps comp_apply
proof (intro allI impI, goal_cases)
  case law: (1 c h k wk r wk')
  from law(2) have "reaching (db_Get D c h k) None wk = (r, wk')" by (simp add: mortal_db_def)
  then show ?case
  proof (cases rule: reaching_cases)
    case 2
    show ?thesis by (rule law(1) [THEN spec, THEN spec, THEN spec, THEN spec, THEN spec, THEN spec,
          THEN mp, OF 2])
  qed simp
qed

lemma mortal_write_ok: "write_ok D V \<Longrightarrow> write_ok (mortal_db D) (mortal_view V)"
  unfolding write_ok_def mortal_view_def db_view.simps comp_apply
proof (intro allI impI, elim conjE, goal_cases)
  case law: (1 h batch wk r wk' p m)
  from law(2) have "reaching (db_Write D True h batch) False wk = (r, wk')" by (simp add: mortal_db_def)
  then show ?case
  proof (cases rule: reaching_cases)
    case 2
    show ?thesis by (rule law(1) [THEN spec, THEN spec, THEN spec, THEN spec, THEN spec, THEN spec, THEN spec,
          THEN mp, OF conjI [OF 2 conjI [OF law(3,4)]]])
  qed (use law(3,4) in simp)
qed

lemma mortal_destroy_ok: "destroy_ok D V \<Longrightarrow> destroy_ok (mortal_db D) (mortal_view V)"
  unfolding destroy_ok_def mortal_view_def db_view.simps comp_apply
proof (intro allI impI, goal_cases)
  case law: (1 p opt wk r wk')
  from law(2) have "reaching (db_DestroyDB D p opt) False wk = (r, wk')" by (simp add: mortal_db_def)
  then show ?case
  proof (cases rule: reaching_cases)
    case 2
    show ?thesis by (rule law(1) [THEN spec, THEN spec, THEN spec, THEN spec, THEN spec,
          THEN mp, OF 2])
  qed simp
qed

lemma mortal_delete_ok: "delete_ok D V \<Longrightarrow> delete_ok (mortal_db D) (mortal_view V)"
  by (simp add: delete_ok_def mortal_db_def split: prod.split)

lemma mortal_db_ok: "db_ok D V \<Longrightarrow> db_ok (mortal_db D) (mortal_view V)"
  by (simp add: db_ok_def mortal_open_ok mortal_get_ok mortal_write_ok mortal_delete_ok mortal_destroy_ok)

lemma mortal_env_ok:
  assumes "env_ok E V"
  shows "env_ok (mortal_env E) (mortal_view V)"
proof -
  have "rand_ok (mortal_rand (env_rand E)) (\<lambda>wk. (disk V (fst wk), handles V (fst wk)))"
    using assms unfolding env_ok_def rand_ok_def
    by (simp add: mortal_rand_def) (auto simp: beside_def split: prod.splits)
  with assms show ?thesis by (simp add: env_ok_def mortal_db_ok)
qed

lemma mortal_chain:
  "chain_ledger (mortal_env E) (mortal_view V) M wk i = chain_ledger E V M (fst wk) i"
  "sound_chain (mortal_env E) (mortal_view V) M wk i = sound_chain E V M (fst wk) i"
  "message_removes (mortal_env E) H msg i = message_removes E H msg i"
  by (simp_all add: chain_ledger_def sound_chain_def message_removes_def command_of_def authorized_def
      split: option.split)

section \<open>Starting\<close>

text \<open>What a process does before it serves leaves the databases alone.\<close>

definition posix_ok :: "'w posix_lib \<Rightarrow> ('w, 'h) db_view \<Rightarrow> bool" where
  "posix_ok X V \<longleftrightarrow>
     (\<forall>w. unchanged V w (snd (posix_fork X w)) \<and> unchanged V w (posix_setsid X w) \<and>
        (\<forall>p. unchanged V w (snd (posix_open X p w))) \<and> (\<forall>a b. unchanged V w (posix_dup2 X a b w)) \<and>
        (\<forall>fd. unchanged V w (posix_close X fd w)) \<and> (\<forall>s. unchanged V w (posix_signal X s w)) \<and>
        (\<forall>p a b. unchanged V w (snd (rotating_file_sink X p a b w))))"

lemma daemonize_unchanged:
  assumes "posix_ok X V"
  shows "unchanged V w (snd (daemonize X w))"
  using assms by (simp add: posix_ok_def unchanged_def daemonize_def Let_def case_prod_beta)

lemma initializeRandomGenerator_unchanged:
  assumes "rand_ok R (\<lambda>w. (disk V w, handles V w))"
  shows "unchanged V w (snd (initializeRandomGenerator R w))"
  using assms by (simp add: rand_ok_def unchanged_def initializeRandomGenerator_def Random_poll_def
      Let_def case_prod_beta)

lemma ChainDB_initialize_unchanged:
  assumes "posix_ok X V" and "rand_ok R (\<lambda>w. (disk V w, handles V w))"
  shows "unchanged V w (snd (snd (ChainDB_initialize X R argv c w)))"
proof -
  let ?w = "initializeSignalHandler X w"
  have w: "unchanged V w ?w"
    using assms(1) by (simp add: posix_ok_def unchanged_def initializeSignalHandler_def)
  have l: "unchanged V v (snd (initializeLogger X c v))" for c v
    using assms(1) by (simp add: posix_ok_def initializeLogger_def)
  obtain parsed c' out where p: "parseArgs argv ChainDB_handlers c = (parsed, c', out)"
    by (metis prod_cases3)
  obtain alive w1 where d: "(if svc_daemonize c' then daemonize X ?w else (True, ?w)) = (alive, w1)"
    by fastforce
  with daemonize_unchanged [OF assms(1), of ?w] have u1: "unchanged V ?w w1" by (auto split: if_splits)
  obtain opened w2 where o: "initializeLogger X c' w1 = (opened, w2)" by fastforce
  with l [of w1 c'] have u2: "unchanged V w1 w2" by simp
  obtain ok w3 where g: "initializeRandomGenerator R w2 = (ok, w3)" by fastforce
  with initializeRandomGenerator_unchanged [OF assms(2), of w2] have "unchanged V w2 w3" by simp
  with w u1 u2 have "unchanged V w w1" "unchanged V w w2" "unchanged V w w3"
    by (simp_all add: unchanged_def)
  with w p d o g show ?thesis
    by (cases parsed) (simp_all add: ChainDB_initialize_def Let_def)
qed

section \<open>Lives\<close>

text \<open>
  The process serves the directory, and none of the messages it handles removes the chain.
\<close>

definition spares :: "('d, 'h, 'c, 'pk, 'sg) env \<Rightarrow> string \<Rightarrow> size_t \<Rightarrow> chaindb \<Rightarrow> message list \<Rightarrow> bool" where
  "spares E dir i c log \<longleftrightarrow>
     svc_storageDir c = dir \<and> (\<forall>msg \<in> set log. \<not> message_removes E (ChainDB_handler c) msg i)"

text \<open>
  One life, from the databases \<open>d\<close> to the databases \<open>d'\<close>, with at most \<open>m\<close> messages: a run of
  \<open>main\<close> with any arguments for this directory, to its end; or a process that has started to serve
  and is killed after any number of calls of the database library.
\<close>

inductive service_life ::
  "'d posix_lib \<Rightarrow> ('n, 'o) zmq_lib \<Rightarrow> ('d, 'h, 'c, 'pk, 'sg) env \<Rightarrow> string \<Rightarrow> size_t
     \<Rightarrow> 'd \<Rightarrow> nat \<Rightarrow> 'd \<Rightarrow> bool"
  for X :: "'d posix_lib" and Z :: "('n, 'o) zmq_lib" and E :: "('d, 'h, 'c, 'pk, 'sg) env"
    and dir i where
  ended: "service_main X Z E argv d n code log d' \<Longrightarrow>
    (\<And>c d1. ChainDB_initialize X (env_rand E) argv ChainDB_new d = (Initialized True, c, d1) \<Longrightarrow>
       spares E dir i c log) \<Longrightarrow>
    service_life X Z E dir i d (length log) d'"
| killed: "ChainDB_initialize X (env_rand E) argv ChainDB_new d = (Initialized True, c, d1) \<Longrightarrow>
    server_runs Z (handleMessage (mortal_env E) (ChainDB_handler c))
      (Server_start Z (ChainDB_server c) (d1, k) n) log s \<Longrightarrow>
    spares E dir i c log \<Longrightarrow>
    service_life X Z E dir i d (length log) (fst (databases s))"

inductive service_lives ::
  "'d posix_lib \<Rightarrow> ('n, 'o) zmq_lib \<Rightarrow> ('d, 'h, 'c, 'pk, 'sg) env \<Rightarrow> string \<Rightarrow> size_t
     \<Rightarrow> 'd \<Rightarrow> nat \<Rightarrow> 'd \<Rightarrow> bool"
  for X :: "'d posix_lib" and Z :: "('n, 'o) zmq_lib" and E :: "('d, 'h, 'c, 'pk, 'sg) env"
    and dir i where
  unborn: "service_lives X Z E dir i d 0 d"
| reborn: "service_lives X Z E dir i d m d1 \<Longrightarrow> service_life X Z E dir i d1 m' d2 \<Longrightarrow>
    service_lives X Z E dir i d (m + m') d2"

text \<open>How a chain of the directory may look later, after at most \<open>m\<close> messages.\<close>

definition grows ::
  "('d, 'h, 'c, 'pk, 'sg) env \<Rightarrow> ('d, 'h) db_view \<Rightarrow> manager \<Rightarrow> size_t \<Rightarrow> 'd \<Rightarrow> nat \<Rightarrow> 'd \<Rightarrow> bool" where
  "grows E V M i d m d' \<longleftrightarrow>
     handles V d' = handles V d \<and> (sound_chain E V M d i \<longrightarrow> sound_chain E V M d' i) \<and>
     (\<forall>h bs. chain_ledger E V M d i = Some (h, bs) \<and> length bs + m < 2 ^ 64 \<longrightarrow>
        (\<exists>h' new. chain_ledger E V M d' i = Some (h', bs @ new) \<and> length new \<le> m \<and> same_chain h h'))"

lemma grows_unchanged: "unchanged V d d' \<Longrightarrow> grows E V M i d 0 d'"
  by (simp add: grows_def sound_chain_unchanged chain_ledger_unchanged unchanged_handles)

lemma grows_run:
  assumes "env_ok E V" and "run_steps (message_step E H) log d = Some d'" and "hdl_manager H = M"
    and "\<And>msg. msg \<in> set log \<Longrightarrow> \<not> message_removes E H msg i"
  shows "grows E V M i d (length log) d'"
  using srv.run_sound [OF assms(1,2,4)] srv.run_append_only [OF assms(1,2,4)]
    srv.run_opened [OF assms(1,2)] assms(3)
  unfolding grows_def by blast

lemma grows_mortal:
  "grows (mortal_env E) (mortal_view V) M i (d, k) m dk \<Longrightarrow> grows E V M i d m (fst dk)"
  by (simp add: grows_def mortal_chain)

lemma grows_trans:
  assumes "grows E V M i d m d1" and "grows E V M i d1 m' d2"
  shows "grows E V M i d (m + m') d2"
proof -
  have "\<exists>h' new. chain_ledger E V M d2 i = Some (h', bs @ new) \<and> length new \<le> m + m' \<and> same_chain h h'"
    if "chain_ledger E V M d i = Some (h, bs)" "length bs + (m + m') < 2 ^ 64" for h bs
  proof -
    from assms(1) that obtain h1 new where "chain_ledger E V M d1 i = Some (h1, bs @ new)"
      and n: "length new \<le> m" "same_chain h h1"
      unfolding grows_def by (meson add_lessD1 group_cancel.add2 le_add1 le_less_trans nat_add_left_cancel_le)
    moreover from n(1) that(2) have "length (bs @ new) + m' < 2 ^ 64" by simp
    ultimately obtain h' new' where "chain_ledger E V M d2 i = Some (h', (bs @ new) @ new')"
      "length new' \<le> m'" "same_chain h1 h'"
      using assms(2) unfolding grows_def by blast
    with n show ?thesis by (intro exI [of _ h'] exI [of _ "new @ new'"]) (auto intro: same_chain_trans)
  qed
  with assms show ?thesis by (simp add: grows_def)
qed

lemma service_life_grows:
  assumes ok: "env_ok E V" and p: "posix_ok X V" and "service_life X Z E dir i d m d'"
  shows "grows E V \<lparr>storageDir = dir\<rparr> i d m d'"
  using assms(3)
proof cases
  case (ended argv n code log)
  have init: "unchanged V d d1" if "ChainDB_initialize X (env_rand E) argv ChainDB_new d = (r, c, d1)"
    for r c d1
    using that ChainDB_initialize_unchanged [OF p env_okD(2) [OF ok], of d argv ChainDB_new] by simp
  from ended(2) show ?thesis
  proof (cases rule: service_main.cases)
    case (finished c d1 s r)
    with ended(3) have s: "spares E dir i c log" by blast
    have "grows E V \<lparr>storageDir = dir\<rparr> i d1 (length log) (databases s)"
      by (rule grows_run [OF ok ChainDB_run_history [OF finished(4)]])
        (use s in \<open>auto simp: spares_def ChainDB_handler_def\<close>)
    then have "grows E V \<lparr>storageDir = dir\<rparr> i d1 (length log) d'" using finished(2) by simp
    with grows_trans [OF grows_unchanged [OF init [OF finished(3)]]] ended(1) show ?thesis by fastforce
  qed (use ended(1) init in \<open>auto intro: grows_unchanged\<close>)
next
  case (killed argv c d1 k n log s)
  let ?H = "ChainDB_handler c"
  have "run_steps (message_step (mortal_env E) ?H) log (d1, k) = Some (databases s)"
    using server_runs_databases [OF killed(4)] by (simp add: run_handled)
  then have "grows (mortal_env E) (mortal_view V) \<lparr>storageDir = dir\<rparr> i (d1, k) (length log) (databases s)"
    by (rule grows_run [OF mortal_env_ok [OF ok]])
      (use killed(5) in \<open>auto simp: spares_def ChainDB_handler_def mortal_chain\<close>)
  then have "grows E V \<lparr>storageDir = dir\<rparr> i d1 m d'" using grows_mortal killed(1,2) by fastforce
  from grows_trans [OF grows_unchanged this] show ?thesis
    using ChainDB_initialize_unchanged [OF p env_okD(2) [OF ok], of d argv ChainDB_new] killed(3) by simp
qed

lemma service_lives_grow:
  assumes "env_ok E V" and "posix_ok X V" and "service_lives X Z E dir i d m d'"
  shows "grows E V \<lparr>storageDir = dir\<rparr> i d m d'"
  using assms(3)
  by (induction rule: service_lives.induct)
    (auto intro: grows_unchanged grows_trans service_life_grows [OF assms(1,2)])

end
