(* ===== verification/Service_Properties.thy ===== *)
theory Service_Properties
  imports Storage_Properties Memory_Net Restarts
begin

text \<open>
  The properties of the service around the storage layer: the request handler, the server thread,
  the two command lines and the client.
\<close>

section \<open>The request handler\<close>

text \<open>
  C12: handling a message refines one operation of the manager.  The effect of \<open>handleMessage\<close> on
  the world is the effect of the command that \<open>command_of\<close> reads from the message, and none at all
  when the message does not parse, is not authorized, is too large or asks for nothing.
\<close>

theorem message_refines_command:
  "map_option snd (handleMessage E H msg w) = effect_of E H (command_of E H msg) w"
  by (rule handleMessage_effect)

text \<open>
  C18: authorization is enforced.  A handler with a password answers every request that does not
  carry the hash of that password with \<open>NOT_AUTHORIZED\<close> and leaves the world as it is.
\<close>

theorem unauthorized_rejected:
  assumes "request_Parse (env_pb E) (msg_data msg) = Some req" and "\<not> authorized E H req"
  shows "\<exists>text. handleMessage E H msg w = Some (makeStatus (env_pb E) NOT_AUTHORIZED text, w)"
  using handleMessage_unauthorized [OF assms] by blast

lemma unauthorized_rejected_witness:
  "\<exists>text. handleMessage mem_env locked_handler (message_of add_first) created_world =
    Some (makeStatus mem_pb NOT_AUTHORIZED text, created_world)"
proof -
  have "\<not> authorized mem_env locked_handler add_first"
    by (simp add: authorized_def add_first_def request_default_def)
  from unauthorized_rejected [OF _ this, of "message_of add_first" created_world]
  show ?thesis by simp
qed

text \<open>
  C31: data beyond \<open>MAX_DATA_LENGTH\<close> are refused with \<open>DATA_ERROR\<close> before the storage is touched,
  both in a request to create a chain and in one to add a block.
\<close>

theorem oversized_data_rejected:
  assumes "request_Parse (env_pb E) (msg_data msg) = Some req" and "authorized E H req"
    and "req_ping req = None"
    and "req_create_chain req = Some r \<or>
      req_create_chain req = None \<and> req_remove_chain req = None \<and> req_add_block req = Some r"
    and "length (cdr_data r) > MAX_DATA_LENGTH"
  shows "handleMessage E H msg w =
    Some (makeStatus (env_pb E) DATA_ERROR ''Can't create chain (Data field size is too large)'', w)"
  using assms(4)
proof (elim disjE conjE)
  assume "req_create_chain req = Some r"
  with assms(3,5) show ?thesis
    by (simp add: handleMessage_authorized [OF assms(1,2)] dispatch_def handleCreateChainRequest_def)
next
  assume "req_create_chain req = None" "req_remove_chain req = None" "req_add_block req = Some r"
  with assms(3,5) show ?thesis
    by (simp add: handleMessage_authorized [OF assms(1,2)] dispatch_def handleAddBlockRequest_def)
qed

definition big_request :: request where
  "big_request = request_default
     \<lparr>req_create_chain := Some \<lparr>cdr_chain_id = 1, cdr_data = replicate 8193 (CHR ''x'')\<rparr>\<rparr>"

lemma oversized_data_rejected_witness:
  "handleMessage mem_env open_handler (message_of big_request) empty_world =
    Some (makeStatus mem_pb DATA_ERROR ''Can't create chain (Data field size is too large)'', empty_world)"
  using oversized_data_rejected [where E = mem_env and H = open_handler
      and msg = "message_of big_request" and req = big_request and w = empty_world
      and r = "\<lparr>cdr_chain_id = 1, cdr_data = replicate 8193 (CHR ''x'')\<rparr>"]
  by (simp add: big_request_def request_default_def authorized_def MAX_DATA_LENGTH_def)




text \<open>
  C23: answers are well-formed.  Every message the handler sends back parses to a response with a
  status.  With \<open>SUCCESS\<close> it has no text, the request was readable and authorized, and the response
  has the result field of that request and no other (an empty list of blocks being an absent
  field); with any other status it has a text and no result.
\<close>

theorem response_well_formed:
  assumes "pb_ok (env_pb E)" and "handleMessage E H msg w = Some (Some m, w')"
  shows "\<exists>resp st. response_Parse (env_pb E) (msg_data m) = Some resp \<and> resp_status resp = Some st \<and>
    (if sr_status st = status_code SUCCESS then
       sr_message st = '''' \<and>
       (\<exists>req. request_Parse (env_pb E) (msg_data msg) = Some req \<and> authorized E H req \<and>
          (result_fields resp = set_option (result_field req) \<or>
           result_field req = Some GetBlocksField \<and> result_fields resp = {}))
     else sr_message st \<noteq> '''' \<and> result_fields resp = {})"
proof -
  have refused: "\<exists>resp st. response_Parse (env_pb E) (msg_data m) = Some resp \<and>
      resp_status resp = Some st \<and> sr_status st \<noteq> status_code SUCCESS \<and> sr_message st \<noteq> '''' \<and>
      result_fields resp = {}"
    if "Some m = makeStatus (env_pb E) code tx" "code \<noteq> SUCCESS" "tx \<noteq> ''''" for code tx
    using makeStatus_carries [OF assms(1) that(1) [symmetric]] that(2,3)
    by (auto simp: carries_def status_only_def result_fields_status [unfolded status_only_def]
        simp del: status_code.simps)
  show ?thesis
  proof (cases "request_Parse (env_pb E) (msg_data msg)")
    case None
    with assms(2) have "Some m = makeStatus (env_pb E) DATA_ERROR ''Can't parse data''"
      by (simp add: handleMessage_def Message_data_def Message_length_def)
    from refused [OF this] show ?thesis by auto
  next
    case (Some req)
    show ?thesis
    proof (cases "authorized E H req")
      case True
      with assms(2) handleMessage_authorized [OF Some] have "dispatch E H req w = Some (Some m, w')"
        by simp
      from dispatch_answer [OF assms(1) this] Some True show ?thesis
        by (fastforce simp: answers_def well_formed_def split: option.splits if_split_asm)
    next
      case False
      from handleMessage_unauthorized [OF Some this, of w] assms(2) obtain tx
        where "Some m = makeStatus (env_pb E) NOT_AUTHORIZED tx" "tx \<noteq> ''''" by auto
      from refused [OF this(1) _ this(2)] show ?thesis by auto
    qed
  qed
qed

lemma response_well_formed_witness:
  "\<exists>resp. response_Parse mem_pb (msg_data add_reply) = Some resp \<and> resp_status resp \<noteq> None"
  using response_well_formed [OF _ handle_add_first] mem_pb_ok by auto

text \<open>
  C22: positive answers to reading requests are true.  With the status \<open>SUCCESS\<close>, the answer to a
  request for a block contains the block with that number, the answer to a request for all blocks
  contains exactly the blocks of the ledger in order (no block list at all for an empty chain),
  the answer to a request to verify means that the ledger verifies, and the answers to requests for
  the header, the keys and the state of a chain contain those of its ledger, the private key
  included.
\<close>

theorem read_answers_true:
  assumes ok: "env_ok E V" and p: "request_Parse (env_pb E) (msg_data msg) = Some req"
    and a: "authorized E H req"
    and l: "chain_ledger E V (hdl_manager H) w i = Some (h, bs)"
    and m: "handleMessage E H msg w = Some (reply, w')"
    and c: "carries (env_pb E) resp reply"
    and s: "map_option sr_status (resp_status resp) = Some (status_code SUCCESS)"
  shows "(requested req = Some (GetBlock i n) \<longrightarrow>
      n \<noteq> 0 \<and> n \<le> hdr_index h \<and> resp_get_block resp = Some (Some (setBlockData (bs ! (unat n - 1))))) \<and>
    (requested req = Some (GetBlocks i) \<longrightarrow>
      resp_get_blocks resp = (if bs = [] then None else Some (map setBlockData bs))) \<and>
    (requested req = Some (VerifyChain i) \<longrightarrow> verified (env_sha E) (env_ec E) h bs) \<and>
    (requested req = Some (GetChainHeader i) \<longrightarrow>
      (if req_get_chain_header req \<noteq> None
       then resp_get_chain_header resp = Some (Some (header_message h))
       else resp_get_chain_keys resp = Some (keys_message h))) \<and>
    (requested req = Some (GetChainInfo i) \<longrightarrow> resp_get_chain_info resp =
      Some \<lparr>ci_chain_id = i, ci_version = DB_VERSION, ci_index = word_of_nat (length bs)\<rparr>)"
proof (intro conjI impI)
  note d = handleMessage_authorized [OF p a, of w]
  { assume "requested req = Some (GetBlock i n)"
    then have g: "handleGetBlockRequest E H \<lparr>gbr_chain_id = i, gbr_block_id = n\<rparr> w = (reply, w')"
      using d m by (simp add: dispatch_read)
    show "n \<noteq> 0" "n \<le> hdr_index h" "resp_get_block resp = Some (Some (setBlockData (bs ! (unat n - 1))))"
      using getBlock_answer [OF ok l g c s] by simp_all }
  { assume "requested req = Some (GetBlocks i)"
    then have "handleGetBlocksRequest E H \<lparr>cr_chain_id = i\<rparr> w = Some (reply, w')"
      using d m by (simp add: dispatch_read)
    from getBlocks_answer [OF ok l this c s]
    show "resp_get_blocks resp = (if bs = [] then None else Some (map setBlockData bs))" . }
  { assume "requested req = Some (VerifyChain i)"
    then have "handleVerifyChainRequest E H \<lparr>cr_chain_id = i\<rparr> w = Some (reply, w')"
      using d m by (simp add: dispatch_read)
    from verifyChain_answer [OF ok l this c s]
    show "verified (env_sha E) (env_ec E) h bs" . }
  { assume "requested req = Some (GetChainHeader i)"
    then have g: "(if req_get_chain_header req \<noteq> None then handleGetChainHeaderRequest
        else handleGetChainKeysRequest) E H \<lparr>cr_chain_id = i\<rparr> w = (reply, w')"
      using d m by (simp add: dispatch_read)
    show "if req_get_chain_header req \<noteq> None
        then resp_get_chain_header resp = Some (Some (header_message h))
        else resp_get_chain_keys resp = Some (keys_message h)"
      using g getChainHeader_answer [OF ok l _ c s] getChainKeys_answer [OF ok l _ c s] by auto }
  { assume "requested req = Some (GetChainInfo i)"
    then have "handleGetChainInfoRequest E H \<lparr>cr_chain_id = i\<rparr> w = (reply, w')"
      using d m by (simp add: dispatch_read)
    from getChainInfo_answer [OF ok l this c s]
    show "resp_get_chain_info resp =
      Some \<lparr>ci_chain_id = i, ci_version = DB_VERSION, ci_index = word_of_nat (length bs)\<rparr>" . }
qed

lemma read_answers_true_witness:
  "\<exists>reply w'. handleMessage mem_env open_handler (message_of read_first) grown_world = Some (reply, w') \<and>
    resp_get_block read_response = Some (Some (setBlockData ex_block))"
proof -
  obtain reply w' where
    m: "handleMessage mem_env open_handler (message_of read_first) grown_world = Some (reply, w')"
    and c: "carries (env_pb mem_env) read_response reply" by (rule handle_read_first)
  have "requested read_first = Some (GetBlock 1 1)"
    by (simp add: requested_def read_first_def request_default_def)
  moreover have "authorized mem_env open_handler read_first" by (simp add: authorized_def)
  moreover have "map_option sr_status (resp_status read_response) = Some (status_code SUCCESS)"
    by (simp add: read_response_def success_response_def)
  ultimately show ?thesis
    using read_answers_true [OF mem_env_ok parse_example _ _ m c, of 1 "ex_header\<lparr>hdr_index := 1\<rparr>" "[ex_block]" 1]
      grown_ledger m by simp
qed

text \<open>
  C20: every message is answered, while the answers stay below 2 GB.  Suppose that hashing does not
  fail, that protocol buffers serialise messages below their documented limit of 2 GB, that no header
  counts \<open>2^64 - 1\<close> blocks, and that the data stored in a header, in a block and in the list of the blocks
  of a chain fit into a response of that size.  Then the handler returns with a message to send,
  whatever the message is and whatever input/output faults occur.
\<close>

theorem every_message_answered:
  assumes "env_ok E V" and "sha_live (env_sha E)" and "pb_serves (env_pb E)"
    and "stored_fits E V (hdl_manager H) w"
  shows "\<exists>m w'. handleMessage E H msg w = Some (Some m, w')"
  by (rule handleMessage_answers [OF assms])

lemma mem_pb_serves: "pb_serves mem_pb"
  by (simp add: pb_serves_def mem_pb_def whole_def dec_response_def dec_via_def dec_pair_def)

text \<open>The conditions in the directory of the run: the only database is that of chain 1, with one block.\<close>

lemma grown_fits: "stored_fits mem_env mem_view ex_manager grown_world"
proof (rule ledgers_fit)
  fix i m
  assume m: "disk mem_view grown_world (makeStoragePath ex_manager i) = Some m"
  obtain ch where c: "Manager_createChain mem_env ex_manager 1 ''genesis'' empty_world = (Some ch, created_world)"
    by (rule created)
  have "undisturbed mem_view (makeStoragePath ex_manager 1) empty_world grown_world"
    using Manager_createChain_effect(1) [OF mem_env_ok c]
      Manager_addBlock_undisturbed [OF mem_env_ok grown_block] by (rule undisturbed_trans)
  then have "i \<noteq> 1 \<Longrightarrow> disk mem_view grown_world (makeStoragePath ex_manager i) = None"
    by (simp add: undisturbed_def mem_view_def)
  with m have "i = 1" by fastforce
  with m grown_ledger have "ledger (env_pb mem_env) m = Some (ex_header\<lparr>hdr_index := 1\<rparr>, [ex_block])"
    by (simp add: chain_ledger_def)
  moreover have "block_text ex_block = ''first''" by (rule addBlock_text [OF mem_env_ok grown_block])
  ultimately show "\<exists>h bs. ledger (env_pb mem_env) m = Some (h, bs) \<and> hdr_index h \<noteq> - 1 \<and>
      blocks_fit [hdr_data h] \<and> blocks_fit (map block_text bs)"
    by (simp add: ex_header blocks_fit_def PB_MAX_SIZE_def)
qed

lemma every_message_answered_witness:
  "\<exists>m w'. handleMessage mem_env open_handler (message_of read_first) grown_world = Some (Some m, w')"
  by (rule every_message_answered [OF mem_env_ok]) (simp_all add: mem_sha_live mem_pb_serves grown_fits)

section \<open>The server\<close>

text \<open>
  The server is a history of messages.  However the turns of its loop, network errors and calls
  of \<open>stop\<close> follow each other, the databases of a later state are the result of handling, one after
  the other and completely, exactly the messages in the log.
\<close>

lemma server_refines_history:
  assumes "server_runs Z (handleMessage E H) s log s'"
  shows "run_steps (message_step E H) log (databases s) = Some (databases s')"
  using server_runs_databases [OF assms] by (simp add: run_handled)

lemma server_refines_history_witness:
  "message_step mem_env open_handler (message_of add_first) created_world = Some grown_world"
  using server_refines_history [OF served] by (simp add: started served_state_def split: option.splits)

text \<open>
  C1: the running service keeps its chains.  Over any run of the server, a sound chain that no
  message removes stays sound, its ledger is only appended to, by at most one block per message,
  its version, data and keys stay the same, and no database is left open.
\<close>

theorem service_keeps_chains:
  assumes "env_ok E V" and "server_runs Z (handleMessage E H) s log s'"
    and "\<And>msg. msg \<in> set log \<Longrightarrow> \<not> message_removes E H msg i"
    and "sound_chain E V (hdl_manager H) (databases s) i"
    and "chain_ledger E V (hdl_manager H) (databases s) i = Some (h, bs)"
    and "length bs + length log < 2 ^ 64"
  shows "sound_chain E V (hdl_manager H) (databases s') i \<and>
    (\<exists>h' new. chain_ledger E V (hdl_manager H) (databases s') i = Some (h', bs @ new) \<and>
       length new \<le> length log \<and> same_chain h h') \<and>
    handles V (databases s') = handles V (databases s)"
proof -
  have r: "run_steps (message_step E H) log (databases s) = Some (databases s')"
    using server_runs_databases [OF assms(2)] by (simp add: run_handled)
  from srv.run_sound [OF assms(1) r _ assms(4)] srv.run_append_only [OF assms(1) r _ assms(5,6)]
    srv.run_opened [OF assms(1) r] assms(3) show ?thesis by blast
qed

lemma add_first_removes_nothing: "\<not> message_removes mem_env open_handler (message_of add_first) i"
  by (simp add: message_removes_def command_of_def requested_def add_first_def request_default_def
      data_command_def)

lemma service_keeps_chains_witness:
  "sound_chain mem_env mem_view ex_manager (databases served_state) 1"
  using service_keeps_chains [OF mem_env_ok served, of 1 ex_header "[]"] add_first_removes_nothing
    created_sound created_ledger
  by (simp add: started)

text \<open>
  C2: chains survive restarts and crashes.  The service is started any number of times over the same
  directory, each time with its own arguments; each process ends in its own way or is killed after
  any number of calls of the database library, in the middle of an operation or not.  A sound chain
  that no message removes is sound afterwards, its ledger has only been appended to, by at most one
  block per message, and its version, data and keys are the same.
\<close>

theorem chains_survive_restarts:
  assumes "env_ok E V" and "posix_ok X V" and "service_lives X Z E dir i d m d'"
    and "sound_chain E V \<lparr>storageDir = dir\<rparr> d i"
    and "chain_ledger E V \<lparr>storageDir = dir\<rparr> d i = Some (h, bs)" and "length bs + m < 2 ^ 64"
  shows "sound_chain E V \<lparr>storageDir = dir\<rparr> d' i \<and>
    (\<exists>h' new. chain_ledger E V \<lparr>storageDir = dir\<rparr> d' i = Some (h', bs @ new) \<and>
       length new \<le> m \<and> same_chain h h') \<and>
    handles V d' = handles V d"
  using service_lives_grow [OF assms(1-3)] assms(4-6) unfolding grows_def by blast

text \<open>
  A process adds the first block and is stopped by \<open>SIGTERM\<close>; the next one is killed at once.
\<close>

definition ex_args :: "string list" where
  "ex_args = [''service'', ''--storage-path'', ''/data'']"

lemma ex_initialize:
  "ChainDB_initialize mem_posix (env_rand mem_env) ex_args ChainDB_new w = (Initialized True, ex_service, w)"
  by (simp add: ex_args_def ChainDB_initialize_def parseArgs_def ChainDB_handlers_def ChainDB_new_def
      ex_service_def daemonize_def mem_posix_def initializeSignalHandler_def
      initializeLogger_def initializeRandomGenerator_def Random_status_def Random_poll_def mem_rand_def
      STDERR_FILENO_def)

lemma mem_posix_ok: "posix_ok mem_posix mem_view"
  by (simp add: posix_ok_def mem_posix_def)

lemma stopped_served_run:
  obtains s where "server_runs mem_zmq (handleMessage mem_env open_handler) started_state
    [message_of add_first] s" "phase s = Finished" "databases s = grown_world"
proof -
  let ?h = "handleMessage mem_env open_handler"
  let ?s1 = "Server_stop served_state"
  let ?s2 = "?s1\<lparr>isStopped := True, phase := Closing 0, network := net_release 1 served_net\<rparr>"
  let ?s3 = "?s2\<lparr>phase := Finished, network := net_release 0 (net_release 1 served_net)\<rparr>"
  have p: "phase ?s1 = Serving 0 1" by (simp add: Server_stop_def served_state_def started)
  have l: "server_step mem_zmq ?h ?s1 [] ?s2"
    by (rule server_step.leave [OF p])
      (simp_all add: Server_stop_def served_state_def process_out_def mem_zmq_def)
  have "phase ?s2 = Closing 0"
    and "zmq_ctx_destroy mem_zmq 0 (network ?s2) = Some (0, net_release 0 (net_release 1 served_net))"
    by (simp_all add: mem_zmq_def)
  from server_step.destroyed [OF this] have d: "server_step mem_zmq ?h ?s2 [] ?s3" .
  have "server_runs mem_zmq ?h started_state ((([message_of add_first] @ []) @ []) @ []) ?s3"
    by (rule server_runs.more [OF server_runs.more [OF server_runs.more [OF served server_step.stop] l] d])
  then show thesis by (intro that [of ?s3]) (simp_all add: Server_stop_def served_state_def)
qed

lemma ex_lives: "service_lives mem_posix mem_zmq mem_env ''/data'' 1 created_world 1 grown_world"
proof -
  obtain s where s: "server_runs mem_zmq (handleMessage mem_env open_handler) started_state
      [message_of add_first] s" "phase s = Finished" "databases s = grown_world"
    by (rule stopped_served_run)
  have "ChainDB_run mem_zmq mem_env ex_service created_world waiting_net [message_of add_first] s True"
    using s by (intro ChainDB_run.joined) (simp_all add: ex_service_handler started_state_def)
  from service_main.finished [OF ex_initialize this] s(3)
  have "service_main mem_posix mem_zmq mem_env ex_args created_world waiting_net (Some 0)
      [message_of add_first] grown_world" by simp
  then have "service_life mem_posix mem_zmq mem_env ''/data'' 1 created_world
      (length [message_of add_first]) grown_world"
  proof (rule service_life.ended)
    fix c d1
    assume "ChainDB_initialize mem_posix (env_rand mem_env) ex_args ChainDB_new created_world =
      (Initialized True, c, d1)"
    then have "c = ex_service" unfolding ex_initialize by simp
    then show "spares mem_env ''/data'' 1 c [message_of add_first]"
      using add_first_removes_nothing ex_service_handler by (simp add: spares_def ex_service_def)
  qed
  from service_lives.reborn [OF service_lives.unborn this]
  have one: "service_lives mem_posix mem_zmq mem_env ''/data'' 1 created_world 1 grown_world" by simp
  have "spares mem_env ''/data'' 1 ex_service []" by (simp add: spares_def ex_service_def)
  from service_life.killed [OF ex_initialize server_runs.here this, of mem_zmq grown_world 0 waiting_net]
  have "service_life mem_posix mem_zmq mem_env ''/data'' 1 grown_world 0 grown_world" by simp
  from service_lives.reborn [OF one this] show ?thesis by simp
qed

lemma chains_survive_restarts_witness:
  "sound_chain mem_env mem_view ex_manager grown_world 1 \<and>
    (\<exists>h' new. chain_ledger mem_env mem_view ex_manager grown_world 1 = Some (h', new) \<and>
       length new \<le> 1 \<and> same_chain ex_header h')"
proof -
  have "ex_manager = \<lparr>storageDir = ''/data''\<rparr>" by (simp add: ex_manager_def)
  with chains_survive_restarts [OF mem_env_ok mem_posix_ok ex_lives, of ex_header "[]"] created_sound
    created_ledger show ?thesis by simp
qed

text \<open>
  C28: sockets and messages are released on every path, contexts as far as \<open>zmq_ctx_destroy\<close> lets.
  When the server thread waits in \<open>zmq_ctx_destroy\<close>, all that it still has, beyond what existed before
  it started, is its context; when it has finished, it has nothing, or the context alone if
  \<open>zmq_ctx_destroy\<close> failed, whose code the program does not look at.  The same holds of every call of
  the client's \<open>sendMessage\<close>: one that returns, with a reply or not, leaves nothing, or the context if
  destroying it failed, and one that does not return is in \<open>zmq_ctx_destroy\<close> with its context alone.
\<close>

theorem network_objects_released:
  assumes "zmq_ok Z live"
  shows "(server_runs Z handle (Server_start Z srv d n) log s \<longrightarrow>
      (phase s = Finished \<longrightarrow> cleaned_up Z live (live n) (network s)) \<and>
      (\<forall>ctx. phase s = Closing ctx \<longrightarrow> ctx \<notin> live n \<and> live (network s) = insert ctx (live n))) \<and>
    call_cleans Z live (live n) (Client_sendMessage Z cl msg n)"
proof (intro conjI)
  show "call_cleans Z live (live n) (Client_sendMessage Z cl msg n)"
    by (rule Client_sendMessage_cleans [OF assms])
  show "server_runs Z handle (Server_start Z srv d n) log s \<longrightarrow>
      (phase s = Finished \<longrightarrow> cleaned_up Z live (live n) (network s)) \<and>
      (\<forall>ctx. phase s = Closing ctx \<longrightarrow> ctx \<notin> live n \<and> live (network s) = insert ctx (live n))"
    using server_runs_objects [OF _ assms Server_start_objects [OF assms], of handle srv d n log s]
    by (auto simp: holds_objects_def)
qed

text \<open>A library in which a signal interrupts every \<open>zmq_ctx_destroy\<close>.\<close>

definition interrupted_zmq :: "(net, nat) zmq_lib" where
  "interrupted_zmq = mem_zmq\<lparr>zmq_ctx_destroy := \<lambda>x n. Some (- 1, n)\<rparr>"

lemma network_objects_released_witness:
  "(\<exists>n. Client_sendMessage mem_zmq (Client_local 8888 1000) (message_of add_first) empty_net =
      Returns None n \<and> net_live n = {}) \<and>
    (\<exists>n ctx. Client_sendMessage interrupted_zmq (Client_local 8888 1000) (message_of add_first) empty_net =
      Returns None n \<and> net_live n = {ctx})"
proof -
  have ok: "zmq_ok interrupted_zmq net_live"
    using mem_zmq_ok by (simp add: interrupted_zmq_def zmq_ok_def zmq_objects_ok_def zmq_frame_ok_def)
  have e: "net_live empty_net = {}" by (simp add: net_live_def empty_net_def)
  note run = Client_sendMessage_def receive_reply_def client_out_def destroy_context_def mem_zmq_def
    net_new_def net_release_def empty_net_def Let_def
  have "\<exists>n. Client_sendMessage mem_zmq (Client_local 8888 1000) (message_of add_first) empty_net =
      Returns None n" by (simp add: run)
  then obtain n1 where r1: "Client_sendMessage mem_zmq (Client_local 8888 1000) (message_of add_first)
      empty_net = Returns None n1" by blast
  have "\<exists>n. Client_sendMessage interrupted_zmq (Client_local 8888 1000) (message_of add_first) empty_net =
      Returns None n \<and> net_live n \<noteq> {}" by (simp add: run interrupted_zmq_def net_live_def) auto
  then obtain n2 where r2: "Client_sendMessage interrupted_zmq (Client_local 8888 1000)
      (message_of add_first) empty_net = Returns None n2" "net_live n2 \<noteq> {}" by blast
  have "cleaned_up mem_zmq net_live {} n1"
    using network_objects_released [OF mem_zmq_ok, THEN conjunct2, of empty_net "Client_local 8888 1000"
        "message_of add_first"] r1 e by (simp add: call_cleans_def)
  then have "net_live n1 = {}" by (auto simp: cleaned_up_def mem_zmq_def)
  moreover have "cleaned_up interrupted_zmq net_live {} n2"
    using network_objects_released [OF ok, THEN conjunct2, of empty_net "Client_local 8888 1000"
        "message_of add_first"] r2 e by (simp add: call_cleans_def)
  ultimately show ?thesis using r1 r2 by (auto simp: cleaned_up_def)
qed

text \<open>
  C38: a signal stops the running server.  After \<open>SIGINT\<close> or \<open>SIGTERM\<close> at most one more message is
  handled, and none unless the thread was in the body of its loop when the signal came; the databases
  are what handling it leaves.  From then on every step but a further stop brings the thread closer to
  its end (the rest of the body, leaving the loop, destroying the context), and it can take such a
  step unless it has finished, waits in \<open>zmq_ctx_destroy\<close> or is in a handler that does not return.
\<close>

theorem signal_stops_server:
  assumes "signum = SIGINT \<or> signum = SIGTERM"
    and "signalHandler signum (Some s) = Some s0" and "server_runs Z handle s0 log s'"
  shows "length log \<le> 1 \<and> (log \<noteq> [] \<longrightarrow> in_turn (phase s)) \<and>
    run_steps (handled handle) log (databases s) = Some (databases s') \<and>
    (\<forall>log' s''. server_step Z handle s' log' s'' \<longrightarrow>
       s'' = Server_stop s' \<or> remaining (phase s'') < remaining (phase s')) \<and>
    (phase s' \<noteq> Finished \<longrightarrow>
     (\<forall>ctx. phase s' = Closing ctx \<longrightarrow> zmq_ctx_destroy Z ctx (network s') \<noteq> None) \<longrightarrow>
     (\<forall>ctx socket. phase s' = Turning ctx socket \<longrightarrow>
        process_turn Z handle socket (databases s') (network s') \<noteq> None) \<longrightarrow>
     (\<exists>log' s''. server_step Z handle s' log' s'' \<and> remaining (phase s'') < remaining (phase s')))"
proof (intro conjI)
  from assms(1,2) have s0: "s0 = Server_stop s" by (auto simp: signalHandler_def ChainDB_stop_def)
  then have same: "phase s0 = phase s" "databases s0 = databases s" and "stopping s0"
    by (simp_all add: Server_stop_def stopping_def)
  with stopped_runs [OF assms(3)] have r: "stopping s'" "length log \<le> 1" "log \<noteq> [] \<longrightarrow> in_turn (phase s)"
    by auto
  then show "length log \<le> 1" "log \<noteq> [] \<longrightarrow> in_turn (phase s)" by blast+
  show "run_steps (handled handle) log (databases s) = Some (databases s')"
    using server_runs_databases [OF assms(3)] same(2) by simp
  show "\<forall>log' s''. server_step Z handle s' log' s'' \<longrightarrow>
       s'' = Server_stop s' \<or> remaining (phase s'') < remaining (phase s')"
    using stopped_step [OF _ r(1)] by blast
  show "phase s' \<noteq> Finished \<longrightarrow>
     (\<forall>ctx. phase s' = Closing ctx \<longrightarrow> zmq_ctx_destroy Z ctx (network s') \<noteq> None) \<longrightarrow>
     (\<forall>ctx socket. phase s' = Turning ctx socket \<longrightarrow>
        process_turn Z handle socket (databases s') (network s') \<noteq> None) \<longrightarrow>
     (\<exists>log' s''. server_step Z handle s' log' s'' \<and> remaining (phase s'') < remaining (phase s'))"
  proof (intro impI)
    assume "phase s' \<noteq> Finished"
    then have "remaining (phase s') > 0" by (cases "phase s'") simp_all
    moreover assume "\<forall>ctx. phase s' = Closing ctx \<longrightarrow> zmq_ctx_destroy Z ctx (network s') \<noteq> None"
      and "\<forall>ctx socket. phase s' = Turning ctx socket \<longrightarrow>
        process_turn Z handle socket (databases s') (network s') \<noteq> None"
    ultimately show "\<exists>log' s''. server_step Z handle s' log' s'' \<and>
        remaining (phase s'') < remaining (phase s')"
      by (intro stopped_advances [OF r(1)]) blast+
  qed
qed

text \<open>The signal comes when the thread has just entered the body of the loop: the message that waits is
  still handled, and then the thread can leave the loop.\<close>

lemma signal_stops_server_witness:
  "\<exists>s' log s''. server_runs mem_zmq (handleMessage mem_env open_handler)
      (Server_stop (started_state\<lparr>phase := Turning 0 1\<rparr>)) [message_of add_first] s' \<and>
    Some (databases s') = message_step mem_env open_handler (message_of add_first) created_world \<and>
    server_step mem_zmq (handleMessage mem_env open_handler) s' log s'' \<and> remaining (phase s'') < 2"
proof -
  let ?h = "handleMessage mem_env open_handler" and ?s = "started_state\<lparr>phase := Turning 0 1\<rparr>"
  let ?s' = "(Server_stop ?s)\<lparr>phase := Serving 0 1, databases := grown_world, network := served_net\<rparr>"
  have g: "signalHandler SIGTERM (Some ?s) = Some (Server_stop ?s)"
    by (simp add: signalHandler_def ChainDB_stop_def)
  have "process_turn mem_zmq ?h 1 (databases (Server_stop ?s)) (network (Server_stop ?s)) =
      Some (True, [message_of add_first], grown_world, served_net)"
    using served_turn by (simp add: started Server_stop_def)
  then have "server_step mem_zmq ?h (Server_stop ?s) [message_of add_first] ?s'"
    by (intro server_step.turn) (simp_all add: Server_stop_def)
  from server_runs.more [OF server_runs.here this]
  have u: "server_runs mem_zmq ?h (Server_stop ?s) [message_of add_first] ?s'" by simp
  note s = signal_stops_server [OF _ g u]
  from s have "run_steps (handled ?h) [message_of add_first] created_world = Some (databases ?s')"
    by (simp add: started)
  then have "Some (databases ?s') = message_step mem_env open_handler (message_of add_first) created_world"
    by (simp add: handled_handleMessage split: option.splits)
  moreover from s have "\<exists>log s''. server_step mem_zmq ?h ?s' log s'' \<and> remaining (phase s'') < 2"
    by simp
  ultimately show ?thesis using u by blast
qed

text \<open>
  C39: a service that cannot start reports success.  When the context, the socket or the binding of
  the port fails, the thread has at most its context to destroy, \<open>run\<close> still returns true, and the
  program can only end with exit code 0, without having handled a message; it does end so, if
  \<open>zmq_ctx_destroy\<close> returns.
\<close>

theorem start_failure_reported_as_success:
  assumes "ChainDB_initialize X (env_rand E) argv ChainDB_new d = (Initialized True, c, d')"
    and "process_start Z (ChainDB_server c) n = (ph, n')" and "ph = Finished \<or> ph = Closing ctx"
  shows "(\<forall>code log d''. service_main X Z E argv d n code log d'' \<longrightarrow>
       code = Some 0 \<and> log = [] \<and> d'' = d') \<and>
    (ph = Finished \<or> zmq_ctx_destroy Z ctx n' \<noteq> None \<longrightarrow>
       service_main X Z E argv d n (Some 0) [] d')"
proof (intro conjI)
  let ?s = "Server_start Z (ChainDB_server c) d' n" and ?h = "handleMessage E (ChainDB_handler c)"
  have p: "phase ?s = ph" "network ?s = n'" using assms(2) by (simp_all add: Server_start_def)
  with assms(3) have f: "stopping ?s" "\<not> in_turn (phase ?s)" by (auto simp: stopping_def)
  have "log = [] \<and> databases s = d' \<and> r" if "ChainDB_run Z E c d' n log s r" for log s r
    using that stopped_runs [OF _ f(1)] f(2) server_runs_databases
    by (auto elim!: ChainDB_run.cases) fastforce
  then show "\<forall>code log d''. service_main X Z E argv d n code log d'' \<longrightarrow>
       code = Some 0 \<and> log = [] \<and> d'' = d'"
    using assms(1) by (auto elim!: service_mainE) blast
  show "ph = Finished \<or> zmq_ctx_destroy Z ctx n' \<noteq> None \<longrightarrow>
      service_main X Z E argv d n (Some 0) [] d'"
  proof
    assume a: "ph = Finished \<or> zmq_ctx_destroy Z ctx n' \<noteq> None"
    have "\<exists>s. server_runs Z ?h ?s [] s \<and> phase s = Finished \<and> databases s = d'"
    proof (cases "ph = Finished")
      case True
      with p show ?thesis by (intro exI [of _ ?s]) (simp add: server_runs.here)
    next
      case False
      with a assms(3) obtain e n'' where "ph = Closing ctx" "zmq_ctx_destroy Z ctx n' = Some (e, n'')"
        by auto
      with server_runs.more [OF server_runs.here server_step.destroyed [of ?s ctx Z e n'' ?h]] p
      show ?thesis by (intro exI [of _ "?s\<lparr>phase := Finished, network := n''\<rparr>"]) simp
    qed
    then obtain s where s: "server_runs Z ?h ?s [] s" "phase s = Finished" "databases s = d'" by blast
    from service_main.finished [OF assms(1) ChainDB_run.joined [OF s(1,2)]] s(3)
    show "service_main X Z E argv d n (Some 0) [] d'" by simp
  qed
qed

text \<open>The port is taken.\<close>

definition taken_zmq :: "(net, nat) zmq_lib" where
  "taken_zmq = mem_zmq\<lparr>zmq_bind := \<lambda>s e n. (- 1, n)\<rparr>"

lemma start_failure_reported_as_success_witness:
  "service_main mem_posix taken_zmq mem_env ex_args created_world waiting_net (Some 0) [] created_world"
proof -
  obtain n where s: "process_start taken_zmq (ChainDB_server ex_service) waiting_net = (Closing 0, n)"
    by (simp add: process_start_def process_out_def taken_zmq_def mem_zmq_def net_new_def waiting_net_def
        empty_net_def)
  have "zmq_ctx_destroy taken_zmq 0 n \<noteq> None" by (simp add: taken_zmq_def mem_zmq_def)
  with start_failure_reported_as_success [OF ex_initialize s, of 0, THEN conjunct2] show ?thesis by simp
qed

text \<open>The same when the service cannot become a daemon: \<open>fork\<close> returns -1 and the process exits with 0.\<close>

lemma fork_failure_reported_as_success:
  assumes "parseArgs argv ChainDB_handlers ChainDB_new = (Returned True, c, out)" and "svc_daemonize c"
    and "posix_fork X (initializeSignalHandler X d) = (- 1, d')"
  shows "service_main X Z E argv d n (Some 0) [] d'"
  by (rule service_main.detached) (use assms in \<open>simp add: ChainDB_initialize_def daemonize_def\<close>)

section \<open>The command lines\<close>

text \<open>
  C40: the options of the service survive the command line: writing a configuration as arguments and
  parsing them gives the configuration back, for every port that is an \<open>int\<close>.
\<close>

definition service_args :: "chaindb \<Rightarrow> string list" where
  "service_args c =
     [''--daemonize'', if svc_daemonize c then ''true'' else ''false'',
      ''--log-path'', svc_logPath c, ''--storage-path'', svc_storageDir c,
      ''--password'', svc_password c, ''--port'', int_to_string (svc_serverPort c)]"

theorem service_options_roundtrip:
  assumes "- (2 ^ 31) \<le> svc_serverPort c" and "svc_serverPort c \<le> 2 ^ 31 - 1"
  shows "parseArgs (prog # service_args c) ChainDB_handlers c0 =
    (Returned True, c\<lparr>svc_server := svc_server c0\<rparr>, [])"
  using assms by (simp add: parseArgs_def service_args_def ChainDB_handlers_def stoi_int_to_string)

lemma service_options_roundtrip_witness:
  "parseArgs (''service'' # service_args ex_service) ChainDB_handlers ChainDB_new =
    (Returned True, ex_service, [])"
  using service_options_roundtrip [of ex_service "''service''" ChainDB_new]
  by (simp add: ex_service_def ChainDB_new_def)

text \<open>
  A number that is no \<open>int\<close> is not an error message but an exception: \<open>stoi\<close> throws
  \<open>out_of_range\<close>, which \<open>parseArgs\<close> does not catch, and it leaves \<open>initialize\<close> of the service and of
  the client, while a word without digits is reported and refused.
\<close>

lemma large_port_throws:
  assumes "n < - (2 ^ 31) \<or> 2 ^ 31 - 1 < n" and "\<And>ch. ch \<in> set wd \<Longrightarrow> \<not> is_digit ch"
  shows "fst (ChainDB_initialize X R (prog # ''--port'' # int_to_string n # args) c w) = Threw \<and>
    fst (Application_initialize (prog # ''--port'' # int_to_string n # args) a) = None \<and>
    fst (ChainDB_initialize X R (prog # ''--port'' # wd # args) c w) = Initialized False \<and>
    fst (Application_initialize (prog # ''--port'' # wd # args) a) = Some False"
  using assms(1) stoi_no_digit [OF assms(2)]
  by (simp add: ChainDB_initialize_def Application_initialize_def parseArgs_def
      ChainDB_handlers_def Application_handlers_def stoi_int_to_string)

text \<open>
  Arguments are processed strictly in order.  Options whose keys are known and whose values
  convert are assigned, and parsing goes on with the rest; so an error further on leaves the
  assignments before it in place.
\<close>

fun assignment :: "'s handler_map \<Rightarrow> string \<times> string \<Rightarrow> ('s \<Rightarrow> 's) option" where
  "assignment handlers (key, val) =
     (case map_of handlers key of
        Some (BoolPtr assign) \<Rightarrow> Some (assign (val = ''true''))
      | Some (IntPtr assign) \<Rightarrow> (case stoi val of Value n \<Rightarrow> Some (assign n) | _ \<Rightarrow> None)
      | Some (StringPtr assign) \<Rightarrow> Some (assign val)
      | None \<Rightarrow> None)"

lemma parse_from_assignment:
  "assignment handlers (key, val) = Some f \<Longrightarrow>
    parse_from handlers (key # val # args) s = parse_from handlers args (f s)"
  by (auto split: option.splits arg_data.splits stoi_result.splits)

lemma arguments_in_order:
  assumes "map (assignment handlers) options = map Some fs"
  shows "parseArgs (prog # concat (map (\<lambda>(key, val). [key, val]) options) @ rest) handlers s =
    parseArgs (prog # rest) handlers (fold (\<lambda>f. f) fs s)"
  using assms
proof (induction options arbitrary: fs s)
  case Nil
  then show ?case by simp
next
  case (Cons opt options)
  obtain key val where opt: "opt = (key, val)" by (cases opt)
  from Cons.prems obtain f fs' where fs: "fs = f # fs'" and f: "assignment handlers (key, val) = Some f"
    and r: "map (assignment handlers) options = map Some fs'"
    by (cases fs) (auto simp: opt)
  from Cons.IH [OF r, of "f s"] parse_from_assignment [OF f] show ?case
    by (simp add: parseArgs_def opt fs del: parse_from.simps assignment.simps)
qed

lemma arguments_in_order_witness:
  "parseArgs [''cli'', ''--ping'', ''true'', ''--no-such-key'', ''1''] Application_handlers Application_new =
    parseArgs [''cli'', ''--no-such-key'', ''1''] Application_handlers
      (Application_new\<lparr>app_isPingRequest := True\<rparr>)"
  using arguments_in_order [of Application_handlers "[(''--ping'', ''true'')]"
      "[\<lambda>a. a\<lparr>app_isPingRequest := True\<rparr>]" "''cli''" "[''--no-such-key'', ''1'']" Application_new]
  by (simp add: Application_handlers_def)

section \<open>The client\<close>

text \<open>
  The client's options select the command they name.  The request that \<open>run\<close> sends stands for
  the operation of the first set flag, on the chain and block numbers given as \<open>int\<close> (negative ones
  wrap around to large \<open>size_t\<close> values), with the given data if they fit the size limit.
\<close>

definition cli_command :: "application \<Rightarrow> command option" where
  "cli_command a =
     (let i = word_of_int (app_chainId a); n = word_of_int (app_blockId a); d = app_data a;
          fits = (length d \<le> MAX_DATA_LENGTH) in
      if app_isPingRequest a then None
      else if app_isCreateChainRequest a then (if fits then Some (CreateChain i d) else None)
      else if app_isRemoveChainRequest a then Some (RemoveChain i)
      else if app_isAddBlockRequest a then (if fits then Some (AddBlock i d) else None)
      else if app_isGetBlockRequest a then Some (GetBlock i n)
      else if app_isGetBlocksRequest a then Some (GetBlocks i)
      else if app_isVerifyChainRequest a then Some (VerifyChain i)
      else if app_isGetChainHeaderRequest a then Some (GetChainHeader i)
      else if app_isGetChainKeysRequest a then Some (GetChainHeader i)
      else if app_isGetChainInfoRequest a then Some (GetChainInfo i)
      else None)"

lemmas client_requests =
  ping_request_def createChain_request_def removeChain_request_def addBlock_request_def
  getBlock_request_def getBlocks_request_def verifyChain_request_def getChainHeader_request_def
  getChainKeys_request_def getChainInfo_request_def request_with_auth_def request_default_def

lemma client_selects_command:
  "(case selected_request S a of None \<Rightarrow> None | Some req \<Rightarrow> requested req) = cli_command a"
  by (simp add: selected_request_def cli_command_def client_requests requested_def data_command_def
      Let_def not_less)

text \<open>
  Client and service agree on passwords.  If hashing does not fail, every request of the client
  other than a ping is authorized by a service that runs with the same password.
\<close>

lemma client_requests_authorized:
  assumes "sha_live (env_sha E)" and "app_password a = hdl_password H"
    and "selected_request (env_sha E) a = Some req" and "\<not> app_isPingRequest a"
  shows "authorized E H req"
proof (cases "hdl_password H = ''''")
  case True
  then show ?thesis by (simp add: authorized_def)
next
  case False
  obtain hash where h: "getHash (env_sha E) [PASSWORD_SALT, hdl_password H] = Some hash"
    using getHash_live [OF assms(1)] by fastforce
  have "req_auth_data req = Some (setAuthData (env_sha E) a \<lparr>password_hash = []\<rparr>)"
    using assms(3,4)
    by (auto simp: selected_request_def client_requests Let_def split: if_splits)
  with False h assms(2) show ?thesis by (simp add: authorized_def setAuthData_def)
qed

definition ex_application :: application where
  "ex_application = Application_new
     \<lparr>app_isAddBlockRequest := True, app_password := ''secret'', app_data := ''first''\<rparr>"

lemma client_requests_authorized_witness:
  "authorized mem_env locked_handler (addBlock_request mem_sha ex_application 1 ''first'')"
  by (rule client_requests_authorized [where a = ex_application])
    (simp_all add: mem_sha_live selected_request_def ex_application_def Application_new_def)

text \<open>
  The client cannot ping a service that has a password, with whatever password it is started:
  \<open>ping\<close> sends no authorization data, and the handler answers \<open>NOT_AUTHORIZED\<close>.
\<close>

lemma client_ping_rejected:
  assumes "app_isPingRequest a" and "hdl_password H \<noteq> ''''"
    and "selected_request S a = Some req"
    and "request_Parse (env_pb E) (msg_data msg) = Some req"
  shows "handleMessage E H msg w =
    Some (makeStatus (env_pb E) NOT_AUTHORIZED ''No authorization data'', w)"
  using assms
  by (simp add: selected_request_def ping_request_def request_default_def handleMessage_def
      Message_data_def Message_length_def Let_def) (auto simp: handleMessage_def)

lemma client_ping_rejected_witness:
  "handleMessage mem_env locked_handler (message_of ping_request) empty_world =
    Some (makeStatus mem_pb NOT_AUTHORIZED ''No authorization data'', empty_world)"
  using client_ping_rejected [where E = mem_env and H = locked_handler
      and a = "Application_new\<lparr>app_isPingRequest := True, app_password := ''secret''\<rparr>"
      and S = mem_sha and req = ping_request and msg = "message_of ping_request" and w = empty_world]
  by (simp add: selected_request_def)

text \<open>
  The client reports transport, not success.  \<open>processRequest\<close> is true exactly when the request
  serialises, a reply arrives and the reply parses; the status in the reply plays no part, so a
  request that the service has refused ends with exit code 0.
\<close>

lemma client_ignores_status:
  "processRequest P Z cl req n = Returns True n' \<longleftrightarrow>
    (\<exists>data reply resp. request_Serialize P req = Some data \<and>
       Client_sendMessage Z cl \<lparr>msg_data = data\<rparr> n = Returns (Some reply) n' \<and>
       response_Parse P (msg_data reply) = Some resp)"
  by (auto simp: processRequest_def Let_def Message_data_def Message_length_def
      split: option.split call_end.split)

end
