(* ===== verification/Conversation.thy ===== *)
theory Conversation
  imports Replies
begin

text \<open>
  A client and the server over one network.  The two programs run side by side: between any two
  calls that the client makes, the server may take steps and the rest of the world may use the
  network.  Under the routing rules of ZeroMQ's \<open>REQ\<close> and \<open>REP\<close> sockets the client's \<open>sendMessage\<close>
  is then a remote call of the handler: a reply that it returns is the handler's reply to its
  message, made at one moment between the call and its return.
\<close>

section \<open>Routing\<close>

text \<open>
  The state of a socket.  A \<open>REQ\<close> socket is idle, has asked with some bytes, has its request taken
  by the \<open>REP\<close> socket of the server, or has an answer to receive.  A \<open>REP\<close> socket is ready or serves
  a request, of a socket of the view (\<open>Some\<close>) or of somebody else.  \<open>owner\<close> is the context of an
  open socket.
\<close>

datatype 'o socket_state =
  Idle | Asked bytes | Taken | Answered bytes | Ready | Serves "'o option"

record ('n, 'o) link_view =
  objects :: "'n \<Rightarrow> 'o set"
  sock :: "'n \<Rightarrow> 'o \<Rightarrow> 'o socket_state option"
  owner :: "'n \<Rightarrow> 'o \<Rightarrow> 'o option"

text \<open>The size and the bytes of a message object.\<close>

definition msg_buffer :: "('n, 'o) zmq_lib \<Rightarrow> 'n \<Rightarrow> 'o \<Rightarrow> nat \<times> bytes" where
  "msg_buffer Z n x = (zmq_msg_size Z x n, zmq_msg_data Z x n)"

definition keeps_buffers :: "('n, 'o) zmq_lib \<Rightarrow> ('n, 'o) link_view \<Rightarrow> 'o set \<Rightarrow> 'n \<Rightarrow> 'n \<Rightarrow> bool" where
  "keeps_buffers Z V X n n' \<longleftrightarrow> (\<forall>x \<in> objects V n - X. msg_buffer Z n' x = msg_buffer Z n x)"

definition quiet :: "('n, 'o) zmq_lib \<Rightarrow> ('n, 'o) link_view \<Rightarrow> 'o set \<Rightarrow> 'n \<Rightarrow> 'n \<Rightarrow> bool" where
  "quiet Z V X n n' \<longleftrightarrow> sock V n' = sock V n \<and> keeps_buffers Z V X n n'"

text \<open>What one call may do to the sockets: opening, closing, a message received, a message sent.\<close>

definition opens ::
  "('n, 'o) link_view \<Rightarrow> socket_type \<Rightarrow> 'n \<Rightarrow> 'o \<Rightarrow> 'n \<Rightarrow> bool" where
  "opens V t n x n' \<longleftrightarrow>
     sock V n' = (sock V n)(x \<mapsto> (case t of ZMQ_REQ \<Rightarrow> Idle | ZMQ_REP \<Rightarrow> Ready))"

definition closes :: "('n, 'o) link_view \<Rightarrow> 'o \<Rightarrow> 'n \<Rightarrow> 'n \<Rightarrow> bool" where
  "closes V x n n' \<longleftrightarrow>
     sock V n' = (\<lambda>y. if y = x then None
                      else if sock V n y = Some (Serves (Some x)) then Some (Serves None)
                      else sock V n y)"

definition receives :: "('n, 'o) link_view \<Rightarrow> 'o \<Rightarrow> bytes \<Rightarrow> 'n \<Rightarrow> 'n \<Rightarrow> bool" where
  "receives V s b n n' \<longleftrightarrow>
     sock V n s = Some (Answered b) \<and> sock V n' = (sock V n)(s \<mapsto> Idle) \<or>
     sock V n s = Some Ready \<and>
       (sock V n' = (sock V n)(s \<mapsto> Serves None) \<or>
        (\<exists>c. sock V n c = Some (Asked b) \<and>
           sock V n' = (sock V n)(s \<mapsto> Serves (Some c), c \<mapsto> Taken)))"

definition sends :: "('n, 'o) link_view \<Rightarrow> 'o \<Rightarrow> bytes \<Rightarrow> 'n \<Rightarrow> 'n \<Rightarrow> bool" where
  "sends V s b n n' \<longleftrightarrow>
     sock V n s = Some Idle \<and> sock V n' = (sock V n)(s \<mapsto> Asked b) \<or>
     (\<exists>p. sock V n s = Some (Serves p) \<and>
       (sock V n' = (sock V n)(s \<mapsto> Ready) \<or>
        (\<exists>c. p = Some c \<and> sock V n c = Some Taken \<and>
           sock V n' = (sock V n)(s \<mapsto> Ready, c \<mapsto> Answered b))))"

section \<open>What the code relies on\<close>

text \<open>Calls that route nothing, and leave the buffers of other messages alone.\<close>

definition link_frame :: "('n, 'o) zmq_lib \<Rightarrow> ('n, 'o) link_view \<Rightarrow> bool" where
  "link_frame Z V \<longleftrightarrow>
     (\<forall>n. quiet Z V {} n (snd (zmq_ctx_new Z n))) \<and>
     (\<forall>c n e n'. zmq_ctx_destroy Z c n = Some (e, n') \<longrightarrow> quiet Z V {} n n') \<and>
     (\<forall>s e n. quiet Z V {} n (snd (zmq_connect Z s e n))) \<and>
     (\<forall>s e n. quiet Z V {} n (snd (zmq_bind Z s e n))) \<and>
     (\<forall>s t n. quiet Z V {} n (snd (zmq_poll Z s t n))) \<and>
     (\<forall>n. quiet Z V {} n (snd (zmq_msg_init Z n))) \<and>
     (\<forall>k n. quiet Z V {} n (snd (zmq_msg_init_size Z k n))) \<and>
     (\<forall>x b n. quiet Z V {x} n (zmq_msg_fill Z x b n)) \<and>
     (\<forall>x n. quiet Z V {x} n (zmq_msg_close Z x n)) \<and>
     (\<forall>c t n. keeps_buffers Z V {} n (snd (zmq_socket Z c t n))) \<and>
     (\<forall>s n. keeps_buffers Z V {} n (zmq_close Z s n)) \<and>
     (\<forall>x s n. keeps_buffers Z V {x} n (snd (zmq_msg_recv Z x s n))) \<and>
     (\<forall>x s n. keeps_buffers Z V {x} n (snd (zmq_msg_send Z x s n)))"

text \<open>
  A message is received by the peer it was sent to: a \<open>REP\<close> socket that is ready takes a request, a
  reply goes to the socket whose request is served, and a \<open>REQ\<close> socket receives only that reply.  A
  message may be lost, and a call may fail.  A buffer has the size it was made with, and the bytes
  it was filled with.
\<close>

definition link_rules :: "('n, 'o) zmq_lib \<Rightarrow> ('n, 'o) link_view \<Rightarrow> bool" where
  "link_rules Z V \<longleftrightarrow>
     (\<forall>c t n x n'. zmq_socket Z c t n = (Some x, n') \<longrightarrow> opens V t n x n') \<and>
     (\<forall>c t n n'. zmq_socket Z c t n = (None, n') \<longrightarrow> sock V n' = sock V n) \<and>
     (\<forall>x n. closes V x n (zmq_close Z x n)) \<and>
     (\<forall>x s n e n'. zmq_msg_recv Z x s n = (e, n') \<longrightarrow>
        (if e = - 1 then sock V n' = sock V n
         else receives V s (zmq_msg_data Z x n') n n' \<and>
           zmq_msg_size Z x n' = length (zmq_msg_data Z x n'))) \<and>
     (\<forall>x s n e n'. zmq_msg_send Z x s n = (e, n') \<longrightarrow>
        (if e = - 1 then sock V n' = sock V n else sends V s (zmq_msg_data Z x n) n n')) \<and>
     (\<forall>k n x n'. zmq_msg_init_size Z k n = ((0, x), n') \<longrightarrow> zmq_msg_size Z x n' = k) \<and>
     (\<forall>x b n. zmq_msg_size Z x n = length b \<longrightarrow>
        msg_buffer Z (zmq_msg_fill Z x b n) x = (length b, b))"

definition wires_ok :: "('n, 'o) zmq_lib \<Rightarrow> ('n, 'o) link_view \<Rightarrow> bool" where
  "wires_ok Z V \<longleftrightarrow> zmq_ok Z (objects V) \<and> link_frame Z V \<and> link_rules Z V"

lemma link_objects [intro]: "wires_ok Z V \<Longrightarrow> zmq_ok Z (objects V)"
  by (simp add: wires_ok_def)

lemma link_quiet:
  assumes "wires_ok Z V"
  shows "zmq_ctx_new Z n = (co, n') \<Longrightarrow> quiet Z V {} n n'"
    and "zmq_ctx_destroy Z x n = Some (i, n') \<Longrightarrow> quiet Z V {} n n'"
    and "zmq_connect Z s ep n = (i, n') \<Longrightarrow> quiet Z V {} n n'"
    and "zmq_poll Z s t n = (pe, n') \<Longrightarrow> quiet Z V {} n n'"
    and "zmq_msg_init Z n = (ex, n') \<Longrightarrow> quiet Z V {} n n'"
    and "zmq_msg_init_size Z k n = (ex, n') \<Longrightarrow> quiet Z V {} n n'"
    and "quiet Z V {x} n (zmq_msg_fill Z x b n)"
    and "quiet Z V {x} n (zmq_msg_close Z x n)"
    and "zmq_bind Z s ep n = (i, n') \<Longrightarrow> quiet Z V {} n n'"
  using assms by (simp_all add: wires_ok_def link_frame_def) (metis snd_conv)+

lemma link_buffers:
  assumes "wires_ok Z V"
  shows "zmq_socket Z ctx t n = (so, n') \<Longrightarrow> keeps_buffers Z V {} n n'"
    and "keeps_buffers Z V {} n (zmq_close Z s n)"
    and "zmq_msg_recv Z x s n = (i, n') \<Longrightarrow> keeps_buffers Z V {x} n n'"
    and "zmq_msg_send Z x s n = (i, n') \<Longrightarrow> keeps_buffers Z V {x} n n'"
  using assms by (simp_all add: wires_ok_def link_frame_def) (metis snd_conv)+

lemma link_routes:
  assumes "wires_ok Z V"
  shows "zmq_socket Z ctx t n = (Some x, n') \<Longrightarrow> opens V t n x n'"
    and "closes V x n (zmq_close Z x n)"
    and "zmq_msg_recv Z x s n = (e, n') \<Longrightarrow>
      (if e = - 1 then sock V n' = sock V n
       else receives V s (zmq_msg_data Z x n') n n' \<and>
         zmq_msg_size Z x n' = length (zmq_msg_data Z x n'))"
    and "zmq_msg_send Z x s n = (e, n') \<Longrightarrow>
      (if e = - 1 then sock V n' = sock V n else sends V s (zmq_msg_data Z x n) n n')"
    and "zmq_msg_init_size Z k n = ((0, x), n') \<Longrightarrow> zmq_msg_size Z x n' = k"
    and "zmq_msg_size Z x n = length b \<Longrightarrow> msg_buffer Z (zmq_msg_fill Z x b n) x = (length b, b)"
    and "zmq_socket Z ctx t n = (None, n') \<Longrightarrow> sock V n' = sock V n"
  using assms by (simp_all add: wires_ok_def link_rules_def)

section \<open>A turn of the server on the link\<close>

text \<open>
  What happens to the other end of the line.  \<open>evolves handle d st d' st'\<close>: while the databases went
  from \<open>d\<close> to \<open>d'\<close>, a \<open>REQ\<close> socket stayed as it was, or its request was taken, or it was executed
  at one moment in between and answered with the handler's reply.
\<close>

definition reaches :: "'d message_handler \<Rightarrow> 'd \<Rightarrow> 'd \<Rightarrow> bool" where
  "reaches handle d d' \<longleftrightarrow> (\<exists>log. run_steps (handled handle) log d = Some d')"

definition executed :: "'d message_handler \<Rightarrow> 'd \<Rightarrow> message \<Rightarrow> bytes \<Rightarrow> 'd \<Rightarrow> bool" where
  "executed handle d msg r d' \<longleftrightarrow>
     (\<exists>before d1 resp d2 after. run_steps (handled handle) before d = Some d1 \<and>
        handle msg d1 = Some (Some resp, d2) \<and> msg_data resp = r \<and>
        run_steps (handled handle) after d2 = Some d')"

inductive evolves ::
  "'d message_handler \<Rightarrow> 'd \<Rightarrow> 'o socket_state option \<Rightarrow> 'd \<Rightarrow> 'o socket_state option \<Rightarrow> bool"
  for handle :: "'d message_handler" where
  stay: "reaches handle d d' \<Longrightarrow> evolves handle d st d' st"
| taken: "reaches handle d d' \<Longrightarrow> evolves handle d (Some (Asked b)) d' (Some Taken)"
| answered: "executed handle d \<lparr>msg_data = b\<rparr> r d' \<Longrightarrow>
    evolves handle d (Some (Asked b)) d' (Some (Answered r))"

inductive_cases evolvesE: "evolves handle d st d' st'"

lemma reaches_refl [simp]: "reaches handle d d"
  unfolding reaches_def by (rule exI [of _ "[]"]) simp

lemma reaches_trans [trans]:
  assumes "reaches handle d1 d2" and "reaches handle d2 d3"
  shows "reaches handle d1 d3"
  using assms unfolding reaches_def by (metis run_steps_append bind.bind_lunit)

lemma executed_after:
  assumes "reaches handle d0 d" and "executed handle d msg r d'"
  shows "executed handle d0 msg r d'"
proof -
  from assms(1) obtain log where "run_steps (handled handle) log d0 = Some d"
    by (auto simp: reaches_def)
  moreover from assms(2) obtain before d1 resp d2 after
    where "run_steps (handled handle) before d = Some d1"
      and "handle msg d1 = Some (Some resp, d2) \<and> msg_data resp = r \<and>
        run_steps (handled handle) after d2 = Some d'"
    unfolding executed_def by blast
  ultimately show ?thesis
    unfolding executed_def
    by (intro exI [of _ "log @ before"] exI [of _ d1] exI [of _ resp] exI [of _ d2] exI [of _ after])
      (simp add: run_steps_append)
qed

lemma executed_before:
  assumes "executed handle d msg r d'" and "reaches handle d' d''"
  shows "executed handle d msg r d''"
proof -
  from assms(2) obtain log where "run_steps (handled handle) log d' = Some d''"
    by (auto simp: reaches_def)
  moreover from assms(1) obtain before d1 resp d2 after
    where "run_steps (handled handle) before d = Some d1"
      and "handle msg d1 = Some (Some resp, d2)" "msg_data resp = r"
      and "run_steps (handled handle) after d2 = Some d'"
    unfolding executed_def by blast
  ultimately show ?thesis
    unfolding executed_def
    by (intro exI [of _ before] exI [of _ d1] exI [of _ resp] exI [of _ d2] exI [of _ "after @ log"])
      (simp add: run_steps_append)
qed

lemma executed_reaches:
  assumes "executed handle d msg r d'"
  shows "reaches handle d d'"
proof -
  from assms obtain before d1 resp d2 after
    where "run_steps (handled handle) before d = Some d1"
      and "handle msg d1 = Some (Some resp, d2)"
      and "run_steps (handled handle) after d2 = Some d'"
    unfolding executed_def by blast
  then have "run_steps (handled handle) (before @ msg # after) d = Some d'"
    by (simp add: run_steps_append handled_def)
  then show ?thesis by (auto simp: reaches_def)
qed

lemma executed_once:
  "handle msg d = Some (Some resp, d') \<Longrightarrow> executed handle d msg (msg_data resp) d'"
  unfolding executed_def
  by (intro exI [of _ "[]"] exI [of _ d] exI [of _ resp] exI [of _ d'] conjI) simp_all

lemma evolves_trans:
  "evolves handle d1 st1 d2 st2 \<Longrightarrow> evolves handle d2 st2 d3 st3 \<Longrightarrow> evolves handle d1 st1 d3 st3"
  by (elim evolvesE)
    (auto intro: evolves.intros reaches_trans executed_after executed_before)

text \<open>A socket that stands for the server: it is of type \<open>REP\<close>.\<close>

definition is_rep :: "'o socket_state option \<Rightarrow> bool" where
  "is_rep st \<longleftrightarrow> st = Some Ready \<or> (\<exists>p. st = Some (Serves p))"

lemma is_rep_simps [simp]:
  "is_rep (Some Ready)" "is_rep (Some (Serves p))"
  "\<not> is_rep (Some (Asked b))" "\<not> is_rep (Some Taken)" "\<not> is_rep (Some (Answered b))"
  "\<not> is_rep (Some Idle)" "\<not> is_rep None"
  by (simp_all add: is_rep_def)


text \<open>The buffers of \<open>B\<close> are as before.\<close>

definition same_buffers :: "('n, 'o) zmq_lib \<Rightarrow> 'o set \<Rightarrow> 'n \<Rightarrow> 'n \<Rightarrow> bool" where
  "same_buffers Z B n n' \<longleftrightarrow> (\<forall>x \<in> B. msg_buffer Z n' x = msg_buffer Z n x)"

lemma same_buffers_refl [simp]: "same_buffers Z B n n"
  by (simp add: same_buffers_def)

lemma same_buffers_trans:
  "same_buffers Z B n1 n2 \<Longrightarrow> same_buffers Z B n2 n3 \<Longrightarrow> same_buffers Z B n1 n3"
  by (simp add: same_buffers_def)

lemma keeps_same:
  "keeps_buffers Z V X n n' \<Longrightarrow> B \<subseteq> objects V n \<Longrightarrow> X \<inter> B = {} \<Longrightarrow> same_buffers Z B n n'"
  by (auto simp: keeps_buffers_def same_buffers_def)

lemma quiet_same:
  "quiet Z V X n n' \<Longrightarrow> B \<subseteq> objects V n \<Longrightarrow> X \<inter> B = {} \<Longrightarrow>
    sock V n' = sock V n \<and> same_buffers Z B n n'"
  by (auto simp: quiet_def intro: keeps_same)

text \<open>The first half of a turn: a message has been received and its object released.\<close>

lemma received_link:
  assumes ok: "wires_ok Z V" and r: "is_rep (sock V n S)" and B: "B \<subseteq> objects V n"
    and p: "zmq_poll Z S t n = (pe, n1)" and i: "zmq_msg_init Z n1 = ((0, req), n2)"
    and v: "zmq_msg_recv Z req S n2 = (e3, n3)"
  defines "n4 \<equiv> zmq_msg_close Z req n3" and "b \<equiv> zmq_msg_data Z req n3"
  shows "same_buffers Z B n n4" and "objects V n4 = objects V n"
    and "e3 = - 1 \<Longrightarrow> sock V n4 = sock V n"
    and "e3 \<noteq> - 1 \<Longrightarrow> zmq_msg_size Z req n3 = length b \<and>
      (sock V n4 = (sock V n)(S \<mapsto> Serves None) \<or>
       (\<exists>c. sock V n c = Some (Asked b) \<and> sock V n4 = (sock V n)(S \<mapsto> Serves (Some c), c \<mapsto> Taken)))"
proof -
  note zok = link_objects [OF ok]
  have new: "req \<notin> objects V n" and o1: "objects V n1 = objects V n"
    and o2: "objects V n2 = insert req (objects V n)"
    and o3: "objects V n3 = insert req (objects V n)"
    using zmq_frames(3) [OF zok p] zmq_makes(3) [OF zok i] zmq_frames(5) [OF zok v] by simp_all
  then show "objects V n4 = objects V n" by (simp add: n4_def zmq_releases(2) [OF zok])
  have disj: "{req} \<inter> B = {}" using new B by auto
  have q1: "sock V n1 = sock V n \<and> same_buffers Z B n n1"
    using quiet_same [OF link_quiet(4) [OF ok p] B] by simp
  have q2: "sock V n2 = sock V n1 \<and> same_buffers Z B n1 n2"
    using quiet_same [OF link_quiet(5) [OF ok i], of B] B o1 by simp
  have q3: "same_buffers Z B n2 n3"
    using keeps_same [OF link_buffers(3) [OF ok v] _ disj] B o2 by auto
  have q4: "sock V n4 = sock V n3 \<and> same_buffers Z B n3 n4"
    using quiet_same [OF link_quiet(8) [OF ok, of req n3] _ disj] B o3 by (auto simp: n4_def)
  from q1 q2 q3 q4 show "same_buffers Z B n n4" by (blast intro: same_buffers_trans)
  from q1 q2 have s2: "sock V n2 = sock V n" by simp
  note recv = link_routes(3) [OF ok v]
  from recv s2 q4 show "sock V n4 = sock V n" if "e3 = - 1" using that by simp
  from recv s2 q4 r show "zmq_msg_size Z req n3 = length b \<and>
      (sock V n4 = (sock V n)(S \<mapsto> Serves None) \<or>
       (\<exists>c. sock V n c = Some (Asked b) \<and> sock V n4 = (sock V n)(S \<mapsto> Serves (Some c), c \<mapsto> Taken)))"
    if "e3 \<noteq> - 1"
    using that by (auto simp: receives_def b_def)
qed

text \<open>The second half: the reply goes to the socket that is served.\<close>

lemma sent_link:
  assumes ok: "wires_ok Z V" and B: "B \<subseteq> objects V n"
    and i: "zmq_msg_init_size Z (length b) n = ((0, x), n1)"
    and d: "zmq_msg_send Z x S (zmq_msg_fill Z x b n1) = (e, n2)"
  defines "n3 \<equiv> zmq_msg_close Z x n2"
  shows "same_buffers Z B n n3" and "objects V n3 = objects V n"
    and "if e = - 1 then sock V n3 = sock V n else sends V S b n n3"
proof -
  note zok = link_objects [OF ok]
  let ?f = "zmq_msg_fill Z x b n1"
  have new: "x \<notin> objects V n" and o1: "objects V n1 = insert x (objects V n)"
    and of: "objects V ?f = insert x (objects V n)"
    and o2: "objects V n2 = insert x (objects V n)"
    using zmq_makes(4) [OF zok i] zmq_frames(4) [OF zok, of x b n1] zmq_frames(6) [OF zok d]
    by simp_all
  then show "objects V n3 = objects V n" by (simp add: n3_def zmq_releases(2) [OF zok])
  have disj: "{x} \<inter> B = {}" using new B by auto
  have q1: "sock V n1 = sock V n \<and> same_buffers Z B n n1"
    using quiet_same [OF link_quiet(6) [OF ok i] B] by simp
  have qf: "sock V ?f = sock V n1 \<and> same_buffers Z B n1 ?f"
    using quiet_same [OF link_quiet(7) [OF ok, of x n1 b] _ disj] B o1 by auto
  have q2: "same_buffers Z B ?f n2"
    using keeps_same [OF link_buffers(4) [OF ok d] _ disj] B of by auto
  have q3: "sock V n3 = sock V n2 \<and> same_buffers Z B n2 n3"
    using quiet_same [OF link_quiet(8) [OF ok, of x n2] _ disj] B o2 by (auto simp: n3_def)
  from q1 qf q2 q3 show "same_buffers Z B n n3" by (blast intro: same_buffers_trans)
  have "zmq_msg_data Z x ?f = b"
    using link_routes(6) [OF ok link_routes(5) [OF ok i]] by (simp add: msg_buffer_def)
  with link_routes(4) [OF ok d] q1 qf q3
  show "if e = - 1 then sock V n3 = sock V n else sends V S b n n3"
    by (auto simp: sends_def split: if_splits)
qed


lemma process_turn_link:
  assumes ok: "wires_ok Z V" and r: "is_rep (sock V n S)" and B: "B \<subseteq> objects V n"
    and t: "process_turn Z handle S d n = Some (go, log, d', n')"
  shows "same_buffers Z B n n'" and "is_rep (sock V n' S)"
    and "\<not> is_rep (sock V n c) \<Longrightarrow> evolves handle d (sock V n c) d' (sock V n' c)"
proof -
  note zok = link_objects [OF ok]
  have "same_buffers Z B n n' \<and> is_rep (sock V n' S) \<and>
    (\<forall>c. \<not> is_rep (sock V n c) \<longrightarrow> evolves handle d (sock V n c) d' (sock V n' c))" (is ?goal)
    using t
  proof (cases rule: process_turn_cases)
    case (quiet pe)
    with quiet_same [OF link_quiet(4) [OF ok quiet(1)] B] r show ?goal
      by (simp add: evolves.stay)
  next
    case (no_buffer e n1 e2 req)
    have "B \<subseteq> objects V n1" using B zmq_frames(3) [OF zok no_buffer(1)] by simp
    with no_buffer quiet_same [OF link_quiet(4) [OF ok no_buffer(1)] B]
      quiet_same [OF link_quiet(5) [OF ok no_buffer(2)]] r show ?goal
      by (auto simp: evolves.stay intro: same_buffers_trans)
  next
    case (not_received e n1 req n2 n3)
    with received_link [OF ok r B not_received(1-3)] r show ?goal by (simp add: evolves.stay)
  next
    case (no_reply e n1 req n2 e3 n3)
    from no_reply(5,6) have "reaches handle d d'"
      unfolding reaches_def by (intro exI [of _ log]) (simp add: handled_def)
    with no_reply received_link [OF ok r B no_reply(1-3)] r show ?goal
      by (auto simp: evolves.intros)
  next
    case (no_reply_buffer e n1 req n2 e3 n3 resp e5 x)
    note got = received_link [OF ok r B no_reply_buffer(1-3)]
    from no_reply_buffer(5,8) have "reaches handle d d'"
      unfolding reaches_def by (intro exI [of _ log]) (simp add: handled_def)
    moreover from got(2) B have "B \<subseteq> objects V (zmq_msg_close Z req n3)" by simp
    ultimately show ?goal
      using no_reply_buffer(4) got r quiet_same [OF link_quiet(6) [OF ok no_reply_buffer(6)]]
      by (auto simp: evolves.intros intro: same_buffers_trans)
  next
    case (replied e n1 req n2 e3 n3 resp x n5 e7 n7)
    note got = received_link [OF ok r B replied(1-3)]
    from got(2) B have B4: "B \<subseteq> objects V (zmq_msg_close Z req n3)" by simp
    note out = sent_link [OF ok B4 replied(6,7), folded replied(8)]
    from replied(5,9) have reach: "reaches handle d d'"
      unfolding reaches_def by (intro exI [of _ log]) (simp add: handled_def)
    have ex: "executed handle d \<lparr>msg_data = zmq_msg_data Z req n3\<rparr> (msg_data resp) d'"
      using executed_once [of handle, OF replied(5)] got(4) replied(4) by simp
    have "is_rep (sock V n' S) \<and>
      (\<forall>c. \<not> is_rep (sock V n c) \<longrightarrow> evolves handle d (sock V n c) d' (sock V n' c))"
      using got(4) [OF replied(4)] out(3) r reach ex
      by (auto simp: sends_def evolves.intros split: if_splits)
    with got(1) out(1) show ?goal by (blast intro: same_buffers_trans)
  qed
  then show "same_buffers Z B n n'" and "is_rep (sock V n' S)"
    and "\<not> is_rep (sock V n c) \<Longrightarrow> evolves handle d (sock V n c) d' (sock V n' c)" by simp_all
qed


section \<open>The server and the rest of the world\<close>

text \<open>
  A step of the system without the client: one of the server, or something that others do to the
  network, which leaves the objects of the two programs alone.
\<close>

inductive system_step ::
  "('n, 'o) zmq_lib \<Rightarrow> ('n, 'o) link_view \<Rightarrow> 'd message_handler \<Rightarrow> ('d, 'n, 'o) server_state
     \<Rightarrow> ('d, 'n, 'o) server_state \<Rightarrow> bool"
  for Z :: "('n, 'o) zmq_lib" and V :: "('n, 'o) link_view" and handle :: "'d message_handler" where
  server: "server_step Z handle s log s' \<Longrightarrow> system_step Z V handle s s'"
| outside: "objects V n = objects V (network s) \<Longrightarrow> quiet Z V {} (network s) n \<Longrightarrow>
    system_step Z V handle s (s\<lparr>network := n\<rparr>)"

text \<open>
  The server holds its context and its \<open>REP\<close> socket while it is serving, and the context until it is
  destroyed; \<open>base\<close> are objects of the client.
\<close>

fun server_socket :: "'o phase \<Rightarrow> 'o option" where
  "server_socket (Serving context socket) = Some socket"
| "server_socket (Turning context socket) = Some socket"
| "server_socket _ = None"

fun server_context :: "'o phase \<Rightarrow> 'o option" where
  "server_context (Serving context socket) = Some context"
| "server_context (Turning context socket) = Some context"
| "server_context (Closing context) = Some context"
| "server_context Finished = None"

definition linked :: "('n, 'o) link_view \<Rightarrow> 'o set \<Rightarrow> ('d, 'n, 'o) server_state \<Rightarrow> bool" where
  "linked V base s \<longleftrightarrow> base \<subseteq> objects V (network s) \<and>
     (\<forall>ctx. server_context (phase s) = Some ctx \<longrightarrow> ctx \<in> objects V (network s) - base) \<and>
     (\<forall>S. server_socket (phase s) = Some S \<longrightarrow>
        S \<in> objects V (network s) - base \<and> server_context (phase s) \<noteq> Some S \<and> is_rep (sock V (network s) S))"

text \<open>What the client can rely on for its objects while others take steps.\<close>

definition relies ::
  "('n, 'o) zmq_lib \<Rightarrow> ('n, 'o) link_view \<Rightarrow> 'd message_handler \<Rightarrow> 'o set
     \<Rightarrow> ('d, 'n, 'o) server_state \<Rightarrow> ('d, 'n, 'o) server_state \<Rightarrow> bool" where
  "relies Z V handle base s s' \<longleftrightarrow>
     linked V base s' \<and> same_buffers Z base (network s) (network s') \<and>
     reaches handle (databases s) (databases s') \<and>
     (\<forall>c \<in> base. \<not> is_rep (sock V (network s) c) \<longrightarrow>
        evolves handle (databases s) (sock V (network s) c) (databases s') (sock V (network s') c))"

lemma linked_base: "linked V base s \<Longrightarrow> base \<subseteq> objects V (network s)"
  by (simp add: linked_def)

lemma evolves_not_rep: "evolves handle d st d' st' \<Longrightarrow> \<not> is_rep st \<Longrightarrow> \<not> is_rep st'"
  by (elim evolvesE) auto

lemma relies_refl: "linked V base s \<Longrightarrow> relies Z V handle base s s"
  by (simp add: relies_def evolves.stay)

lemma relies_trans:
  assumes "relies Z V handle base s1 s2" and "relies Z V handle base s2 s3"
  shows "relies Z V handle base s1 s3"
  using assms unfolding relies_def
  by (meson evolves_not_rep evolves_trans reaches_trans same_buffers_trans)

lemma process_out_link:
  assumes ok: "wires_ok Z V" and o: "process_out Z ctx S n = (ph, n')"
    and B: "B \<subseteq> objects V n" and S: "S \<notin> B"
  shows "same_buffers Z B n n'" and "ph = Closing ctx" and "objects V n' = objects V n - {S}"
    and "c \<in> B \<Longrightarrow> \<not> is_rep (sock V n c) \<Longrightarrow> sock V n' c = sock V n c"
proof -
  from o have n': "n' = zmq_close Z S n" and "ph = Closing ctx" by (simp_all add: process_out_def)
  then show "ph = Closing ctx" by simp
  show "same_buffers Z B n n'" unfolding n' using keeps_same [OF link_buffers(2) [OF ok] B] by simp
  show "objects V n' = objects V n - {S}" unfolding n' by (rule zmq_releases(1) [OF link_objects [OF ok]])
  show "sock V n' c = sock V n c" if "c \<in> B" "\<not> is_rep (sock V n c)"
    using that S link_routes(2) [OF ok, of S n] by (auto simp: n' closes_def)
qed

lemma server_step_reaches: "server_step Z handle s log s' \<Longrightarrow> reaches handle (databases s) (databases s')"
  unfolding reaches_def by (blast dest: server_step_databases)

lemma server_step_relies:
  assumes ok: "wires_ok Z V" and st: "server_step Z handle s log s'" and l: "linked V base s"
  shows "relies Z V handle base s s'"
proof -
  note B = linked_base [OF l] and reach = server_step_reaches [OF st]
  have turned: "same_buffers Z base (network s) n \<and> is_rep (sock V n S) \<and> S \<notin> base \<and>
      objects V n = objects V (network s) \<and>
      (\<forall>c. \<not> is_rep (sock V (network s) c) \<longrightarrow>
         evolves handle (databases s) (sock V (network s) c) d (sock V n c))"
    if "phase s = Turning ctx S"
      "process_turn Z handle S (databases s) (network s) = Some (go, log, d, n)" for ctx S go log d n
  proof -
    from that(1) l have r: "is_rep (sock V (network s) S)" and "S \<notin> base" by (auto simp: linked_def)
    with process_turn_link [OF ok r B that(2)] process_turn_objects [OF link_objects [OF ok] that(2)]
    show ?thesis by simp
  qed
  from st show ?thesis
  proof (cases rule: server_step.cases)
    case (enter ctx S)
    with l show ?thesis by (simp add: relies_def linked_def evolves.stay)
  next
    case (turn ctx S d n)
    with turned [OF turn(2,3)] l reach show ?thesis
      by (auto simp: relies_def linked_def)
  next
    case (broken ctx S d n ph n')
    note t = turned [OF broken(2,3)]
    then have "base \<subseteq> objects V n" "S \<notin> base" using B by simp_all
    note out = process_out_link [OF ok broken(4) this]
    from broken t out l reach show ?thesis
      by (auto simp: relies_def linked_def evolves_not_rep intro: same_buffers_trans)
  next
    case (leave ctx S ph n)
    with l have "S \<notin> base" by (auto simp: linked_def)
    with leave process_out_link [OF ok leave(5) B] l reach
    show ?thesis by (auto simp: relies_def linked_def evolves.stay)
  next
    case (destroyed ctx err n)
    have "base \<subseteq> objects V n"
      using l destroyed(3) zmq_destroys [OF link_objects [OF ok] destroyed(4)]
      by (auto simp: linked_def split: if_splits)
    with destroyed quiet_same [OF link_quiet(2) [OF ok destroyed(4)] B] reach
    show ?thesis by (simp add: relies_def linked_def evolves.stay)
  next
    case stop
    with l show ?thesis by (simp add: relies_def linked_def Server_stop_def evolves.stay)
  qed
qed

lemma system_step_relies:
  assumes "wires_ok Z V" and "system_step Z V handle s s'" and l: "linked V base s"
  shows "relies Z V handle base s s'"
  using assms(2)
proof (cases rule: system_step.cases)
  case (server log)
  from server_step_relies [OF assms(1) this l] show ?thesis .
next
  case (outside n)
  with quiet_same [OF outside(3) linked_base [OF l]] l show ?thesis
    by (auto simp: relies_def linked_def evolves.stay)
qed

lemma system_steps_rely:
  assumes "(system_step Z V handle)\<^sup>*\<^sup>* s s'" and "wires_ok Z V" and "linked V base s"
  shows "relies Z V handle base s s'"
  using assms
proof (induction rule: rtranclp_induct)
  case base
  then show ?case by (simp add: relies_refl)
next
  case (step s1 s2)
  then have r: "relies Z V handle base s s1" by simp
  then have "linked V base s1" by (simp add: relies_def)
  from relies_trans [OF r system_step_relies [OF step.prems(1) step.hyps(2) this]] show ?case .
qed


text \<open>The server's side is in order from the start on.\<close>

lemma linked_start:
  assumes ok: "wires_ok Z V"
  shows "linked V {} (Server_start Z srv d n)"
proof -
  let ?s = "Server_start Z srv d n"
  have "is_rep (sock V (network ?s) S)" if s: "phase ?s = Serving ctx S" for ctx S
  proof -
    from s obtain n1 n2 where k: "zmq_socket Z ctx ZMQ_REP n1 = (Some S, n2)"
      and b: "zmq_bind Z S (Server_makeEndpointPath srv) n2 = (0, network ?s)"
      by (rule serving_start)
    show ?thesis using link_quiet(9) [OF ok b] link_routes(1) [OF ok k] by (simp add: quiet_def opens_def)
  qed
  with Server_start_objects [OF link_objects [OF ok], of n srv d] show ?thesis
    by (cases "phase ?s") (auto simp: linked_def holds_objects_def start_not_turning)
qed

section \<open>The client next to them\<close>

text \<open>
  The library as the client sees it in the system: before its \<open>k\<close>-th call the schedule \<open>A k\<close> lets
  the others take their steps.  The state of the client's code is the number of calls it has made,
  and the state of the system.
\<close>

definition on_network ::
  "(nat \<Rightarrow> ('d, 'n, 'o) server_state \<Rightarrow> ('d, 'n, 'o) server_state) \<Rightarrow> ('n \<Rightarrow> 'r \<times> 'n)
     \<Rightarrow> nat \<times> ('d, 'n, 'o) server_state \<Rightarrow> 'r \<times> (nat \<times> ('d, 'n, 'o) server_state)" where
  "on_network A f ks =
     (let s = A (fst ks) (snd ks); (r, n) = f (network s) in (r, (Suc (fst ks), s\<lparr>network := n\<rparr>)))"

text \<open>A call that may block does so in the state that the others have left.\<close>

definition waits_on_network ::
  "(nat \<Rightarrow> ('d, 'n, 'o) server_state \<Rightarrow> ('d, 'n, 'o) server_state) \<Rightarrow> ('n \<Rightarrow> ('r \<times> 'n) option)
     \<Rightarrow> nat \<times> ('d, 'n, 'o) server_state \<Rightarrow> ('r \<times> (nat \<times> ('d, 'n, 'o) server_state)) option" where
  "waits_on_network A f ks =
     (let s = A (fst ks) (snd ks)
      in map_option (\<lambda>(r, n). (r, (Suc (fst ks), s\<lparr>network := n\<rparr>))) (f (network s)))"

definition changes :: "('n \<Rightarrow> 'n) \<Rightarrow> 'n \<Rightarrow> unit \<times> 'n" where
  "changes f n = ((), f n)"

definition alongside ::
  "('n, 'o) zmq_lib \<Rightarrow> (nat \<Rightarrow> ('d, 'n, 'o) server_state \<Rightarrow> ('d, 'n, 'o) server_state)
     \<Rightarrow> (nat \<times> ('d, 'n, 'o) server_state, 'o) zmq_lib" where
  "alongside Z A =
     \<lparr>ZMQ_POLL_MSEC = ZMQ_POLL_MSEC Z,
      zmq_ctx_new = on_network A (zmq_ctx_new Z),
      zmq_ctx_destroy = (\<lambda>c. waits_on_network A (zmq_ctx_destroy Z c)),
      zmq_socket = (\<lambda>c t. on_network A (zmq_socket Z c t)),
      zmq_close = (\<lambda>s ks. snd (on_network A (changes (zmq_close Z s)) ks)),
      zmq_bind = (\<lambda>s e. on_network A (zmq_bind Z s e)),
      zmq_connect = (\<lambda>s e. on_network A (zmq_connect Z s e)),
      zmq_poll = (\<lambda>s t. on_network A (zmq_poll Z s t)),
      zmq_msg_init = on_network A (zmq_msg_init Z),
      zmq_msg_init_size = (\<lambda>k. on_network A (zmq_msg_init_size Z k)),
      zmq_msg_fill = (\<lambda>x b ks. snd (on_network A (changes (zmq_msg_fill Z x b)) ks)),
      zmq_msg_recv = (\<lambda>x s. on_network A (zmq_msg_recv Z x s)),
      zmq_msg_send = (\<lambda>x s. on_network A (zmq_msg_send Z x s)),
      zmq_msg_data = (\<lambda>x ks. zmq_msg_data Z x (network (snd ks))),
      zmq_msg_size = (\<lambda>x ks. zmq_msg_size Z x (network (snd ks))),
      zmq_msg_close = (\<lambda>x ks. snd (on_network A (changes (zmq_msg_close Z x)) ks))\<rparr>"

lemma alongside_calls [simp]:
  "ZMQ_POLL_MSEC (alongside Z A) = ZMQ_POLL_MSEC Z"
  "zmq_ctx_new (alongside Z A) = on_network A (zmq_ctx_new Z)"
  "zmq_ctx_destroy (alongside Z A) c = waits_on_network A (zmq_ctx_destroy Z c)"
  "zmq_socket (alongside Z A) c t = on_network A (zmq_socket Z c t)"
  "zmq_connect (alongside Z A) s e = on_network A (zmq_connect Z s e)"
  "zmq_poll (alongside Z A) s i = on_network A (zmq_poll Z s i)"
  "zmq_msg_init (alongside Z A) = on_network A (zmq_msg_init Z)"
  "zmq_msg_init_size (alongside Z A) m = on_network A (zmq_msg_init_size Z m)"
  "zmq_msg_recv (alongside Z A) x s = on_network A (zmq_msg_recv Z x s)"
  "zmq_msg_send (alongside Z A) x s = on_network A (zmq_msg_send Z x s)"
  "zmq_msg_data (alongside Z A) x ks = zmq_msg_data Z x (network (snd ks))"
  "zmq_msg_size (alongside Z A) x ks = zmq_msg_size Z x (network (snd ks))"
  by (simp_all add: alongside_def)

lemma alongside_changes:
  "on_network A (changes (zmq_close Z s)) ks = ((), zmq_close (alongside Z A) s ks)"
  "on_network A (changes (zmq_msg_fill Z x b)) ks = ((), zmq_msg_fill (alongside Z A) x b ks)"
  "on_network A (changes (zmq_msg_close Z x)) ks = ((), zmq_msg_close (alongside Z A) x ks)"
  by (simp_all add: alongside_def prod_eq_iff)

definition schedule ::
  "('n, 'o) zmq_lib \<Rightarrow> ('n, 'o) link_view \<Rightarrow> 'd message_handler
     \<Rightarrow> (nat \<Rightarrow> ('d, 'n, 'o) server_state \<Rightarrow> ('d, 'n, 'o) server_state) \<Rightarrow> bool" where
  "schedule Z V handle A \<longleftrightarrow> (\<forall>k s. (system_step Z V handle)\<^sup>*\<^sup>* s (A k s))"

lemma on_network_elim:
  assumes "on_network A f ks = (r, ks')"
  obtains n where "f (network (A (fst ks) (snd ks))) = (r, n)"
    and "ks' = (Suc (fst ks), (A (fst ks) (snd ks))\<lparr>network := n\<rparr>)"
  using assms by (auto simp: on_network_def Let_def split: prod.splits)

lemma scheduled:
  assumes "schedule Z V handle A" and "wires_ok Z V" and "linked V base (snd ks)"
    and "on_network A f ks = (r, ks')"
  obtains s n where "relies Z V handle base (snd ks) s" "linked V base s" "f (network s) = (r, n)"
    "snd ks' = s\<lparr>network := n\<rparr>"
proof -
  have r: "relies Z V handle base (snd ks) (A (fst ks) (snd ks))"
    using assms(1) system_steps_rely [OF _ assms(2,3)] by (simp add: schedule_def)
  then have "linked V base (A (fst ks) (snd ks))" by (simp add: relies_def)
  moreover obtain n where "f (network (A (fst ks) (snd ks))) = (r, n)"
    "ks' = (Suc (fst ks), (A (fst ks) (snd ks))\<lparr>network := n\<rparr>)"
    using assms(4) by (rule on_network_elim)
  ultimately show thesis using r by (intro that) simp_all
qed

lemma system_step_reaches: "system_step Z V handle s s' \<Longrightarrow> reaches handle (databases s) (databases s')"
  by (cases rule: system_step.cases) (auto dest: server_step_reaches)

lemma system_steps_reach:
  "(system_step Z V handle)\<^sup>*\<^sup>* s s' \<Longrightarrow> reaches handle (databases s) (databases s')"
  by (induction rule: rtranclp_induct) (auto intro: reaches_trans system_step_reaches)

lemma scheduled_reaches:
  assumes "schedule Z V handle A" and "on_network A f ks = (r, ks')"
  shows "reaches handle (databases (snd ks)) (databases (snd ks'))"
proof -
  obtain n where "ks' = (Suc (fst ks), (A (fst ks) (snd ks))\<lparr>network := n\<rparr>)"
    using assms(2) by (rule on_network_elim)
  with assms(1) show ?thesis
    using system_steps_reach [of Z V handle "snd ks" "A (fst ks) (snd ks)"] by (simp add: schedule_def)
qed

lemma scheduled_wait:
  assumes "schedule Z V handle A" and "wires_ok Z V" and "linked V base (snd ks)"
    and "waits_on_network A f ks = Some (r, ks')"
  obtains s n where "relies Z V handle base (snd ks) s" "linked V base s" "f (network s) = Some (r, n)"
    "snd ks' = s\<lparr>network := n\<rparr>"
proof -
  have r: "relies Z V handle base (snd ks) (A (fst ks) (snd ks))"
    using assms(1) system_steps_rely [OF _ assms(2,3)] by (simp add: schedule_def)
  then have "linked V base (A (fst ks) (snd ks))" by (simp add: relies_def)
  with r assms(4) that show thesis by (auto simp: waits_on_network_def Let_def)
qed

text \<open>The calls of the client: one that changes nothing it tracks, one that makes an object.\<close>

lemma linked_subset: "linked V base s \<Longrightarrow> base' \<subseteq> base \<Longrightarrow> linked V base' s"
  by (auto simp: linked_def)

lemma relies_subset:
  "relies Z V handle base s s' \<Longrightarrow> base' \<subseteq> base \<Longrightarrow> relies Z V handle base' s s'"
  by (auto simp: relies_def same_buffers_def intro: linked_subset)

lemma linked_new:
  assumes "linked V base s" and "makes (objects V) (network s) (Some x) n"
    and "\<And>y. y \<in> objects V (network s) \<Longrightarrow> sock V n y = sock V (network s) y"
  shows "linked V (insert x base) (s\<lparr>network := n\<rparr>)"
  using assms by (auto simp: linked_def)

lemma relies_quiet:
  assumes "linked V base s" and "quiet Z V X (network s) n" and "X \<inter> base = {}"
    and "objects V (network s) \<subseteq> objects V n"
  shows "relies Z V handle base s (s\<lparr>network := n\<rparr>)"
  using assms quiet_same [OF assms(2) linked_base [OF assms(1)] assms(3)]
  by (auto simp: relies_def linked_def evolves.stay)

lemma relies_release:
  assumes "linked V (insert x base) s" and "x \<notin> base" and "quiet Z V {x} (network s) n"
    and "objects V n = objects V (network s) - {x}"
  shows "relies Z V handle base s (s\<lparr>network := n\<rparr>)"
proof -
  have "linked V base s" using assms(1) by (auto intro: linked_subset)
  from quiet_same [OF assms(3) linked_base [OF this]] assms show ?thesis
    by (auto simp: relies_def linked_def evolves.stay)
qed


lemma scheduled_quiet:
  assumes "schedule Z V handle A" and "wires_ok Z V" and "linked V base (snd ks)"
    and "on_network A f ks = (r, ks')"
    and "\<And>n n'. f n = (r, n') \<Longrightarrow> quiet Z V {} n n' \<and> objects V n \<subseteq> objects V n'"
  shows "relies Z V handle base (snd ks) (snd ks')" and "linked V base (snd ks')"
proof -
  obtain s n where r: "relies Z V handle base (snd ks) s" and l: "linked V base s"
    and f: "f (network s) = (r, n)" and ks': "snd ks' = s\<lparr>network := n\<rparr>"
    by (rule scheduled [OF assms(1-4)])
  from relies_quiet [OF l, of Z "{}" n handle] assms(5) [OF f] r ks'
  show "relies Z V handle base (snd ks) (snd ks')" by (auto intro: relies_trans)
  then show "linked V base (snd ks')" by (simp add: relies_def)
qed

lemma scheduled_new:
  assumes "schedule Z V handle A" and "wires_ok Z V" and "linked V base (snd ks)"
    and "on_network A f ks = (r, ks')"
    and "\<And>n n'. f n = (r, n') \<Longrightarrow> quiet Z V {} n n' \<and> makes (objects V) n (Some x) n'"
  shows "relies Z V handle base (snd ks) (snd ks')" and "linked V (insert x base) (snd ks')"
    and "x \<notin> base"
proof -
  obtain s n where r: "relies Z V handle base (snd ks) s" and l: "linked V base s"
    and f: "f (network s) = (r, n)" and ks': "snd ks' = s\<lparr>network := n\<rparr>"
    by (rule scheduled [OF assms(1-4)])
  from assms(5) [OF f] have m: "makes (objects V) (network s) (Some x) n"
    and q: "quiet Z V {} (network s) n" by simp_all
  from m linked_base [OF l] show "x \<notin> base" by auto
  from linked_new [OF l m] q ks' show "linked V (insert x base) (snd ks')" by (simp add: quiet_def)
  from relies_quiet [OF l q, of handle] m r ks' show "relies Z V handle base (snd ks) (snd ks')"
    by (auto intro: relies_trans)
qed

lemma scheduled_change:
  assumes "schedule Z V handle A" and "wires_ok Z V" and "linked V base (snd ks)"
    and "on_network A (changes g) ks = ((), ks')"
  obtains s where "relies Z V handle base (snd ks) s" "linked V base s"
    "snd ks' = s\<lparr>network := g (network s)\<rparr>"
proof -
  obtain s n where s: "relies Z V handle base (snd ks) s" "linked V base s"
    and n: "changes g (network s) = ((), n)" and ks': "snd ks' = s\<lparr>network := n\<rparr>"
    by (rule scheduled [OF assms])
  from n have "n = g (network s)" by (simp add: changes_def)
  with s ks' show thesis by (intro that) simp_all
qed

lemma relies_idle:
  "relies Z V handle base s s' \<Longrightarrow> c \<in> base \<Longrightarrow> sock V (network s) c = Some Idle \<Longrightarrow>
    sock V (network s') c = Some Idle"
  by (auto simp: relies_def elim!: evolvesE dest!: bspec [of _ _ c])

lemma relies_buffer:
  "relies Z V handle base s s' \<Longrightarrow> x \<in> base \<Longrightarrow>
    zmq_msg_size Z x (network s') = zmq_msg_size Z x (network s) \<and>
    zmq_msg_data Z x (network s') = zmq_msg_data Z x (network s)"
  by (auto simp: relies_def same_buffers_def msg_buffer_def)

lemma relies_reaches:
  "relies Z V handle base s s' \<Longrightarrow> reaches handle (databases s) (databases s')"
  by (simp add: relies_def)

end
