(* ===== verification/Remote_Call.thy ===== *)
theory Remote_Call
  imports Conversation
begin

text \<open>
  The client's \<open>sendMessage\<close> in the system: call by call, what it does to its own objects and what it
  can rely on.  Whatever happens to it, a call of the client leaves the server's side in order, so
  that calls of several clients can follow one another; a reply that it returns is the handler's.
\<close>

section \<open>Single calls\<close>

lemma linked_change:
  assumes "linked V base s" and "base' \<subseteq> objects V n"
    and "\<And>y. y \<in> objects V (network s) \<Longrightarrow> y \<notin> base \<Longrightarrow> y \<in> objects V n \<and> y \<notin> base'"
    and "\<And>y. y \<in> objects V (network s) \<Longrightarrow> y \<notin> base \<Longrightarrow> is_rep (sock V (network s) y) \<Longrightarrow>
      is_rep (sock V n y)"
  shows "linked V base' (s\<lparr>network := n\<rparr>)"
  using assms by (auto simp: linked_def)

text \<open>
  \<open>follows base p p'\<close>: the server's side is in order in \<open>p'\<close>, with \<open>base\<close> the client's objects, and
  the databases have got there from \<open>p\<close> by whole messages.
\<close>

definition follows ::
  "('n, 'o) link_view \<Rightarrow> 'd message_handler \<Rightarrow> 'o set \<Rightarrow> nat \<times> ('d, 'n, 'o) server_state
     \<Rightarrow> nat \<times> ('d, 'n, 'o) server_state \<Rightarrow> bool" where
  "follows V handle base p p' \<longleftrightarrow>
     linked V base (snd p') \<and> reaches handle (databases (snd p)) (databases (snd p'))"

lemma follows_trans:
  "follows V handle base p1 p2 \<Longrightarrow> follows V handle base' p2 p3 \<Longrightarrow> follows V handle base' p1 p3"
  by (auto simp: follows_def intro: reaches_trans)

lemma scheduled_follows:
  assumes "schedule Z V handle A" and "wires_ok Z V" and "linked V base (snd p)"
    and "on_network A f p = (r, p')"
    and "\<And>s n. relies Z V handle base (snd p) s \<Longrightarrow> linked V base s \<Longrightarrow> f (network s) = (r, n) \<Longrightarrow>
      linked V base' (s\<lparr>network := n\<rparr>)"
  shows "follows V handle base' p p'"
proof -
  obtain s n where "relies Z V handle base (snd p) s" "linked V base s" "f (network s) = (r, n)"
    "snd p' = s\<lparr>network := n\<rparr>"
    by (rule scheduled [OF assms(1-4)])
  with assms(5) show ?thesis by (simp add: follows_def relies_reaches)
qed

lemma called_quiet:
  assumes "schedule Z V handle A" and "wires_ok Z V" and "linked V base (snd p)"
    and "on_network A f p = (r, p')"
    and "\<And>n n'. f n = (r, n') \<Longrightarrow> quiet Z V {} n n' \<and> objects V n \<subseteq> objects V n'"
  shows "relies Z V handle base (snd p) (snd p') \<and> follows V handle base p p'"
proof -
  have "relies Z V handle base (snd p) (snd p')" "linked V base (snd p')"
    by (rule scheduled_quiet [OF assms(1-4)]; rule assms(5), assumption)+
  then show ?thesis by (simp add: follows_def relies_reaches)
qed

lemma called_new:
  assumes "schedule Z V handle A" and "wires_ok Z V" and "linked V base (snd p)"
    and "on_network A f p = (r, p')"
    and "\<And>n n'. f n = (r, n') \<Longrightarrow> quiet Z V {} n n' \<and> makes (objects V) n (Some x) n'"
  shows "relies Z V handle base (snd p) (snd p') \<and> follows V handle (insert x base) p p' \<and> x \<notin> base"
proof -
  have "relies Z V handle base (snd p) (snd p')" "linked V (insert x base) (snd p')" "x \<notin> base"
    by (rule scheduled_new [OF assms(1-4)]; rule assms(5), assumption)+
  then show ?thesis by (simp add: follows_def relies_reaches)
qed

lemma released_link:
  assumes A: "schedule Z V handle A" and ok: "wires_ok Z V"
    and l: "linked V (insert x base) (snd p)" and x: "x \<notin> base"
  shows "relies Z V handle base (snd p) (snd (zmq_msg_close (alongside Z A) x p)) \<and>
    follows V handle base p (zmq_msg_close (alongside Z A) x p)"
proof -
  obtain s where r: "relies Z V handle (insert x base) (snd p) s" and ls: "linked V (insert x base) s"
    and q: "snd (zmq_msg_close (alongside Z A) x p) = s\<lparr>network := zmq_msg_close Z x (network s)\<rparr>"
    by (rule scheduled_change [OF A ok l alongside_changes(3)])
  have "relies Z V handle base s (s\<lparr>network := zmq_msg_close Z x (network s)\<rparr>)"
    using relies_release [OF ls x link_quiet(8) [OF ok]] zmq_releases(2) [OF link_objects [OF ok]]
    by blast
  with relies_subset [OF r] q
  have "relies Z V handle base (snd p) (snd (zmq_msg_close (alongside Z A) x p))"
    by (auto intro: relies_trans)
  then show ?thesis by (simp add: follows_def relies_def)
qed

lemma closed_link:
  assumes A: "schedule Z V handle A" and ok: "wires_ok Z V"
    and l: "linked V (insert sk base) (snd p)" and sk: "sk \<notin> base"
  shows "follows V handle base p (zmq_close (alongside Z A) sk p)"
proof (rule scheduled_follows [OF A ok l alongside_changes(1)])
  fix s n
  assume ls: "linked V (insert sk base) s" and c: "changes (zmq_close Z sk) (network s) = ((), n)"
  then have n: "n = zmq_close Z sk (network s)" by (simp add: changes_def)
  have o: "objects V n = objects V (network s) - {sk}"
    unfolding n by (rule zmq_releases(1) [OF link_objects [OF ok]])
  show "linked V base (s\<lparr>network := n\<rparr>)"
    using linked_base [OF ls] sk o link_routes(2) [OF ok, of sk "network s", folded n]
    by (intro linked_change [OF ls]) (auto simp: closes_def)
qed

lemma destroyed_link:
  assumes A: "schedule Z V handle A" and ok: "wires_ok Z V"
    and l: "linked V (insert ctx base) (snd p)" and ctx: "ctx \<notin> base"
  shows "follows V handle base p (end_state (destroy_context (alongside Z A) ctx resp p))"
proof (cases rule: destroy_context_cases [of "alongside Z A" ctx resp p])
  case hangs
  with linked_subset [OF l, of base] show ?thesis by (auto simp: follows_def)
next
  case (returns e p')
  then have "waits_on_network A (zmq_ctx_destroy Z ctx) p = Some (e, p')" by simp
  then obtain s n where r: "relies Z V handle (insert ctx base) (snd p) s"
    and ls: "linked V (insert ctx base) s" and d: "zmq_ctx_destroy Z ctx (network s) = Some (e, n)"
    and p': "snd p' = s\<lparr>network := n\<rparr>"
    by (rule scheduled_wait [OF A ok l])
  have "linked V base (s\<lparr>network := n\<rparr>)"
    using linked_base [OF ls] ctx zmq_destroys [OF link_objects [OF ok] d] link_quiet(2) [OF ok d]
    by (intro linked_change [OF ls]) (auto simp: quiet_def split: if_splits)
  with returns p' relies_reaches [OF r] show ?thesis by (simp add: follows_def)
qed

lemma client_out_follows:
  assumes A: "schedule Z V handle A" and ok: "wires_ok Z V"
    and l: "linked V {sk, ctx} (snd p)" and "sk \<noteq> ctx"
  shows "follows V handle {} p (end_state (client_out (alongside Z A) ctx sk resp p))"
proof -
  have c: "follows V handle {ctx} p (zmq_close (alongside Z A) sk p)"
    using closed_link [OF A ok l] assms(4) by simp
  then have "linked V {ctx} (snd (zmq_close (alongside Z A) sk p))" by (simp add: follows_def)
  from follows_trans [OF c destroyed_link [OF A ok this]] show ?thesis
    by (simp add: client_out_def)
qed


section \<open>The parts of \<open>sendMessage\<close>\<close>

text \<open>A context, a new idle socket, a connection and a buffer of the message's size.\<close>

lemma context_link:
  assumes A: "schedule Z V handle A" and ok: "wires_ok Z V" and l: "linked V {} (snd ks)"
    and c: "zmq_ctx_new (alongside Z A) ks = (co, p1)"
  shows "follows V handle (set_option co) ks p1"
proof -
  note c' = c [unfolded alongside_calls]
  show ?thesis
  proof (cases co)
    case None
    from called_quiet [OF A ok l c'] zmq_makes(1) [OF link_objects [OF ok]] link_quiet(1) [OF ok] None
    show ?thesis by fastforce
  next
    case (Some ctx)
    from called_new [OF A ok l c', of ctx] zmq_makes(1) [OF link_objects [OF ok]] link_quiet(1) [OF ok] Some
    show ?thesis by fastforce
  qed
qed

lemma socket_link:
  assumes A: "schedule Z V handle A" and ok: "wires_ok Z V" and l: "linked V base (snd p1)"
    and k: "zmq_socket (alongside Z A) ctx ZMQ_REQ p1 = (so, p2)"
  shows "follows V handle (set_option so \<union> base) p1 p2 \<and> set_option so \<inter> base = {} \<and>
    (\<forall>sk. so = Some sk \<longrightarrow> sock V (network (snd p2)) sk = Some Idle)"
proof -
  obtain s n where r: "relies Z V handle base (snd p1) s" and ls: "linked V base s"
    and f: "zmq_socket Z ctx ZMQ_REQ (network s) = (so, n)" and p2: "snd p2 = s\<lparr>network := n\<rparr>"
    by (rule scheduled [OF A ok l k [unfolded alongside_calls]])
  note m = zmq_makes(2) [OF link_objects [OF ok] f]
  have "linked V (set_option so \<union> base) (s\<lparr>network := n\<rparr>) \<and> set_option so \<inter> base = {} \<and>
    (\<forall>sk. so = Some sk \<longrightarrow> sock V n sk = Some Idle)"
  proof (cases so)
    case None
    with ls m f link_routes(7) [OF ok] show ?thesis
      by (intro conjI linked_change [OF ls]) (auto dest: linked_base)
  next
    case (Some sk)
    with f link_routes(1) [OF ok] have "sock V n = (sock V (network s))(sk \<mapsto> Idle)"
      by (fastforce simp: opens_def)
    with Some m linked_base [OF ls] show ?thesis
      by (intro conjI linked_change [OF ls]) auto
  qed
  with r p2 show ?thesis by (simp add: follows_def relies_reaches)
qed

lemma connect_link:
  assumes A: "schedule Z V handle A" and ok: "wires_ok Z V" and l: "linked V base (snd p2)"
    and b: "zmq_connect (alongside Z A) sk ep p2 = (i, p3)"
  shows "relies Z V handle base (snd p2) (snd p3) \<and> follows V handle base p2 p3"
  using called_quiet [OF A ok l b [unfolded alongside_calls]] link_quiet(3) [OF ok]
    zmq_frames(2) [OF link_objects [OF ok]] by fastforce

lemma buffer_link:
  assumes A: "schedule Z V handle A" and ok: "wires_ok Z V" and l: "linked V base (snd p3)"
    and m: "zmq_msg_init_size (alongside Z A) len p3 = ((e, x), p4)"
  shows "relies Z V handle base (snd p3) (snd p4)"
    and "e \<noteq> 0 \<Longrightarrow> follows V handle base p3 p4"
    and "e = 0 \<Longrightarrow> follows V handle (insert x base) p3 p4 \<and> x \<notin> base \<and>
      zmq_msg_size Z x (network (snd p4)) = len"
proof -
  note m' = m [unfolded alongside_calls] and makes = zmq_makes(4) [OF link_objects [OF ok]]
  have bad: "relies Z V handle base (snd p3) (snd p4) \<and> follows V handle base p3 p4" if "e \<noteq> 0"
  proof (rule called_quiet [OF A ok l m'])
    fix n n' assume f: "zmq_msg_init_size Z len n = ((e, x), n')"
    from link_quiet(6) [OF ok f] makes [OF f] that
    show "quiet Z V {} n n' \<and> objects V n \<subseteq> objects V n'" by simp
  qed
  have good: "relies Z V handle base (snd p3) (snd p4) \<and> follows V handle (insert x base) p3 p4 \<and> x \<notin> base"
    if "e = 0"
  proof (rule called_new [OF A ok l m'])
    fix n n' assume f: "zmq_msg_init_size Z len n = ((e, x), n')"
    from link_quiet(6) [OF ok f] makes [OF f] that
    show "quiet Z V {} n n' \<and> makes (objects V) n (Some x) n'" by simp
  qed
  from bad good show "relies Z V handle base (snd p3) (snd p4)" by blast
  from bad show "follows V handle base p3 p4" if "e \<noteq> 0" using that by blast
  obtain n where "zmq_msg_init_size Z len (network (A (fst p3) (snd p3))) = ((e, x), n)"
    and "p4 = (Suc (fst p3), (A (fst p3) (snd p3))\<lparr>network := n\<rparr>)"
    by (rule on_network_elim [OF m'])
  then have "e = 0 \<Longrightarrow> zmq_msg_size Z x (network (snd p4)) = len"
    using link_routes(5) [OF ok] by simp
  with good show "follows V handle (insert x base) p3 p4 \<and> x \<notin> base \<and>
      zmq_msg_size Z x (network (snd p4)) = len" if "e = 0"
    using that by blast
qed


text \<open>The message is filled in and sent: the socket has asked.\<close>

lemma send_link:
  assumes A: "schedule Z V handle A" and ok: "wires_ok Z V" and l: "linked V (insert x base) (snd p4)"
    and sk: "sk \<in> base" and i: "sock V (network (snd p4)) sk = Some Idle"
    and z: "zmq_msg_size Z x (network (snd p4)) = length data"
    and d: "zmq_msg_send (alongside Z A) x sk (zmq_msg_fill (alongside Z A) x data p4) = (e, p6)"
  shows "follows V handle (insert x base) p4 p6 \<and>
    (e \<noteq> - 1 \<longrightarrow> sock V (network (snd p6)) sk = Some (Asked data))"
proof -
  note zok = link_objects [OF ok]
  let ?B = "insert x base" and ?p5 = "zmq_msg_fill (alongside Z A) x data p4"
  obtain s5 where r5: "relies Z V handle ?B (snd p4) s5" and l5: "linked V ?B s5"
    and p5: "snd ?p5 = s5\<lparr>network := zmq_msg_fill Z x data (network s5)\<rparr>"
    by (rule scheduled_change [OF A ok l alongside_changes(2)])
  have b5: "zmq_msg_data Z x (network (snd ?p5)) = data"
    using link_routes(6) [OF ok, of x "network s5" data] relies_buffer [OF r5] z p5
    by (simp add: msg_buffer_def)
  have "sock V (network (snd ?p5)) = sock V (network s5)"
    using link_quiet(7) [OF ok, of x "network s5" data] p5 by (simp add: quiet_def)
  then have i5: "sock V (network (snd ?p5)) sk = Some Idle" and l5': "linked V ?B (snd ?p5)"
    using relies_idle [OF r5 _ i] sk l5 p5 zmq_frames(4) [OF zok, of x data "network s5"]
    by (simp_all add: linked_def)
  obtain s6 n6 where r6: "relies Z V handle ?B (snd ?p5) s6" and l6: "linked V ?B s6"
    and f6: "zmq_msg_send Z x sk (network s6) = (e, n6)" and p6: "snd p6 = s6\<lparr>network := n6\<rparr>"
    by (rule scheduled [OF A ok l5' d [unfolded alongside_calls]])
  have up: "sock V n6 = (if e = - 1 then sock V (network s6) else (sock V (network s6))(sk \<mapsto> Asked data))"
    using link_routes(4) [OF ok f6] relies_buffer [OF r6] b5 relies_idle [OF r6 _ i5] sk
    by (auto simp: sends_def)
  have "reaches handle (databases (snd p4)) (databases (snd p6))"
    using r5 r6 p5 p6 by (auto dest!: relies_reaches intro: reaches_trans)
  moreover have "linked V ?B (snd p6)"
    using l6 up p6 sk zmq_frames(6) [OF zok f6] by (auto simp: linked_def)
  ultimately show ?thesis using up p6 by (simp add: follows_def)
qed

text \<open>
  A receive on a socket that has asked: it fails, or gives the answer of the handler.
\<close>

lemma receive_link:
  assumes A: "schedule Z V handle A" and ok: "wires_ok Z V" and l: "linked V (insert y base) (snd p9)"
    and sk: "sk \<in> base" and q: "sock V (network s6) sk = Some (Asked data)"
    and h: "relies Z V handle base s6 (snd p9)"
    and v: "zmq_msg_recv (alongside Z A) y sk p9 = (e, p10)"
  shows "follows V handle (insert y base) p9 p10 \<and>
    (e \<noteq> - 1 \<longrightarrow>
       executed handle (databases s6) \<lparr>msg_data = data\<rparr> (zmq_msg_data Z y (network (snd p10)))
         (databases (snd p10)) \<and>
       zmq_msg_size Z y (network (snd p10)) = length (zmq_msg_data Z y (network (snd p10))))"
proof -
  obtain s n where r: "relies Z V handle (insert y base) (snd p9) s" and ls: "linked V (insert y base) s"
    and f: "zmq_msg_recv Z y sk (network s) = (e, n)" and p10: "snd p10 = s\<lparr>network := n\<rparr>"
    by (rule scheduled [OF A ok l v [unfolded alongside_calls]])
  have "relies Z V handle base s6 s"
    using h relies_subset [OF r, of base] by (blast intro: relies_trans)
  then have ev: "evolves handle (databases s6) (Some (Asked data)) (databases s) (sock V (network s) sk)"
    using q sk by (auto simp: relies_def)
  then have nr: "\<not> is_rep (sock V (network s) sk)" by (rule evolves_not_rep) simp
  note recv = link_routes(3) [OF ok f]
  have up: "sock V n = sock V (network s) \<or> sock V n = (sock V (network s))(sk \<mapsto> Idle)"
    using recv nr by (auto simp: receives_def split: if_splits)
  have "linked V (insert y base) (snd p10)"
    using ls up p10 sk zmq_frames(5) [OF link_objects [OF ok] f] by (auto simp: linked_def)
  moreover have "executed handle (databases s6) \<lparr>msg_data = data\<rparr> (zmq_msg_data Z y n) (databases s) \<and>
      zmq_msg_size Z y n = length (zmq_msg_data Z y n)" if "e \<noteq> - 1"
    using recv ev nr that by (auto simp: receives_def elim: evolvesE)
  ultimately show ?thesis
    using relies_reaches [OF r] p10 by (simp add: follows_def)
qed

lemma receive_reply_link:
  assumes A: "schedule Z V handle A" and ok: "wires_ok Z V" and sk: "sk \<in> base"
    and q: "sock V (network s6) sk = Some (Asked data)" and h: "relies Z V handle base s6 (snd p7)"
    and r: "receive_reply (alongside Z A) cl sk p7 = (resp, p8)"
  shows "follows V handle base p7 p8 \<and>
    (\<forall>reply. resp = Some reply \<longrightarrow>
       executed handle (databases s6) \<lparr>msg_data = data\<rparr> (msg_data reply) (databases (snd p8)))"
proof -
  note zok = link_objects [OF ok]
  have l7: "linked V base (snd p7)" using h by (simp add: relies_def)
  have polled: "relies Z V handle base (snd p7) (snd p8) \<and> follows V handle base p7 p8"
    if "zmq_poll (alongside Z A) sk t p7 = (pe, p8)" for t pe p8
  proof (rule called_quiet [OF A ok l7 that [unfolded alongside_calls]])
    fix n n' assume f: "zmq_poll Z sk t n = (pe, n')"
    show "quiet Z V {} n n' \<and> objects V n \<subseteq> objects V n'"
      using link_quiet(4) [OF ok f] zmq_frames(3) [OF zok f] by simp
  qed
  have got: "follows V handle base p7 (zmq_msg_close (alongside Z A) y p10) \<and> (e \<noteq> - 1 \<longrightarrow>
       executed handle (databases s6) \<lparr>msg_data = data\<rparr> (zmq_msg_data Z y (network (snd p10)))
         (databases (snd (zmq_msg_close (alongside Z A) y p10))) \<and>
       zmq_msg_size Z y (network (snd p10)) = length (zmq_msg_data Z y (network (snd p10))))"
    if p: "zmq_poll (alongside Z A) sk t p7 = (pe, p8)"
      and i: "zmq_msg_init (alongside Z A) p8 = ((0, y), p9)"
      and v: "zmq_msg_recv (alongside Z A) y sk p9 = (e, p10)" for t pe p8 y p9 e p10
  proof -
    note p8 = polled [OF p]
    then have l8: "linked V base (snd p8)" by (simp add: follows_def)
    have "relies Z V handle base (snd p8) (snd p9) \<and> follows V handle (insert y base) p8 p9 \<and> y \<notin> base"
    proof (rule called_new [OF A ok l8 i [unfolded alongside_calls]])
      fix n n' assume f: "zmq_msg_init Z n = ((0, y), n')"
      show "quiet Z V {} n n' \<and> makes (objects V) n (Some y) n'"
        using link_quiet(5) [OF ok f] zmq_makes(3) [OF zok f] by simp
    qed
    note p9 = this
    then have l9: "linked V (insert y base) (snd p9)" by (simp add: follows_def)
    have "relies Z V handle base s6 (snd p9)" using h p8 p9 by (blast intro: relies_trans)
    note p10 = receive_link [OF A ok l9 sk q this v]
    then have "linked V (insert y base) (snd p10)" by (simp add: follows_def)
    note p11 = released_link [OF A ok this]
    have "follows V handle base p7 (zmq_msg_close (alongside Z A) y p10)"
      using p8 p9 p10 p11 by (blast intro: follows_trans)
    moreover have "reaches handle (databases (snd p10))
        (databases (snd (zmq_msg_close (alongside Z A) y p10)))"
      using p11 p9 by (simp add: follows_def)
    ultimately show ?thesis using p10 by (blast intro: executed_before)
  qed
  from r show ?thesis
  proof (cases rule: receive_reply_cases)
    case (silent pe)
    with polled [OF silent(1)] show ?thesis by simp
  next
    case (no_buffer e n1 e2 x)
    note p8 = polled [OF no_buffer(1)]
    then have l8: "linked V base (snd n1)" by (simp add: follows_def)
    have "relies Z V handle base (snd n1) (snd p8) \<and> follows V handle base n1 p8"
    proof (rule called_quiet [OF A ok l8 no_buffer(2) [unfolded alongside_calls]])
      fix n n' assume f: "zmq_msg_init Z n = ((e2, x), n')"
      show "quiet Z V {} n n' \<and> objects V n \<subseteq> objects V n'"
        using link_quiet(5) [OF ok f] zmq_makes(3) [OF zok f] no_buffer(3) by simp
    qed
    with p8 no_buffer(4) show ?thesis by (blast intro: follows_trans)
  next
    case (not_received e n1 x n2 n3)
    with got [OF not_received(1-3)] show ?thesis by simp
  next
    case (received e n1 x n2 e3 n3)
    with got [OF received(1-3)] show ?thesis by (auto split: if_splits)
  qed
qed


section \<open>The whole call\<close>

lemma followsD: "follows V handle base p p' \<Longrightarrow> linked V base (snd p')"
  by (simp add: follows_def)

text \<open>After the message was sent: the rest of the call, with context \<open>ctx\<close> and socket \<open>sk\<close>.\<close>

lemma answer_link:
  assumes A: "schedule Z V handle A" and ok: "wires_ok Z V" and l: "linked V {x, sk, ctx} (snd p6)"
    and new: "sk \<noteq> ctx" "x \<noteq> sk" "x \<noteq> ctx" and q: "sock V (network (snd p6)) sk = Some (Asked data)"
    and r: "receive_reply (alongside Z A) cl sk (zmq_msg_close (alongside Z A) x p6) = (resp, p7)"
  shows "follows V handle {} p6 (end_state (client_out (alongside Z A) ctx sk resp p7)) \<and>
    (\<forall>reply. resp = Some reply \<longrightarrow>
       executed handle (databases (snd p6)) \<lparr>msg_data = data\<rparr> (msg_data reply)
         (databases (snd (end_state (client_out (alongside Z A) ctx sk resp p7)))))"
proof -
  have c: "relies Z V handle {sk, ctx} (snd p6) (snd (zmq_msg_close (alongside Z A) x p6)) \<and>
      follows V handle {sk, ctx} p6 (zmq_msg_close (alongside Z A) x p6)"
    by (rule released_link [OF A ok l]) (use new in simp)
  note p7 = receive_reply_link [OF A ok _ q c [THEN conjunct1] r, simplified]
  then have l7: "linked V {sk, ctx} (snd p7)" by (simp add: follows_def)
  note out = client_out_follows [OF A ok l7 new(1), of resp]
  have "follows V handle {} p6 (end_state (client_out (alongside Z A) ctx sk resp p7))"
    using c p7 out by (blast intro: follows_trans)
  with p7 out show ?thesis by (auto simp: follows_def intro: executed_before)
qed

lemma Client_sendMessage_link:
  assumes A: "schedule Z V handle A" and ok: "wires_ok Z V" and l: "linked V {} (snd ks)"
    and c: "Client_sendMessage (alongside Z A) cl msg ks = ce"
  shows "follows V handle {} ks (end_state ce) \<and>
    (\<forall>reply ks'. ce = Returns (Some reply) ks' \<longrightarrow>
       executed handle (databases (snd ks)) msg (msg_data reply) (databases (snd ks')))"
proof -
  have socket: "follows V handle {sk, ctx} ks p2 \<and> sk \<noteq> ctx \<and> sock V (network (snd p2)) sk = Some Idle"
    if "zmq_ctx_new (alongside Z A) ks = (Some ctx, p1)"
      "zmq_socket (alongside Z A) ctx ZMQ_REQ p1 = (Some sk, p2)" for ctx p1 sk p2
  proof -
    have p1: "follows V handle {ctx} ks p1" using context_link [OF A ok l that(1)] by simp
    with socket_link [OF A ok followsD [OF p1] that(2)] show ?thesis
      by (auto simp: insert_commute intro: follows_trans)
  qed
  have ready: "follows V handle {sk, ctx} ks p3 \<and> sk \<noteq> ctx \<and> sock V (network (snd p3)) sk = Some Idle"
    if "zmq_ctx_new (alongside Z A) ks = (Some ctx, p1)"
      "zmq_socket (alongside Z A) ctx ZMQ_REQ p1 = (Some sk, p2)"
      "zmq_connect (alongside Z A) sk ep p2 = (i, p3)" for ctx p1 sk p2 ep i p3
  proof -
    note p2 = socket [OF that(1,2)]
    then have "linked V {sk, ctx} (snd p2)" by (simp add: follows_def)
    note p3 = connect_link [OF A ok this that(3)]
    have "sock V (network (snd p3)) sk = Some Idle"
      using relies_idle [OF p3 [THEN conjunct1], of sk] p2 by simp
    with p2 p3 show ?thesis by (auto intro: follows_trans)
  qed
  have full: "follows V handle {x, sk, ctx} ks p4 \<and> sk \<noteq> ctx \<and> x \<noteq> sk \<and> x \<noteq> ctx \<and>
      sock V (network (snd p4)) sk = Some Idle \<and> zmq_msg_size Z x (network (snd p4)) = len"
    if "zmq_ctx_new (alongside Z A) ks = (Some ctx, p1)"
      "zmq_socket (alongside Z A) ctx ZMQ_REQ p1 = (Some sk, p2)"
      "zmq_connect (alongside Z A) sk ep p2 = (i, p3)"
      "zmq_msg_init_size (alongside Z A) len p3 = ((0, x), p4)" for ctx p1 sk p2 ep i p3 len x p4
  proof -
    note p3 = ready [OF that(1-3)]
    then have l3: "linked V {sk, ctx} (snd p3)" by (simp add: follows_def)
    note p4 = buffer_link [OF A ok l3 that(4)]
    have "sock V (network (snd p4)) sk = Some Idle"
      using relies_idle [OF p4(1), of sk] p3 by simp
    with p3 p4(3) show ?thesis by (auto intro: follows_trans)
  qed
  from c show ?thesis
  proof (cases rule: Client_sendMessage_cases)
    case (no_context p1)
    with context_link [OF A ok l no_context(1)] show ?thesis by simp
  next
    case (no_socket ctx p1 p2)
    have p1: "follows V handle {ctx} ks p1" using context_link [OF A ok l no_socket(1)] by simp
    have p2: "follows V handle {ctx} p1 p2" using socket_link [OF A ok followsD [OF p1] no_socket(2)] by simp
    from follows_trans [OF follows_trans [OF p1 p2] destroyed_link [OF A ok followsD [OF p2]]] no_socket
    show ?thesis by simp
  next
    case (not_connected ctx p1 sk p2 e3 p3)
    note p3 = ready [OF not_connected(1-3)]
    then have "linked V {sk, ctx} (snd p3)" by (simp add: follows_def)
    from client_out_follows [OF A ok this, of None] p3 not_connected show ?thesis
      by (simp, blast intro: follows_trans)
  next
    case (no_buffer ctx p1 sk p2 p3 e4 x p4)
    note p3 = ready [OF no_buffer(1-3)]
    then have l3: "linked V {sk, ctx} (snd p3)" by (simp add: follows_def)
    have p4: "follows V handle {sk, ctx} p3 p4"
      using buffer_link(2) [OF A ok l3 no_buffer(4,5)] .
    from client_out_follows [OF A ok followsD [OF p4], of None] p3 p4 no_buffer show ?thesis
      by (simp, blast intro: follows_trans)
  next
    case (not_sent ctx p1 sk p2 p3 x p4 p6)
    note p4 = full [OF not_sent(1-4)]
    then have l4: "linked V {x, sk, ctx} (snd p4)" by (simp add: follows_def)
    have p6: "follows V handle {x, sk, ctx} p4 p6"
      using send_link [OF A ok l4 _ _ _ not_sent(5)] p4 by simp
    have p7: "follows V handle {sk, ctx} p6 (zmq_msg_close (alongside Z A) x p6)"
      using released_link [OF A ok followsD [OF p6]] p4 by simp
    from client_out_follows [OF A ok followsD [OF p7], of None] p4 p6 p7 not_sent show ?thesis
      by (simp, blast intro: follows_trans)
  next
    case (asked ctx p1 sk p2 p3 x p4 e p6 resp p7)
    note p4 = full [OF asked(1-4)]
    then have l4: "linked V {x, sk, ctx} (snd p4)" by (simp add: follows_def)
    have p6: "follows V handle {x, sk, ctx} p4 p6"
      and q: "sock V (network (snd p6)) sk = Some (Asked (msg_data msg))"
      using send_link [OF A ok l4 _ _ _ asked(5)] p4 asked(6) by simp_all
    have new: "sk \<noteq> ctx" "x \<noteq> sk" "x \<noteq> ctx" using p4 by simp_all
    note p8 = answer_link [OF A ok followsD [OF p6] new q asked(7)]
    have "follows V handle {x, sk, ctx} ks p6" using p4 p6 by (blast intro: follows_trans)
    with p8 have "follows V handle {} ks (end_state ce)" using asked(8) by (blast intro: follows_trans)
    moreover have "executed handle (databases (snd ks)) msg (msg_data reply) (databases (snd ks'))"
      if "ce = Returns (Some reply) ks'" for reply ks'
    proof -
      from asked(8) that have c: "client_out (alongside Z A) ctx sk resp p7 = Returns (Some reply) ks'" by simp
      have "reaches handle (databases (snd ks)) (databases (snd p6))"
        using p4 p6 by (auto simp: follows_def intro: reaches_trans)
      with p8 [unfolded c] client_out_returns [OF c] show ?thesis by (cases msg) (auto intro: executed_after)
    qed
    ultimately show ?thesis by blast
  qed
qed

section \<open>Systems with clients\<close>

text \<open>
  The life of a system: the server and others take steps, and clients make calls, one after the
  other as far as this network is concerned, some of which may hang in their last step.  It is online
  once a server has been started.
\<close>

inductive later ::
  "('n, 'o) zmq_lib \<Rightarrow> ('n, 'o) link_view \<Rightarrow> 'd message_handler \<Rightarrow> ('d, 'n, 'o) server_state
     \<Rightarrow> ('d, 'n, 'o) server_state \<Rightarrow> bool"
  for Z :: "('n, 'o) zmq_lib" and V :: "('n, 'o) link_view" and handle :: "'d message_handler" where
  now: "later Z V handle s s"
| moved: "later Z V handle s s' \<Longrightarrow> system_step Z V handle s' s'' \<Longrightarrow> later Z V handle s s''"
| called: "later Z V handle s s' \<Longrightarrow> schedule Z V handle A \<Longrightarrow>
    end_state (Client_sendMessage (alongside Z A) cl msg (k, s')) = (k', s'') \<Longrightarrow> later Z V handle s s''"

definition online ::
  "('n, 'o) zmq_lib \<Rightarrow> ('n, 'o) link_view \<Rightarrow> 'd message_handler \<Rightarrow> ('d, 'n, 'o) server_state \<Rightarrow> bool" where
  "online Z V handle s \<longleftrightarrow> (\<exists>srv d n. later Z V handle (Server_start Z srv d n) s)"

lemma later_trans: "later Z V handle s1 s2 \<Longrightarrow> later Z V handle s0 s1 \<Longrightarrow> later Z V handle s0 s2"
  by (induction rule: later.induct) (auto intro: later.intros)

lemma online_later: "online Z V handle s \<Longrightarrow> later Z V handle s s' \<Longrightarrow> online Z V handle s'"
  unfolding online_def by (blast intro: later_trans)

lemma online_start: "online Z V handle (Server_start Z srv d n)"
  unfolding online_def by (blast intro: later.now)

lemma later_linked:
  "later Z V handle s s' \<Longrightarrow> wires_ok Z V \<Longrightarrow> linked V {} s \<Longrightarrow>
    linked V {} s' \<and> reaches handle (databases s) (databases s')"
proof (induction rule: later.induct)
  case (now s)
  then show ?case by simp
next
  case (moved s s' s'')
  with system_step_relies [of Z V handle s' s'' "{}"] show ?case
    by (auto simp: relies_def intro: reaches_trans)
next
  case (called s s' A cl msg k k' s'')
  with Client_sendMessage_link [of Z V handle A "(k, s')" cl msg] show ?case
    by (auto simp: follows_def intro: reaches_trans)
qed

lemma online_linked: "online Z V handle s \<Longrightarrow> wires_ok Z V \<Longrightarrow> linked V {} s"
  using later_linked linked_start by (fastforce simp: online_def)

text \<open>A call of the client is a call of the handler.\<close>

lemma Client_sendMessage_remote:
  assumes ok: "wires_ok Z V" and A: "schedule Z V handle A" and s: "online Z V handle s"
    and c: "Client_sendMessage (alongside Z A) cl msg (k, s) = Returns (Some reply) ks'"
  shows "\<exists>before d1 d2 after. run_steps (handled handle) before (databases s) = Some d1 \<and>
    handle msg d1 = Some (Some reply, d2) \<and>
    run_steps (handled handle) after d2 = Some (databases (snd ks'))"
proof -
  have "executed handle (databases s) msg (msg_data reply) (databases (snd ks'))"
    using Client_sendMessage_link [OF A ok _ c] online_linked [OF s ok] by (cases ks') simp
  then obtain before d1 resp d2 after where e: "run_steps (handled handle) before (databases s) = Some d1"
    "handle msg d1 = Some (Some resp, d2)" "msg_data resp = msg_data reply"
    "run_steps (handled handle) after d2 = Some (databases (snd ks'))"
    unfolding executed_def by auto
  moreover from e(3) have "resp = reply" by (cases resp, cases reply) simp
  ultimately show ?thesis by blast
qed

lemma later_reaches:
  "online Z V handle s \<Longrightarrow> wires_ok Z V \<Longrightarrow> later Z V handle s s' \<Longrightarrow>
    reaches handle (databases s) (databases s')"
  using later_linked online_linked by blast

section \<open>The record of the messages\<close>

text \<open>
  A handler whose state also keeps the messages it has handled: what a system did between two
  moments can be read off its state.
\<close>

definition recorded :: "'d message_handler \<Rightarrow> ('d \<times> message list) message_handler" where
  "recorded handle msg = (\<lambda>(d, log). map_option (\<lambda>(reply, d'). (reply, (d', log @ [msg]))) (handle msg d))"

lemma handled_recorded:
  "handled (recorded handle) msg (d, log) = map_option (\<lambda>d'. (d', log @ [msg])) (handled handle msg d)"
  by (cases "handle msg d") (auto simp: handled_def recorded_def)

lemma run_recorded:
  "run_steps (handled (recorded handle)) msgs (d, log) =
    map_option (\<lambda>d'. (d', log @ msgs)) (run_steps (handled handle) msgs d)"
  by (induction msgs arbitrary: d log) (simp_all add: handled_recorded split: option.split)

lemma recorded_reaches:
  assumes "reaches (recorded handle) d d'"
  obtains msgs where "run_steps (handled handle) msgs (fst d) = Some (fst d')" "snd d' = snd d @ msgs"
  using assms by (cases d; cases d') (auto simp: reaches_def run_recorded)

lemma Client_sendMessage_recorded:
  assumes "wires_ok Z V" and "schedule Z V (recorded handle) A" and "online Z V (recorded handle) s"
    and "Client_sendMessage (alongside Z A) cl msg (k, s) = Returns (Some reply) (k', s')"
  obtains before d1 d2 after where
    "run_steps (handled handle) before (fst (databases s)) = Some d1"
    "handle msg d1 = Some (Some reply, d2)"
    "run_steps (handled handle) after d2 = Some (fst (databases s'))"
    "snd (databases s') = snd (databases s) @ before @ msg # after"
proof -
  obtain before e1 e2 after where r: "run_steps (handled (recorded handle)) before (databases s) = Some e1"
    "recorded handle msg e1 = Some (Some reply, e2)"
    "run_steps (handled (recorded handle)) after e2 = Some (databases s')"
    using Client_sendMessage_remote [OF assms] by auto
  show thesis
    by (rule that [of before "fst e1" "fst e2" after];
        use r in \<open>cases "databases s"; cases "databases s'"; cases e1; cases e2; auto simp: run_recorded recorded_def\<close>)
qed

text \<open>Two calls, one after the other.\<close>

lemma two_calls:
  assumes "wires_ok Z V" and "online Z V (recorded handle) s"
    and "schedule Z V (recorded handle) A1"
    and "Client_sendMessage (alongside Z A1) cl1 msg1 (k1, s) = Returns (Some reply1) (k1', s1)"
    and "later Z V (recorded handle) s1 s2"
    and "schedule Z V (recorded handle) A2"
    and "Client_sendMessage (alongside Z A2) cl2 msg2 (k2, s2) = Returns (Some reply2) (k2', s3)"
  obtains before d1 d2 between d3 d4 after where
    "run_steps (handled handle) before (fst (databases s)) = Some d1"
    "handle msg1 d1 = Some (Some reply1, d2)"
    "run_steps (handled handle) between d2 = Some d3"
    "handle msg2 d3 = Some (Some reply2, d4)"
    "run_steps (handled handle) after d4 = Some (fst (databases s3))"
    "snd (databases s3) = snd (databases s) @ before @ msg1 # between @ msg2 # after"
proof -
  have s1: "online Z V (recorded handle) s1"
    using online_later [OF assms(2) later.called [OF later.now assms(3)]] assms(4) end_state.simps(2) by metis
  obtain b1 d1 d2 a1 where c1: "run_steps (handled handle) b1 (fst (databases s)) = Some d1"
    "handle msg1 d1 = Some (Some reply1, d2)" "run_steps (handled handle) a1 d2 = Some (fst (databases s1))"
    "snd (databases s1) = snd (databases s) @ b1 @ msg1 # a1"
    by (rule Client_sendMessage_recorded [OF assms(1,3,2,4)])
  obtain m where m: "run_steps (handled handle) m (fst (databases s1)) = Some (fst (databases s2))"
    "snd (databases s2) = snd (databases s1) @ m"
    by (rule recorded_reaches [OF later_reaches [OF s1 assms(1,5)]])
  obtain b2 d3 d4 a2 where c2: "run_steps (handled handle) b2 (fst (databases s2)) = Some d3"
    "handle msg2 d3 = Some (Some reply2, d4)"
    "run_steps (handled handle) a2 d4 = Some (fst (databases s3))"
    "snd (databases s3) = snd (databases s2) @ b2 @ msg2 # a2"
    by (rule Client_sendMessage_recorded [OF assms(1,6) online_later [OF s1 assms(5)] assms(7)])
  have "run_steps (handled handle) (a1 @ m @ b2) d2 = Some d3"
    using c1(3) m(1) c2(1) by (simp add: run_steps_append)
  with c1 c2 m(2) that show thesis by simp
qed

end
