(* ===== verification/Live_Call.thy ===== *)
theory Live_Call
  imports Remote_Call
begin

text \<open>
  Progress of a call.  The laws of \<open>wires_ok\<close> say what a call may do; here the network works
  (\<open>link_live\<close>), the server waits (\<open>waiting\<close>), and it takes one turn of its loop while the client
  polls.  Then the client gets the handler's reply, and the server waits again.
\<close>

section \<open>A network that works\<close>

text \<open>
  A socket at which a receive succeeds: a \<open>REP\<close> socket when some socket has asked, a \<open>REQ\<close> socket
  when it has been answered.
\<close>

definition readable :: "('n, 'o) link_view \<Rightarrow> 'n \<Rightarrow> 'o \<Rightarrow> bool" where
  "readable V n s \<longleftrightarrow>
     sock V n s = Some Ready \<and> (\<exists>c b. sock V n c = Some (Asked b)) \<or>
     (\<exists>b. sock V n s = Some (Answered b))"

text \<open>The good states of the library: no call leaves them.\<close>

definition link_steady :: "('n, 'o) zmq_lib \<Rightarrow> ('n \<Rightarrow> bool) \<Rightarrow> bool" where
  "link_steady Z good \<longleftrightarrow>
     (\<forall>n. good n \<longrightarrow>
        good (snd (zmq_ctx_new Z n)) \<and> (\<forall>c e n'. zmq_ctx_destroy Z c n = Some (e, n') \<longrightarrow> good n') \<and>
        (\<forall>c t. good (snd (zmq_socket Z c t n))) \<and> (\<forall>s. good (zmq_close Z s n)) \<and>
        (\<forall>s e. good (snd (zmq_connect Z s e n))) \<and> (\<forall>s e. good (snd (zmq_bind Z s e n))) \<and>
        (\<forall>s t. good (snd (zmq_poll Z s t n))) \<and>
        good (snd (zmq_msg_init Z n)) \<and> (\<forall>k. good (snd (zmq_msg_init_size Z k n))) \<and>
        (\<forall>x b. good (zmq_msg_fill Z x b n)) \<and> (\<forall>x s. good (snd (zmq_msg_recv Z x s n))) \<and>
        (\<forall>x s. good (snd (zmq_msg_send Z x s n))) \<and> (\<forall>x. good (zmq_msg_close Z x n)))"

text \<open>A context has the sockets that have been made in it and not been closed; a new one has none.\<close>

definition link_owner :: "('n, 'o) zmq_lib \<Rightarrow> ('n, 'o) link_view \<Rightarrow> bool" where
  "link_owner Z V \<longleftrightarrow>
     (\<forall>n c n'. zmq_ctx_new Z n = (Some c, n') \<longrightarrow> owner V n' = owner V n \<and> c \<notin> ran (owner V n)) \<and>
     (\<forall>c t n x n'. zmq_socket Z c t n = (Some x, n') \<longrightarrow> owner V n' = (owner V n)(x \<mapsto> c)) \<and>
     (\<forall>x n. owner V (zmq_close Z x n) = (owner V n)(x := None)) \<and>
     (\<forall>s e n. owner V (snd (zmq_connect Z s e n)) = owner V n) \<and>
     (\<forall>s t n. owner V (snd (zmq_poll Z s t n)) = owner V n) \<and>
     (\<forall>n. owner V (snd (zmq_msg_init Z n)) = owner V n) \<and>
     (\<forall>k n. owner V (snd (zmq_msg_init_size Z k n)) = owner V n) \<and>
     (\<forall>x b n. owner V (zmq_msg_fill Z x b n) = owner V n) \<and>
     (\<forall>x s n. owner V (snd (zmq_msg_recv Z x s n)) = owner V n) \<and>
     (\<forall>x s n. owner V (snd (zmq_msg_send Z x s n)) = owner V n) \<and>
     (\<forall>x n. owner V (zmq_msg_close Z x n) = owner V n)"

text \<open>
  In a good state objects can be made, sockets connect to the endpoints \<open>eps\<close>, a poll sees whether its
  socket is readable, messages are received and sent, no reply is lost, and no request comes from
  elsewhere.  Nothing is left to be passed on, so that a context whose sockets are closed can be
  destroyed.
\<close>

definition link_serves ::
  "('n, 'o) zmq_lib \<Rightarrow> ('n, 'o) link_view \<Rightarrow> ('n \<Rightarrow> bool) \<Rightarrow> string set \<Rightarrow> bool" where
  "link_serves Z V good eps \<longleftrightarrow>
     (\<forall>n. good n \<longrightarrow>
        fst (zmq_ctx_new Z n) \<noteq> None \<and>
        (\<forall>c. c \<notin> ran (owner V n) \<longrightarrow> (\<exists>n'. zmq_ctx_destroy Z c n = Some (0, n'))) \<and>
        (\<forall>c t. fst (zmq_socket Z c t n) \<noteq> None) \<and>
        (\<forall>s e. e \<in> eps \<longrightarrow> fst (zmq_connect Z s e n) = 0) \<and>
        fst (fst (zmq_msg_init Z n)) = 0 \<and> (\<forall>k. fst (fst (zmq_msg_init_size Z k n)) = 0) \<and>
        (\<forall>s t. sock V n s = Some Ready \<or> readable V n s \<longrightarrow>
           fst (fst (zmq_poll Z s t n)) \<noteq> - 1 \<and> (snd (fst (zmq_poll Z s t n)) \<longleftrightarrow> readable V n s)) \<and>
        (\<forall>x s. readable V n s \<longrightarrow> fst (zmq_msg_recv Z x s n) \<noteq> - 1 \<and>
           sock V (snd (zmq_msg_recv Z x s n)) s \<noteq> Some (Serves None)) \<and>
        (\<forall>x s. sock V n s = Some Idle \<longrightarrow> fst (zmq_msg_send Z x s n) \<noteq> - 1) \<and>
        (\<forall>x s c. sock V n s = Some (Serves (Some c)) \<and> sock V n c = Some Taken \<longrightarrow>
           fst (zmq_msg_send Z x s n) \<noteq> - 1 \<and> sock V (snd (zmq_msg_send Z x s n)) c \<noteq> Some Taken))"

definition link_live ::
  "('n, 'o) zmq_lib \<Rightarrow> ('n, 'o) link_view \<Rightarrow> ('n \<Rightarrow> bool) \<Rightarrow> string set \<Rightarrow> bool" where
  "link_live Z V good eps \<longleftrightarrow> link_steady Z good \<and> link_owner Z V \<and> link_serves Z V good eps"

text \<open>The laws, call by call.\<close>

lemma live_steps:
  assumes "link_live Z V good eps" and "good n"
  shows "zmq_ctx_new Z n = (co, n') \<Longrightarrow> co \<noteq> None \<and> good n'"
    and "zmq_socket Z ctx t n = (co, n') \<Longrightarrow> co \<noteq> None \<and> good n'"
    and "zmq_connect Z s ep n = (i, n') \<Longrightarrow> (ep \<in> eps \<longrightarrow> i = 0) \<and> good n'"
    and "zmq_poll Z s z n = ((i, p), n') \<Longrightarrow> 
      (sock V n s = Some Ready \<or> readable V n s \<longrightarrow> i \<noteq> - 1 \<and> (p \<longleftrightarrow> readable V n s)) \<and> good n'"
    and "zmq_msg_init Z n = ((i, x), n') \<Longrightarrow> i = 0 \<and> good n'"
    and "zmq_msg_init_size Z k n = ((i, x), n') \<Longrightarrow> i = 0 \<and> good n'"
    and "zmq_msg_recv Z x s n = (i, n') \<Longrightarrow>
      (readable V n s \<longrightarrow> i \<noteq> - 1 \<and> sock V n' s \<noteq> Some (Serves None)) \<and> good n'"
    and "zmq_msg_send Z x s n = (i, n') \<Longrightarrow> (sock V n s = Some Idle \<longrightarrow> i \<noteq> - 1) \<and>
      (\<forall>c. sock V n s = Some (Serves (Some c)) \<and> sock V n c = Some Taken \<longrightarrow>
         i \<noteq> - 1 \<and> sock V n' c \<noteq> Some Taken) \<and> good n'"
    and "zmq_bind Z s ep n = (i, n') \<Longrightarrow> good n'"
  using assms unfolding link_live_def link_steady_def link_serves_def by (metis fst_conv snd_conv)+

lemma live_keeps:
  assumes "link_live Z V good eps" and "good n"
  shows "good (zmq_close Z x n)" and "good (zmq_msg_fill Z x b n)" and "good (zmq_msg_close Z x n)"
  using assms by (simp_all add: link_live_def link_steady_def)

lemma live_destroy:
  assumes "link_live Z V good eps" and "good n" and "c \<notin> ran (owner V n)"
  obtains n' where "zmq_ctx_destroy Z c n = Some (0, n')" "good n'"
proof -
  have "\<exists>n'. zmq_ctx_destroy Z c n = Some (0, n')"
    using assms by (simp add: link_live_def link_serves_def)
  moreover have "\<forall>c e n'. zmq_ctx_destroy Z c n = Some (e, n') \<longrightarrow> good n'"
    using assms by (simp add: link_live_def link_steady_def)
  ultimately show thesis using that by blast
qed

lemma live_owner:
  assumes "link_live Z V good eps"
  shows "zmq_ctx_new Z n = (Some c, n') \<Longrightarrow> owner V n' = owner V n \<and> c \<notin> ran (owner V n)"
    and "zmq_socket Z c t n = (Some x, n') \<Longrightarrow> owner V n' = (owner V n)(x \<mapsto> c)"
    and "zmq_connect Z s ep n = (i, n') \<Longrightarrow> owner V n' = owner V n"
    and "zmq_poll Z s z n = (ip, n') \<Longrightarrow> owner V n' = owner V n"
    and "zmq_msg_init Z n = (ix, n') \<Longrightarrow> owner V n' = owner V n"
    and "zmq_msg_init_size Z k n = (ix, n') \<Longrightarrow> owner V n' = owner V n"
    and "zmq_msg_recv Z x s n = (i, n') \<Longrightarrow> owner V n' = owner V n"
    and "zmq_msg_send Z x s n = (i, n') \<Longrightarrow> owner V n' = owner V n"
proof -
  have l: "link_owner Z V" using assms by (simp add: link_live_def)
  have "\<forall>n c n'. zmq_ctx_new Z n = (Some c, n') \<longrightarrow> owner V n' = owner V n \<and> c \<notin> ran (owner V n)"
    using l by (simp add: link_owner_def)
  then show "zmq_ctx_new Z n = (Some c, n') \<Longrightarrow> owner V n' = owner V n \<and> c \<notin> ran (owner V n)"
    by blast
  have "\<forall>c t n x n'. zmq_socket Z c t n = (Some x, n') \<longrightarrow> owner V n' = (owner V n)(x \<mapsto> c)"
    using l by (simp add: link_owner_def)
  then show "zmq_socket Z c t n = (Some x, n') \<Longrightarrow> owner V n' = (owner V n)(x \<mapsto> c)"
    by blast
  have "\<forall>s e n. owner V (snd (zmq_connect Z s e n)) = owner V n" using l by (simp add: link_owner_def)
  then show "zmq_connect Z s ep n = (i, n') \<Longrightarrow> owner V n' = owner V n" by (metis snd_conv)
  have "\<forall>s t n. owner V (snd (zmq_poll Z s t n)) = owner V n" using l by (simp add: link_owner_def)
  then show "zmq_poll Z s z n = (ip, n') \<Longrightarrow> owner V n' = owner V n" by (metis snd_conv)
  have "\<forall>n. owner V (snd (zmq_msg_init Z n)) = owner V n" using l by (simp add: link_owner_def)
  then show "zmq_msg_init Z n = (ix, n') \<Longrightarrow> owner V n' = owner V n" by (metis snd_conv)
  have "\<forall>k n. owner V (snd (zmq_msg_init_size Z k n)) = owner V n" using l by (simp add: link_owner_def)
  then show "zmq_msg_init_size Z k n = (ix, n') \<Longrightarrow> owner V n' = owner V n" by (metis snd_conv)
  have "\<forall>x s n. owner V (snd (zmq_msg_recv Z x s n)) = owner V n" using l by (simp add: link_owner_def)
  then show "zmq_msg_recv Z x s n = (i, n') \<Longrightarrow> owner V n' = owner V n" by (metis snd_conv)
  have "\<forall>x s n. owner V (snd (zmq_msg_send Z x s n)) = owner V n" using l by (simp add: link_owner_def)
  then show "zmq_msg_send Z x s n = (i, n') \<Longrightarrow> owner V n' = owner V n" by (metis snd_conv)
qed

lemma live_owner_changes:
  assumes "link_live Z V good eps"
  shows "owner V (zmq_close Z x n) = (owner V n)(x := None)" and "owner V (zmq_msg_fill Z x b n) = owner V n"
    and "owner V (zmq_msg_close Z x n) = owner V n"
  using assms by (simp_all add: link_live_def link_owner_def)

section \<open>A turn of the server\<close>

text \<open>
  A turn of the server's thread as a function: the test of the loop with the body that follows it,
  the rest of a body, or what comes after the loop.  A thread whose handler does not return, or whose
  \<open>zmq_ctx_destroy\<close> does not, stays there.
\<close>

definition serve_body ::
  "('n, 'o) zmq_lib \<Rightarrow> 'd message_handler \<Rightarrow> 'o \<Rightarrow> 'o \<Rightarrow> ('d, 'n, 'o) server_state
     \<Rightarrow> ('d, 'n, 'o) server_state" where
  "serve_body Z handle ctx S s =
     (case process_turn Z handle S (databases s) (network s) of
        None \<Rightarrow> s\<lparr>phase := Turning ctx S\<rparr>
      | Some (go, log, d, n) \<Rightarrow>
          let (ph, n) = (if go then (Serving ctx S, n) else process_out Z ctx S n)
          in s\<lparr>phase := ph, databases := d, network := n\<rparr>)"

definition serve ::
  "('n, 'o) zmq_lib \<Rightarrow> 'd message_handler \<Rightarrow> ('d, 'n, 'o) server_state \<Rightarrow> ('d, 'n, 'o) server_state" where
  "serve Z handle s =
     (case phase s of
        Finished \<Rightarrow> s
      | Closing ctx \<Rightarrow>
          (case zmq_ctx_destroy Z ctx (network s) of
             None \<Rightarrow> s
           | Some (err, n) \<Rightarrow> s\<lparr>phase := Finished, network := n\<rparr>)
      | Turning ctx S \<Rightarrow> serve_body Z handle ctx S s
      | Serving ctx S \<Rightarrow>
          if isStopped s then serve_body Z handle ctx S s
          else let (ph, n) = process_out Z ctx S (network s)
               in s\<lparr>isStopped := True, phase := ph, network := n\<rparr>)"

text \<open>The schedule in which the server takes \<open>m k\<close> turns before the client's \<open>k\<close>-th call.\<close>

definition turns ::
  "('n, 'o) zmq_lib \<Rightarrow> 'd message_handler \<Rightarrow> (nat \<Rightarrow> nat) \<Rightarrow> nat \<Rightarrow> ('d, 'n, 'o) server_state
     \<Rightarrow> ('d, 'n, 'o) server_state" where
  "turns Z handle m k s = (serve Z handle ^^ m k) s"

lemma serve_body_step:
  "phase s = Turning ctx S \<Longrightarrow>
    serve_body Z handle ctx S s = s \<or> (\<exists>log. server_step Z handle s log (serve_body Z handle ctx S s))"
  by (auto simp: serve_body_def intro: server_step.turn server_step.broken split: option.split prod.split)

lemma serve_steps: "(system_step Z V handle)\<^sup>*\<^sup>* s (serve Z handle s)"
proof -
  have body: "(system_step Z V handle)\<^sup>*\<^sup>* s (serve_body Z handle ctx S s)" if "phase s = Turning ctx S" for s ctx S
    using serve_body_step [OF that, of Z handle] by (auto intro: system_step.server)
  show ?thesis
  proof (cases "\<exists>ctx S. phase s = Serving ctx S \<and> isStopped s")
    case True
    then obtain ctx S where s: "phase s = Serving ctx S" "isStopped s" by blast
    let ?s = "s\<lparr>phase := Turning ctx S\<rparr>"
    have "system_step Z V handle s ?s" by (rule system_step.server [OF server_step.enter [OF s]])
    moreover have "(system_step Z V handle)\<^sup>*\<^sup>* ?s (serve_body Z handle ctx S ?s)" by (rule body) simp
    moreover have "serve_body Z handle ctx S ?s = serve Z handle s"
      using s by (simp add: serve_def serve_body_def Let_def split: option.split prod.split)
    ultimately show ?thesis by (simp add: converse_rtranclp_into_rtranclp)
  next
    case False
    show ?thesis
    proof (cases "phase s")
      case (Serving ctx S)
      with False have "\<not> isStopped s" by blast
      with Serving server_step.leave [OF Serving this process_out_def, of Z handle]
      have "server_step Z handle s [] (serve Z handle s)" by (simp add: serve_def process_out_def)
      then show ?thesis by (blast intro: system_step.server)
    next
      case (Turning ctx S)
      with body [OF Turning] show ?thesis by (simp add: serve_def)
    next
      case (Closing ctx)
      show ?thesis
      proof (cases "zmq_ctx_destroy Z ctx (network s)")
        case None
        with Closing show ?thesis by (simp add: serve_def)
      next
        case (Some en)
        then obtain e n where "zmq_ctx_destroy Z ctx (network s) = Some (e, n)" by (cases en) simp
        with Closing server_step.destroyed [OF Closing this, of handle]
        have "server_step Z handle s [] (serve Z handle s)" by (simp add: serve_def)
        then show ?thesis by (blast intro: system_step.server)
      qed
    next
      case Finished
      then show ?thesis by (simp add: serve_def)
    qed
  qed
qed

lemma turns_schedule: "schedule Z V handle (turns Z handle m)"
proof -
  have "(system_step Z V handle)\<^sup>*\<^sup>* s ((serve Z handle ^^ j) s)" for j s
    by (induction j) (auto intro: rtranclp_trans serve_steps)
  then show ?thesis by (simp add: schedule_def turns_def)
qed

text \<open>The server attends to its socket; it waits when no request is under way.\<close>

definition attending ::
  "('n, 'o) link_view \<Rightarrow> ('n \<Rightarrow> bool) \<Rightarrow> 'o \<Rightarrow> ('d, 'n, 'o) server_state \<Rightarrow> bool" where
  "attending V good S s \<longleftrightarrow>
     (\<exists>ctx. phase s = Serving ctx S) \<and> isStopped s \<and> good (network s) \<and> S \<in> objects V (network s) \<and>
     sock V (network s) S = Some Ready"

definition waiting ::
  "('n, 'o) link_view \<Rightarrow> ('n \<Rightarrow> bool) \<Rightarrow> 'o \<Rightarrow> ('d, 'n, 'o) server_state \<Rightarrow> bool" where
  "waiting V good S s \<longleftrightarrow> attending V good S s \<and> (\<forall>c b. sock V (network s) c \<noteq> Some (Asked b))"

text \<open>One socket of the client has asked, with \<open>b\<close>.\<close>

definition asked_by ::
  "('n, 'o) link_view \<Rightarrow> ('n \<Rightarrow> bool) \<Rightarrow> 'o \<Rightarrow> 'o \<Rightarrow> bytes \<Rightarrow> ('d, 'n, 'o) server_state \<Rightarrow> bool" where
  "asked_by V good S c b s \<longleftrightarrow>
     attending V good S s \<and> sock V (network s) c = Some (Asked b) \<and>
     (\<forall>c' b'. sock V (network s) c' = Some (Asked b') \<longrightarrow> c' = c)"

text \<open>Nothing has happened to the sockets and the buffers.\<close>

definition calm ::
  "('n, 'o) zmq_lib \<Rightarrow> ('n, 'o) link_view \<Rightarrow> ('n \<Rightarrow> bool) \<Rightarrow> 'n \<Rightarrow> 'n \<Rightarrow> bool" where
  "calm Z V good n n' \<longleftrightarrow>
     good n' \<and> objects V n' = objects V n \<and> sock V n' = sock V n \<and> owner V n' = owner V n \<and>
     same_buffers Z (objects V n) n n'"

lemma live_turn:
  assumes ok: "wires_ok Z V" and live: "link_live Z V good eps" and g: "good n"
    and S: "sock V n S = Some Ready" and c: "sock V n c = Some (Asked b)"
    and only: "\<forall>c' b'. sock V n c' = Some (Asked b') \<longrightarrow> c' = c"
    and h: "handle \<lparr>msg_data = b\<rparr> d = Some (Some reply, d')"
  shows "\<exists>n'. process_turn Z handle S d n = Some (True, [\<lparr>msg_data = b\<rparr>], d', n') \<and> good n' \<and>
    objects V n' = objects V n \<and> owner V n' = owner V n \<and>
    sock V n' = (sock V n)(c \<mapsto> Answered (msg_data reply))"
proof -
  let ?t = "ZMQ_POOL_TIMEOUT * ZMQ_POLL_MSEC Z"
  obtain e1 p1 n1 where p: "zmq_poll Z S ?t n = ((e1, p1), n1)" by (metis prod.exhaust)
  obtain e2 x n2 where i: "zmq_msg_init Z n1 = ((e2, x), n2)" by (metis prod.exhaust)
  obtain e3 n3 where v: "zmq_msg_recv Z x S n2 = (e3, n3)" by (metis prod.exhaust)
  define n4 where "n4 = zmq_msg_close Z x n3"
  obtain e5 y n5 where j: "zmq_msg_init_size Z (length (msg_data reply)) n4 = ((e5, y), n5)"
    by (metis prod.exhaust)
  obtain e6 n6 where w: "zmq_msg_send Z y S (zmq_msg_fill Z y (msg_data reply) n5) = (e6, n6)"
    by (metis prod.exhaust)
  have r: "readable V n S" using S c by (auto simp: readable_def)
  have "sock V n1 = sock V n" using link_quiet(4) [OF ok p] by (simp add: quiet_def)
  moreover have "sock V n2 = sock V n1" using link_quiet(5) [OF ok i] by (simp add: quiet_def)
  ultimately have s2: "sock V n2 = sock V n" by simp
  then have r2: "readable V n2 S" using r by (simp add: readable_def)
  from live_steps(4) [OF live g p] r have e1: "e1 \<noteq> - 1" "p1" and g1: "good n1" by simp_all
  from live_steps(5) [OF live g1 i] have e2: "e2 = 0" and g2: "good n2" by simp_all
  from live_steps(7) [OF live g2 v] r2 have e3: "e3 \<noteq> - 1" and some: "sock V n3 S \<noteq> Some (Serves None)"
    and g3: "good n3" by simp_all
  have g4: "good n4" unfolding n4_def by (rule live_keeps(3) [OF live g3])
  have s4: "sock V n4 = sock V n3" unfolding n4_def using link_quiet(8) [OF ok, of x n3] by (simp add: quiet_def)
  note got = received_link [OF ok _ _ p i [unfolded e2] v, of "{}", folded n4_def]
  have o4: "objects V n4 = objects V n" using got(2) S by simp
  have rep: "is_rep (sock V n S)" using S by simp
  have none: "sock V n4 \<noteq> (sock V n)(S \<mapsto> Serves None)"
    using some s4 by (metis fun_upd_same)
  from got(4) [OF rep _ e3] none
  have len: "zmq_msg_size Z x n3 = length (zmq_msg_data Z x n3)"
    and "\<exists>c'. sock V n c' = Some (Asked (zmq_msg_data Z x n3)) \<and>
      sock V n4 = (sock V n)(S \<mapsto> Serves (Some c'), c' \<mapsto> Taken)" by simp_all
  then obtain c' where c': "sock V n c' = Some (Asked (zmq_msg_data Z x n3))"
    and s4': "sock V n4 = (sock V n)(S \<mapsto> Serves (Some c'), c' \<mapsto> Taken)" by blast
  have "c' = c" using c' only by blast
  with c' c s4' len have size: "zmq_msg_size Z x n3 = length b" and data: "zmq_msg_data Z x n3 = b"
    and sock4: "sock V n4 = (sock V n)(S \<mapsto> Serves (Some c), c \<mapsto> Taken)" by simp_all
  have cS: "c \<noteq> S" using S c by auto
  from live_steps(6) [OF live g4 j] have e5: "e5 = 0" and g5: "good n5" by simp_all
  note j' = j [unfolded e5]
  have "sock V (zmq_msg_fill Z y (msg_data reply) n5) = sock V n4"
    using link_quiet(6) [OF ok j'] link_quiet(7) [OF ok, of y n5 "msg_data reply"] by (simp add: quiet_def)
  with live_steps(8) [OF live live_keeps(2) [OF live g5] w] sock4 cS
  have e6: "e6 \<noteq> - 1" and kept: "sock V n6 c \<noteq> Some Taken" and g6: "good n6" by simp_all
  define n7 where "n7 = zmq_msg_close Z y n6"
  have g7: "good n7" unfolding n7_def by (rule live_keeps(3) [OF live g6])
  have s7: "sock V n7 = sock V n6" unfolding n7_def using link_quiet(8) [OF ok, of y n6] by (simp add: quiet_def)
  note out = sent_link [OF ok _ j' w, of "{}", folded n7_def]
  have o7: "objects V n7 = objects V n" using out(2) o4 by simp
  have "sends V S (msg_data reply) n4 n7" using out(3) e6 by simp
  with kept s7 sock4 cS have "sock V n7 = (sock V n4)(S \<mapsto> Ready, c \<mapsto> Answered (msg_data reply))"
    by (auto simp: sends_def)
  with sock4 cS S have sock7: "sock V n7 = (sock V n)(c \<mapsto> Answered (msg_data reply))"
    by (auto simp: fun_eq_iff)
  have "process_turn Z handle S d n = Some (True, [\<lparr>msg_data = b\<rparr>], d', n7)"
    using p i v e1 e2 e3 size data h j e5 w
    by (simp add: process_turn_def Let_def Message_length_def Message_data_def n4_def n7_def Message_new_def)
  moreover have "owner V n7 = owner V n"
    using live_owner [OF live] live_owner_changes [OF live] p i v j w by (simp add: n4_def n7_def)
  ultimately show ?thesis using g7 o7 sock7 by blast
qed

lemma serve_calm:
  assumes ok: "wires_ok Z V" and live: "link_live Z V good eps" and w: "waiting V good S s"
  shows "\<exists>n. serve Z handle s = s\<lparr>network := n\<rparr> \<and> calm Z V good (network s) n"
proof -
  from w obtain ctx where s: "phase s = Serving ctx S" "isStopped s" "good (network s)"
    "sock V (network s) S = Some Ready" "\<not> readable V (network s) S"
    by (auto simp: waiting_def attending_def readable_def)
  obtain e p n where c: "zmq_poll Z S (ZMQ_POOL_TIMEOUT * ZMQ_POLL_MSEC Z) (network s) = ((e, p), n)"
    by (metis prod.exhaust)
  from live_steps(4) [OF live s(3) c] s(4,5) have e: "e \<noteq> - 1" "\<not> p" and g: "good n" by simp_all
  have "quiet Z V {} (network s) n" "objects V n = objects V (network s)"
    using link_quiet(4) [OF ok c] zmq_frames(3) [OF link_objects [OF ok] c] by simp_all
  with g live_owner(4) [OF live c] have "calm Z V good (network s) n"
    by (auto simp: calm_def quiet_def intro: keeps_same)
  moreover have "serve Z handle s = s\<lparr>network := n\<rparr>"
    using s c e by (cases s) (simp add: serve_def serve_body_def process_turn_def)
  ultimately show ?thesis by blast
qed

lemma calm_refl: "good n \<Longrightarrow> calm Z V good n n"
  by (simp add: calm_def)

lemma calm_trans: "calm Z V good n1 n2 \<Longrightarrow> calm Z V good n2 n3 \<Longrightarrow> calm Z V good n1 n3"
  by (auto simp: calm_def intro: same_buffers_trans)

lemma calm_waiting: "waiting V good S s \<Longrightarrow> calm Z V good (network s) n \<Longrightarrow> waiting V good S (s\<lparr>network := n\<rparr>)"
  by (simp add: waiting_def attending_def calm_def)

text \<open>Turns without a request change nothing; with one, the first turn answers it.\<close>

lemma serves_calm:
  assumes "wires_ok Z V" and "link_live Z V good eps" and "waiting V good S s"
  shows "\<exists>n. (serve Z handle ^^ j) s = s\<lparr>network := n\<rparr> \<and> calm Z V good (network s) n"
proof (induction j)
  case 0
  from assms(3) have "calm Z V good (network s) (network s)"
    by (simp add: calm_refl waiting_def attending_def)
  moreover have "s = s\<lparr>network := network s\<rparr>" by simp
  ultimately show ?case unfolding funpow_0 by blast
next
  case (Suc j)
  then obtain n where n: "(serve Z handle ^^ j) s = s\<lparr>network := n\<rparr>" "calm Z V good (network s) n" by blast
  obtain n' where "serve Z handle (s\<lparr>network := n\<rparr>) = s\<lparr>network := n\<rparr>\<lparr>network := n'\<rparr>"
    and "calm Z V good n n'"
    using serve_calm [OF assms(1,2) calm_waiting [OF assms(3) n(2)], of handle] by auto
  with n show ?case by (auto intro: calm_trans)
qed

lemma serves_answer:
  assumes ok: "wires_ok Z V" and live: "link_live Z V good eps" and a: "asked_by V good S c b s"
    and h: "handle \<lparr>msg_data = b\<rparr> (databases s) = Some (Some reply, d')" and j: "0 < j"
  shows "\<exists>n. (serve Z handle ^^ j) s = s\<lparr>databases := d', network := n\<rparr> \<and>
    objects V n = objects V (network s) \<and> owner V n = owner V (network s) \<and>
    waiting V good S (s\<lparr>databases := d', network := n\<rparr>) \<and>
    sock V n c = Some (Answered (msg_data reply))"
proof -
  from a obtain ctx where s: "phase s = Serving ctx S" "isStopped s" "good (network s)"
    "sock V (network s) S = Some Ready" "sock V (network s) c = Some (Asked b)"
    and S: "S \<in> objects V (network s)"
    and only: "\<forall>c' b'. sock V (network s) c' = Some (Asked b') \<longrightarrow> c' = c"
    by (auto simp: asked_by_def attending_def)
  from live_turn [of Z V good eps "network s" S c b handle "databases s", OF ok live s(3-5) only h] obtain n
    where t: "process_turn Z handle S (databases s) (network s) = Some (True, [\<lparr>msg_data = b\<rparr>], d', n)"
      and n: "good n" "objects V n = objects V (network s)" "owner V n = owner V (network s)"
        "sock V n = (sock V (network s))(c \<mapsto> Answered (msg_data reply))" by blast
  let ?s = "s\<lparr>databases := d', network := n\<rparr>"
  have one: "serve Z handle s = ?s" using s t by (cases s) (simp add: serve_def serve_body_def)
  have "sock V n c' \<noteq> Some (Asked b')" for c' b'
    using only [THEN spec, THEN spec, of c' b'] by (cases "c' = c") (simp_all add: n(4))
  moreover have "sock V n S = Some Ready" using s(4,5) n(4) by auto
  ultimately have w: "waiting V good S ?s"
    using s(1,2) S n(1,2) by (simp add: waiting_def attending_def)
  from j obtain i where i: "j = Suc i" by (cases j) simp_all
  obtain n' where "(serve Z handle ^^ i) ?s = ?s\<lparr>network := n'\<rparr>" and c': "calm Z V good n n'"
    using serves_calm [where handle = handle and j = i, OF ok live w] by auto
  then have "(serve Z handle ^^ j) s = s\<lparr>databases := d', network := n'\<rparr>"
    by (simp add: i one funpow_Suc_right del: funpow.simps)
  moreover have "waiting V good S (s\<lparr>databases := d', network := n'\<rparr>)"
    using calm_waiting [OF w, of Z n'] c' by simp
  ultimately show ?thesis using c' n by (auto simp: calm_def)
qed

text \<open>A server that has been started waits, if nobody has asked before.\<close>

lemma start_waiting:
  assumes ok: "wires_ok Z V" and live: "link_live Z V good eps" and g: "good n"
    and q: "\<And>c b. sock V n c \<noteq> Some (Asked b)"
    and p: "phase (Server_start Z srv d n) = Serving ctx S"
  shows "waiting V good S (Server_start Z srv d n)"
proof -
  from p obtain n1 n2 where c: "zmq_ctx_new Z n = (Some ctx, n1)"
    and k: "zmq_socket Z ctx ZMQ_REP n1 = (Some S, n2)"
    and b: "zmq_bind Z S (Server_makeEndpointPath srv) n2 = (0, network (Server_start Z srv d n))"
    by (rule serving_start)
  have "good n1" using live_steps(1) [OF live g c] by simp
  from live_steps(2) [OF live this k] have "good n2" by simp
  from live_steps(9) [OF live this b] have "good (network (Server_start Z srv d n))" .
  moreover have "sock V (network (Server_start Z srv d n)) = (sock V n)(S \<mapsto> Ready)"
    using link_quiet(9) [OF ok b] link_routes(1) [OF ok k] link_quiet(1) [OF ok c]
    by (simp add: quiet_def opens_def)
  moreover have "S \<in> objects V (network (Server_start Z srv d n))"
    using zmq_frames(1) [OF link_objects [OF ok] b] zmq_makes(2) [OF link_objects [OF ok] k] by simp
  moreover have "isStopped (Server_start Z srv d n)" by (simp add: Server_start_def split: prod.split)
  ultimately show ?thesis using p q by (simp add: waiting_def attending_def)
qed

section \<open>The calls of the client\<close>

text \<open>
  The client next to a server that takes turns: before a call of a client that has not asked, the
  server waits.
\<close>

abbreviation beside ::
  "('n, 'o) zmq_lib \<Rightarrow> 'd message_handler \<Rightarrow> (nat \<Rightarrow> nat) \<Rightarrow> (nat \<times> ('d, 'n, 'o) server_state, 'o) zmq_lib"
  where "beside Z handle m \<equiv> alongside Z (turns Z handle m)"

lemma calm_call:
  assumes "wires_ok Z V" and "link_live Z V good eps" and "waiting V good S s"
  obtains n where "turns Z handle m k s = s\<lparr>network := n\<rparr>" and "good n"
    and "calm Z V good (network s) n" and "waiting V good S (s\<lparr>network := n\<rparr>)"
  using serves_calm [where handle = handle and j = "m k", OF assms] calm_waiting [OF assms(3)]
  unfolding turns_def calm_def by blast

lemma waiting_quiet:
  assumes "waiting V good S s" and "good n" and "S \<in> objects V n"
    and "\<And>y. sock V n y = sock V (network s) y \<or> y \<noteq> S \<and> (\<forall>b. sock V n y \<noteq> Some (Asked b))"
  shows "waiting V good S (s\<lparr>network := n\<rparr>)"
  using assms(1-3) assms(4) [of S] assms(4) unfolding waiting_def attending_def by simp metis

text \<open>Making a context, a socket and a buffer; connecting.\<close>

lemma live_context:
  assumes ok: "wires_ok Z V" and live: "link_live Z V good eps" and w: "waiting V good S s"
  shows "\<exists>x n. zmq_ctx_new (beside Z handle m) (k, s) = (Some x, (Suc k, s\<lparr>network := n\<rparr>)) \<and>
    waiting V good S (s\<lparr>network := n\<rparr>) \<and> x \<noteq> S \<and> x \<notin> ran (owner V n)"
proof -
  obtain n where t: "turns Z handle m k s = s\<lparr>network := n\<rparr>" and g: "good n"
    and w1: "waiting V good S (s\<lparr>network := n\<rparr>)"
    by (rule calm_call [OF ok live w])
  obtain co n' where f: "zmq_ctx_new Z n = (co, n')" by (metis prod.exhaust)
  from live_steps(1) [OF live g f] obtain x where x: "co = Some x" and g': "good n'" by auto
  from zmq_makes(1) [OF link_objects [OF ok] f] x w1
  have "x \<noteq> S" "S \<in> objects V n'" by (auto simp: waiting_def attending_def)
  moreover have "sock V n' = sock V n" using link_quiet(1) [OF ok f] by (simp add: quiet_def)
  moreover have "x \<notin> ran (owner V n')" using live_owner(1) [OF live f [unfolded x]] by simp
  ultimately show ?thesis
    using waiting_quiet [OF w1 g'] by (intro exI [of _ x] exI [of _ n']) (simp add: on_network_def t f x)
qed

lemma live_socket:
  assumes ok: "wires_ok Z V" and live: "link_live Z V good eps" and w: "waiting V good S s"
  shows "\<exists>c n. zmq_socket (beside Z handle m) ctx ZMQ_REQ (k, s) = (Some c, (Suc k, s\<lparr>network := n\<rparr>)) \<and>
    waiting V good S (s\<lparr>network := n\<rparr>) \<and> c \<noteq> S \<and> sock V n c = Some Idle \<and>
    owner V n = (owner V (network s))(c \<mapsto> ctx)"
proof -
  obtain n where t: "turns Z handle m k s = s\<lparr>network := n\<rparr>" and g: "good n"
    and w1: "waiting V good S (s\<lparr>network := n\<rparr>)" and q: "calm Z V good (network s) n"
    by (rule calm_call [OF ok live w])
  obtain co n' where f: "zmq_socket Z ctx ZMQ_REQ n = (co, n')" by (metis prod.exhaust)
  from live_steps(2) [OF live g f] obtain c where c: "co = Some c" and g': "good n'" by auto
  from zmq_makes(2) [OF link_objects [OF ok] f] c w1
  have "c \<noteq> S" "S \<in> objects V n'" by (auto simp: waiting_def attending_def)
  moreover have u: "sock V n' = (sock V n)(c \<mapsto> Idle)"
    using link_routes(1) [OF ok f [unfolded c]] by (simp add: opens_def)
  moreover have "waiting V good S (s\<lparr>network := n'\<rparr>)"
    using waiting_quiet [OF w1 g'] \<open>c \<noteq> S\<close> \<open>S \<in> objects V n'\<close> u by simp
  moreover have "owner V n' = (owner V (network s))(c \<mapsto> ctx)"
    using live_owner(2) [OF live f [unfolded c]] q by (simp add: calm_def)
  ultimately show ?thesis by (intro exI [of _ c] exI [of _ n']) (simp add: on_network_def t f c)
qed

lemma live_connect:
  assumes ok: "wires_ok Z V" and live: "link_live Z V good eps" and w: "waiting V good S s"
    and e: "ep \<in> eps"
  shows "\<exists>n. zmq_connect (beside Z handle m) c ep (k, s) = (0, (Suc k, s\<lparr>network := n\<rparr>)) \<and>
    waiting V good S (s\<lparr>network := n\<rparr>) \<and> sock V n = sock V (network s) \<and> owner V n = owner V (network s)"
proof -
  obtain n where t: "turns Z handle m k s = s\<lparr>network := n\<rparr>" and g: "good n"
    and w1: "waiting V good S (s\<lparr>network := n\<rparr>)" and q: "calm Z V good (network s) n"
    by (rule calm_call [OF ok live w])
  obtain i n' where f: "zmq_connect Z c ep n = (i, n')" by (metis prod.exhaust)
  from live_steps(3) [OF live g f] e have i: "i = 0" and g': "good n'" by auto
  from zmq_frames(2) [OF link_objects [OF ok] f] w1
  have "S \<in> objects V n'" by (simp add: waiting_def attending_def)
  moreover have "sock V n' = sock V n" using link_quiet(3) [OF ok f] by (simp add: quiet_def)
  ultimately show ?thesis
    using waiting_quiet [OF w1 g'] q live_owner(3) [OF live f] by (intro exI [of _ n']) (simp add: on_network_def t f i calm_def)
qed

lemma live_buffer:
  assumes ok: "wires_ok Z V" and live: "link_live Z V good eps" and w: "waiting V good S s"
  shows "\<exists>x n. zmq_msg_init_size (beside Z handle m) len (k, s) = ((0, x), (Suc k, s\<lparr>network := n\<rparr>)) \<and>
    waiting V good S (s\<lparr>network := n\<rparr>) \<and> sock V n = sock V (network s) \<and> owner V n = owner V (network s) \<and> x \<noteq> S \<and>
    x \<in> objects V n \<and> zmq_msg_size Z x n = len"
proof -
  obtain n where t: "turns Z handle m k s = s\<lparr>network := n\<rparr>" and g: "good n"
    and w1: "waiting V good S (s\<lparr>network := n\<rparr>)" and q: "calm Z V good (network s) n"
    by (rule calm_call [OF ok live w])
  obtain i x n' where f: "zmq_msg_init_size Z len n = ((i, x), n')" by (metis prod.exhaust)
  from live_steps(6) [OF live g f] have i: "i = 0" and g': "good n'" by auto
  note f' = f [unfolded i]
  from zmq_makes(4) [OF link_objects [OF ok] f'] w1
  have "x \<noteq> S" "S \<in> objects V n'" "x \<in> objects V n'" by (auto simp: waiting_def attending_def)
  moreover have "sock V n' = sock V n" using link_quiet(6) [OF ok f] by (simp add: quiet_def)
  ultimately show ?thesis
    using waiting_quiet [OF w1 g'] q live_owner(6) [OF live f] link_routes(5) [OF ok f']
    by (intro exI [of _ x] exI [of _ n']) (simp add: on_network_def t f' calm_def)
qed

lemma live_init:
  assumes ok: "wires_ok Z V" and live: "link_live Z V good eps" and w: "waiting V good S s"
  shows "\<exists>x n. zmq_msg_init (beside Z handle m) (k, s) = ((0, x), (Suc k, s\<lparr>network := n\<rparr>)) \<and>
    waiting V good S (s\<lparr>network := n\<rparr>) \<and> sock V n = sock V (network s) \<and> owner V n = owner V (network s) \<and> x \<noteq> S"
proof -
  obtain n where t: "turns Z handle m k s = s\<lparr>network := n\<rparr>" and g: "good n"
    and w1: "waiting V good S (s\<lparr>network := n\<rparr>)" and q: "calm Z V good (network s) n"
    by (rule calm_call [OF ok live w])
  obtain i x n' where f: "zmq_msg_init Z n = ((i, x), n')" by (metis prod.exhaust)
  from live_steps(5) [OF live g f] have i: "i = 0" and g': "good n'" by auto
  note f' = f [unfolded i]
  from zmq_makes(3) [OF link_objects [OF ok] f'] w1
  have "x \<noteq> S" "S \<in> objects V n'" by (auto simp: waiting_def attending_def)
  moreover have "sock V n' = sock V n" using link_quiet(5) [OF ok f] by (simp add: quiet_def)
  ultimately show ?thesis
    using waiting_quiet [OF w1 g'] q live_owner(5) [OF live f]
    by (intro exI [of _ x] exI [of _ n']) (simp add: on_network_def t f' calm_def)
qed

text \<open>The request is filled in and sent.\<close>

lemma live_fill:
  assumes ok: "wires_ok Z V" and live: "link_live Z V good eps" and w: "waiting V good S s"
    and x: "x \<in> objects V (network s)" and z: "zmq_msg_size Z x (network s) = length b"
  shows "\<exists>n. zmq_msg_fill (beside Z handle m) x b (k, s) = (Suc k, s\<lparr>network := n\<rparr>) \<and>
    waiting V good S (s\<lparr>network := n\<rparr>) \<and> sock V n = sock V (network s) \<and> owner V n = owner V (network s) \<and>
    x \<in> objects V n \<and> zmq_msg_data Z x n = b"
proof -
  obtain n where t: "turns Z handle m k s = s\<lparr>network := n\<rparr>" and g: "good n"
    and w1: "waiting V good S (s\<lparr>network := n\<rparr>)" and q: "calm Z V good (network s) n"
    by (rule calm_call [OF ok live w])
  let ?n = "zmq_msg_fill Z x b n"
  have "zmq_msg_size Z x n = length b" using q x z by (simp add: calm_def same_buffers_def msg_buffer_def)
  then have "zmq_msg_data Z x ?n = b" using link_routes(6) [OF ok] by (simp add: msg_buffer_def)
  moreover have "S \<in> objects V ?n" "x \<in> objects V ?n" "sock V ?n = sock V n"
    using w1 q x zmq_frames(4) [OF link_objects [OF ok]] link_quiet(7) [OF ok, of x n b]
    by (simp_all add: waiting_def attending_def calm_def quiet_def)
  ultimately show ?thesis
    using waiting_quiet [OF w1 live_keeps(2) [OF live g]] q live_owner_changes(2) [OF live]
    by (intro exI [of _ ?n]) (simp add: alongside_def on_network_def changes_def t calm_def)
qed

lemma live_send:
  assumes ok: "wires_ok Z V" and live: "link_live Z V good eps" and w: "waiting V good S s"
    and x: "x \<in> objects V (network s)" and d: "zmq_msg_data Z x (network s) = b"
    and i: "sock V (network s) c = Some Idle"
  shows "\<exists>e n. zmq_msg_send (beside Z handle m) x c (k, s) = (e, (Suc k, s\<lparr>network := n\<rparr>)) \<and> e \<noteq> - 1 \<and>
    asked_by V good S c b (s\<lparr>network := n\<rparr>) \<and> owner V n = owner V (network s)"
proof -
  obtain n where t: "turns Z handle m k s = s\<lparr>network := n\<rparr>" and g: "good n"
    and w1: "waiting V good S (s\<lparr>network := n\<rparr>)" and q: "calm Z V good (network s) n"
    by (rule calm_call [OF ok live w])
  obtain e n' where f: "zmq_msg_send Z x c n = (e, n')" by (metis prod.exhaust)
  have i': "sock V n c = Some Idle" and d': "zmq_msg_data Z x n = b"
    using q i x d by (simp_all add: calm_def same_buffers_def msg_buffer_def)
  from live_steps(8) [OF live g f] i' have e: "e \<noteq> - 1" and g': "good n'" by simp_all
  from link_routes(4) [OF ok f] e i' d' have u: "sock V n' = (sock V n)(c \<mapsto> Asked b)"
    by (simp add: sends_def)
  have "S \<in> objects V n'" "c \<noteq> S"
    using w1 i' zmq_frames(6) [OF link_objects [OF ok] f] by (auto simp: waiting_def attending_def)
  with w1 g' u have "asked_by V good S c b (s\<lparr>network := n'\<rparr>)"
    by (simp add: waiting_def attending_def asked_by_def)
  moreover have "owner V n' = owner V (network s)" using live_owner(8) [OF live f] q by (simp add: calm_def)
  ultimately show ?thesis using e by (intro exI [of _ e] exI [of _ n']) (simp add: on_network_def t f)
qed

text \<open>A release by the client of one of its own objects.\<close>

lemma live_release:
  assumes ok: "wires_ok Z V" and live: "link_live Z V good eps" and w: "waiting V good S s" and x: "x \<noteq> S"
  shows "\<exists>n. zmq_msg_close (beside Z handle m) x (k, s) = (Suc k, s\<lparr>network := n\<rparr>) \<and>
      waiting V good S (s\<lparr>network := n\<rparr>) \<and> sock V n = sock V (network s) \<and> owner V n = owner V (network s)"
    and "\<exists>n. zmq_close (beside Z handle m) x (k, s) = (Suc k, s\<lparr>network := n\<rparr>) \<and>
      waiting V good S (s\<lparr>network := n\<rparr>) \<and> owner V n = (owner V (network s))(x := None)"
    and "x \<notin> ran (owner V (network s)) \<Longrightarrow>
      \<exists>n. zmq_ctx_destroy (beside Z handle m) x (k, s) = Some (0, (Suc k, s\<lparr>network := n\<rparr>)) \<and>
        waiting V good S (s\<lparr>network := n\<rparr>)"
proof -
  obtain n where t: "turns Z handle m k s = s\<lparr>network := n\<rparr>" and g: "good n"
    and w1: "waiting V good S (s\<lparr>network := n\<rparr>)" and q: "calm Z V good (network s) n"
    by (rule calm_call [OF ok live w])
  have S: "S \<in> objects V n" using w1 by (simp add: waiting_def attending_def)
  note keep = live_keeps [OF live g, of x] and rel = zmq_releases [OF link_objects [OF ok], of x n]
    and own = live_owner_changes(1) [OF live, of x n] live_owner_changes(3) [OF live, of x n]
  show "\<exists>n. zmq_msg_close (beside Z handle m) x (k, s) = (Suc k, s\<lparr>network := n\<rparr>) \<and>
      waiting V good S (s\<lparr>network := n\<rparr>) \<and> sock V n = sock V (network s) \<and> owner V n = owner V (network s)"
    using waiting_quiet [OF w1 keep(3)] rel(2) S x q own(2) link_quiet(8) [OF ok, of x n]
    by (intro exI [of _ "zmq_msg_close Z x n"])
      (simp add: alongside_def on_network_def changes_def t calm_def quiet_def)
  show "\<exists>n. zmq_close (beside Z handle m) x (k, s) = (Suc k, s\<lparr>network := n\<rparr>) \<and>
      waiting V good S (s\<lparr>network := n\<rparr>) \<and> owner V n = (owner V (network s))(x := None)"
    using keep(1) rel(1) S x w1 q own(1) link_routes(2) [OF ok, of x n]
    by (intro exI [of _ "zmq_close Z x n"])
      (simp add: alongside_def on_network_def changes_def t closes_def waiting_def attending_def calm_def)
  show "\<exists>n. zmq_ctx_destroy (beside Z handle m) x (k, s) = Some (0, (Suc k, s\<lparr>network := n\<rparr>)) \<and>
        waiting V good S (s\<lparr>network := n\<rparr>)" if "x \<notin> ran (owner V (network s))"
  proof -
    from that q have "x \<notin> ran (owner V n)" by (simp add: calm_def)
    then obtain n' where d: "zmq_ctx_destroy Z x n = Some (0, n')" and g': "good n'"
      by (rule live_destroy [OF live g])
    have "S \<in> objects V n'" using zmq_destroys [OF link_objects [OF ok] d] S x by simp
    with waiting_quiet [OF w1 g'] link_quiet(2) [OF ok d] d show ?thesis
      by (intro exI [of _ n']) (simp add: waits_on_network_def t quiet_def)
  qed
qed

text \<open>
  The client releases its request and polls; the server has taken a turn at the latest when the poll
  returns.
\<close>

lemma turns_answer:
  assumes ok: "wires_ok Z V" and live: "link_live Z V good eps" and a: "asked_by V good S c b s"
    and h: "handle \<lparr>msg_data = b\<rparr> (databases s) = Some (Some reply, d')" and j: "0 < m k"
  obtains n where "turns Z handle m k s = s\<lparr>databases := d', network := n\<rparr>"
    and "waiting V good S (s\<lparr>databases := d', network := n\<rparr>)"
    and "sock V n c = Some (Answered (msg_data reply))" and "owner V n = owner V (network s)"
  using serves_answer [where handle = handle and j = "m k", OF ok live a h j] unfolding turns_def by blast

lemma answered_readable: "sock V n c = Some (Answered b) \<Longrightarrow> readable V n c"
  by (simp add: readable_def)

lemma live_poll_answered:
  assumes ok: "wires_ok Z V" and live: "link_live Z V good eps"
    and w: "waiting V good S (s\<lparr>databases := d', network := n\<rparr>)"
    and a: "sock V n c = Some (Answered r)"
    and t: "turns Z handle m k s = s\<lparr>databases := d', network := n\<rparr>"
  shows "\<exists>e n'. zmq_poll (beside Z handle m) c z (k, s) =
      ((e, True), (Suc k, s\<lparr>databases := d', network := n'\<rparr>)) \<and> e \<noteq> - 1 \<and>
    waiting V good S (s\<lparr>databases := d', network := n'\<rparr>) \<and> sock V n' c = Some (Answered r) \<and> owner V n' = owner V n"
proof -
  from w have g: "good n" and S: "S \<in> objects V n" by (simp_all add: waiting_def attending_def)
  obtain e p n' where f: "zmq_poll Z c z n = ((e, p), n')" by (metis prod.exhaust)
  from live_steps(4) [OF live g f] answered_readable [OF a] have e: "e \<noteq> - 1" and p: "p"
    and g': "good n'" by simp_all
  have u: "sock V n' = sock V n" "S \<in> objects V n'"
    using link_quiet(4) [OF ok f] zmq_frames(3) [OF link_objects [OF ok] f] S by (simp_all add: quiet_def)
  with waiting_quiet [OF w, of n'] g' e p a live_owner(4) [OF live f] show ?thesis
    by (intro exI [of _ e] exI [of _ n']) (simp add: on_network_def t f)
qed

lemma live_close_poll:
  assumes ok: "wires_ok Z V" and live: "link_live Z V good eps" and a: "asked_by V good S c b s"
    and h: "handle \<lparr>msg_data = b\<rparr> (databases s) = Some (Some reply, d')"
    and j: "0 < m k + m (Suc k)" and x: "x \<noteq> S"
  shows "\<exists>e n. zmq_poll (beside Z handle m) c z (zmq_msg_close (beside Z handle m) x (k, s)) =
      ((e, True), (Suc (Suc k), s\<lparr>databases := d', network := n\<rparr>)) \<and> e \<noteq> - 1 \<and>
    waiting V good S (s\<lparr>databases := d', network := n\<rparr>) \<and>
    sock V n c = Some (Answered (msg_data reply)) \<and> owner V n = owner V (network s)"
proof (cases "m k = 0")
  case False
  then obtain n where t: "turns Z handle m k s = s\<lparr>databases := d', network := n\<rparr>"
    and w: "waiting V good S (s\<lparr>databases := d', network := n\<rparr>)"
    and r: "sock V n c = Some (Answered (msg_data reply))" and o: "owner V n = owner V (network s)"
    using turns_answer [where handle = handle, OF ok live a h] by blast
  let ?n = "zmq_msg_close Z x n" and ?s = "s\<lparr>databases := d', network := zmq_msg_close Z x n\<rparr>"
  from w have g: "good n" and S: "S \<in> objects V n" by (simp_all add: waiting_def attending_def)
  have q: "sock V ?n = sock V n" using link_quiet(8) [OF ok, of x n] by (simp add: quiet_def)
  have "waiting V good S (s\<lparr>databases := d', network := n\<rparr>\<lparr>network := ?n\<rparr>)"
    using q S x zmq_releases(2) [OF link_objects [OF ok], of x n]
    by (intro waiting_quiet [OF w live_keeps(3) [OF live g]]) simp_all
  then have w1: "waiting V good S ?s" by simp
  obtain n' where t1: "turns Z handle m (Suc k) ?s = ?s\<lparr>network := n'\<rparr>"
    and w2: "waiting V good S (?s\<lparr>network := n'\<rparr>)" and c: "calm Z V good ?n n'"
    using calm_call [OF ok live w1, of handle m "Suc k"] by auto
  have "zmq_msg_close (beside Z handle m) x (k, s) = (Suc k, ?s)"
    by (simp add: alongside_def on_network_def changes_def t)
  then show ?thesis
    using live_poll_answered [where s = ?s and d' = d' and n = n' and k = "Suc k" and z = z, OF ok live]
      w2 t1 c q r o live_owner_changes(3) [OF live, of x n] by (simp add: calm_def)
next
  case True
  let ?s = "s\<lparr>network := zmq_msg_close Z x (network s)\<rparr>"
  have q: "sock V (network ?s) = sock V (network s)"
    using link_quiet(8) [OF ok, of x "network s"] by (simp add: quiet_def)
  have "good (network ?s)" using a live_keeps(3) [OF live] by (simp add: asked_by_def attending_def)
  with a q x zmq_releases(2) [OF link_objects [OF ok], of x "network s"]
  have a1: "asked_by V good S c b ?s" by (simp add: asked_by_def attending_def)
  have h1: "handle \<lparr>msg_data = b\<rparr> (databases ?s) = Some (Some reply, d')" using h by simp
  from True j have "0 < m (Suc k)" by simp
  from turns_answer [where handle = handle and m = m and k = "Suc k", OF ok live a1 h1 this] obtain n
    where "turns Z handle m (Suc k) ?s = ?s\<lparr>databases := d', network := n\<rparr>"
      and "waiting V good S (?s\<lparr>databases := d', network := n\<rparr>)"
      and "sock V n c = Some (Answered (msg_data reply))" and "owner V n = owner V (network ?s)" .
  with live_poll_answered [where s = ?s and d' = d' and n = n and k = "Suc k" and z = z, OF ok live]
    True live_owner_changes(3) [OF live, of x "network s"] show ?thesis
    by (simp add: alongside_def on_network_def changes_def turns_def)
qed

lemma live_receive:
  assumes ok: "wires_ok Z V" and live: "link_live Z V good eps" and w: "waiting V good S s"
    and a: "sock V (network s) c = Some (Answered r)"
  shows "\<exists>e n. zmq_msg_recv (beside Z handle m) y c (k, s) = (e, (Suc k, s\<lparr>network := n\<rparr>)) \<and> e \<noteq> - 1 \<and>
    waiting V good S (s\<lparr>network := n\<rparr>) \<and> zmq_msg_data Z y n = r \<and> zmq_msg_size Z y n = length r \<and>
    owner V n = owner V (network s)"
proof -
  obtain n where t: "turns Z handle m k s = s\<lparr>network := n\<rparr>" and g: "good n"
    and w1: "waiting V good S (s\<lparr>network := n\<rparr>)" and q: "calm Z V good (network s) n"
    by (rule calm_call [OF ok live w])
  from q a have a1: "sock V n c = Some (Answered r)" by (simp add: calm_def)
  obtain e n' where f: "zmq_msg_recv Z y c n = (e, n')" by (metis prod.exhaust)
  from live_steps(7) [OF live g f] answered_readable [OF a1] have e: "e \<noteq> - 1" and g': "good n'" by simp_all
  from link_routes(3) [OF ok f] e a1 have d: "zmq_msg_data Z y n' = r" "zmq_msg_size Z y n' = length r"
    and u: "sock V n' = (sock V n)(c \<mapsto> Idle)" by (auto simp: receives_def)
  have "S \<in> objects V n'" "c \<noteq> S"
    using w1 a1 zmq_frames(5) [OF link_objects [OF ok] f] by (auto simp: waiting_def attending_def)
  then have "waiting V good S (s\<lparr>network := n'\<rparr>)"
    using waiting_quiet [OF w1 g'] u by simp
  moreover have "owner V n' = owner V (network s)" using live_owner(7) [OF live f] q by (simp add: calm_def)
  ultimately show ?thesis using e d by (intro exI [of _ e] exI [of _ n']) (simp add: on_network_def t f)
qed

section \<open>The call\<close>

text \<open>The first half of \<open>sendMessage\<close>: the client has asked.\<close>

lemma client_asks:
  assumes ok: "wires_ok Z V" and live: "link_live Z V good eps" and w: "waiting V good S s" and e: "ep \<in> eps"
  shows "\<exists>ctx p1 c p2 p3 x p4 i n. zmq_ctx_new (beside Z handle m) (0, s) = (Some ctx, p1) \<and>
    zmq_socket (beside Z handle m) ctx ZMQ_REQ p1 = (Some c, p2) \<and>
    zmq_connect (beside Z handle m) c ep p2 = (0, p3) \<and>
    zmq_msg_init_size (beside Z handle m) (length b) p3 = ((0, x), p4) \<and>
    zmq_msg_send (beside Z handle m) x c (zmq_msg_fill (beside Z handle m) x b p4) =
      (i, (6, s\<lparr>network := n\<rparr>)) \<and> i \<noteq> - 1 \<and> ctx \<noteq> S \<and> c \<noteq> S \<and> x \<noteq> S \<and>
    asked_by V good S c b (s\<lparr>network := n\<rparr>) \<and> (\<forall>y. owner V n y = Some ctx \<longrightarrow> y = c)"
proof -
  obtain ctx n1 where 1: "zmq_ctx_new (beside Z handle m) (0, s) = (Some ctx, (Suc 0, s\<lparr>network := n1\<rparr>))"
    and w1: "waiting V good S (s\<lparr>network := n1\<rparr>)" and ctx: "ctx \<noteq> S" and o1: "ctx \<notin> ran (owner V n1)"
    using live_context [OF ok live w] by blast
  obtain c n2 where 2: "zmq_socket (beside Z handle m) ctx ZMQ_REQ (Suc 0, s\<lparr>network := n1\<rparr>) =
      (Some c, (Suc (Suc 0), s\<lparr>network := n2\<rparr>))"
    and w2: "waiting V good S (s\<lparr>network := n2\<rparr>)" and c: "c \<noteq> S" and i2: "sock V n2 c = Some Idle"
    and o2: "owner V n2 = (owner V n1)(c \<mapsto> ctx)"
    using live_socket [OF ok live w1] by fastforce
  obtain n3 where 3: "zmq_connect (beside Z handle m) c ep (Suc (Suc 0), s\<lparr>network := n2\<rparr>) =
      (0, (Suc (Suc (Suc 0)), s\<lparr>network := n3\<rparr>))"
    and w3: "waiting V good S (s\<lparr>network := n3\<rparr>)" and i3: "sock V n3 c = Some Idle"
    and o3: "owner V n3 = owner V n2"
    using live_connect [OF ok live w2 e] i2 by fastforce
  obtain x n4 where 4: "zmq_msg_init_size (beside Z handle m) (length b) (Suc (Suc (Suc 0)), s\<lparr>network := n3\<rparr>) =
      ((0, x), (Suc (Suc (Suc (Suc 0))), s\<lparr>network := n4\<rparr>))"
    and w4: "waiting V good S (s\<lparr>network := n4\<rparr>)" and i4: "sock V n4 c = Some Idle" and x: "x \<noteq> S"
    and o4: "owner V n4 = owner V n3" and x4: "x \<in> objects V n4" "zmq_msg_size Z x n4 = length b"
    using live_buffer [OF ok live w3] i3 by fastforce
  obtain n5 where 5: "zmq_msg_fill (beside Z handle m) x b (Suc (Suc (Suc (Suc 0))), s\<lparr>network := n4\<rparr>) =
      (Suc (Suc (Suc (Suc (Suc 0)))), s\<lparr>network := n5\<rparr>)"
    and w5: "waiting V good S (s\<lparr>network := n5\<rparr>)" and i5: "sock V n5 c = Some Idle"
    and o5: "owner V n5 = owner V n4" and x5: "x \<in> objects V n5" "zmq_msg_data Z x n5 = b"
    using live_fill [OF ok live w4] i4 x4 by fastforce
  obtain i n6 where 6: "zmq_msg_send (beside Z handle m) x c (Suc (Suc (Suc (Suc (Suc 0)))), s\<lparr>network := n5\<rparr>) =
      (i, (Suc (Suc (Suc (Suc (Suc (Suc 0))))), s\<lparr>network := n6\<rparr>))" and i: "i \<noteq> - 1"
    and a: "asked_by V good S c b (s\<lparr>network := n6\<rparr>)" and o6: "owner V n6 = owner V n5"
    using live_send [OF ok live w5] i5 x5 by fastforce
  have "\<forall>y. owner V n6 y = Some ctx \<longrightarrow> y = c" using o1 o2 o3 o4 o5 o6 by (auto simp: ran_def)
  with 1 2 3 4 5 6 a ctx c x i show ?thesis by (simp add: eval_nat_numeral) blast
qed

text \<open>The second half: the reply is received.\<close>

lemma client_gets_reply:
  assumes ok: "wires_ok Z V" and live: "link_live Z V good eps" and w: "waiting V good S s"
    and a: "sock V (network s) c = Some (Answered r)"
    and p: "zmq_poll (beside Z handle m) c (sint (cl_timeout cl * word_of_int (ZMQ_POLL_MSEC Z))) ks =
      ((e, True), (k, s))" and e: "e \<noteq> - 1" and r: "r \<noteq> []"
  shows "\<exists>k' n. receive_reply (beside Z handle m) cl c ks = (Some \<lparr>msg_data = r\<rparr>, (k', s\<lparr>network := n\<rparr>)) \<and>
    waiting V good S (s\<lparr>network := n\<rparr>) \<and> owner V n = owner V (network s)"
proof -
  obtain y n1 where 1: "zmq_msg_init (beside Z handle m) (k, s) = ((0, y), (Suc k, s\<lparr>network := n1\<rparr>))"
    and w1: "waiting V good S (s\<lparr>network := n1\<rparr>)" and a1: "sock V n1 c = Some (Answered r)" and y: "y \<noteq> S"
    and o1: "owner V n1 = owner V (network s)"
    using live_init [OF ok live w] a by fastforce
  obtain e2 n2 where 2: "zmq_msg_recv (beside Z handle m) y c (Suc k, s\<lparr>network := n1\<rparr>) =
      (e2, (Suc (Suc k), s\<lparr>network := n2\<rparr>))" and e2: "e2 \<noteq> - 1"
    and w2: "waiting V good S (s\<lparr>network := n2\<rparr>)" and d: "zmq_msg_data Z y n2 = r" "zmq_msg_size Z y n2 = length r"
    and o2: "owner V n2 = owner V n1"
    using live_receive [OF ok live w1] a1 by fastforce
  obtain n3 where 3: "zmq_msg_close (beside Z handle m) y (Suc (Suc k), s\<lparr>network := n2\<rparr>) =
      (Suc (Suc (Suc k)), s\<lparr>network := n3\<rparr>)" and w3: "waiting V good S (s\<lparr>network := n3\<rparr>)"
    and o3: "owner V n3 = owner V n2"
    using live_release(1) [OF ok live w2 y] by fastforce
  show ?thesis
    using p e 1 2 e2 d 3 w3 r o1 o2 o3 by (auto simp: receive_reply_def Let_def simp del: alongside_calls(5-8))
qed

lemma client_out_waiting:
  assumes ok: "wires_ok Z V" and live: "link_live Z V good eps" and w: "waiting V good S s"
    and "c \<noteq> S" and "ctx \<noteq> S" and o: "\<forall>y. owner V (network s) y = Some ctx \<longrightarrow> y = c"
  shows "\<exists>k' n. client_out (beside Z handle m) ctx c r (k, s) = Returns r (k', s\<lparr>network := n\<rparr>) \<and>
    waiting V good S (s\<lparr>network := n\<rparr>)"
proof -
  obtain n1 where 1: "zmq_close (beside Z handle m) c (k, s) = (Suc k, s\<lparr>network := n1\<rparr>)"
    and w1: "waiting V good S (s\<lparr>network := n1\<rparr>)" and "owner V n1 = (owner V (network s))(c := None)"
    using live_release(2) [OF ok live w assms(4)] by blast
  with o have "ctx \<notin> ran (owner V (network (s\<lparr>network := n1\<rparr>)))" by (auto simp: ran_def)
  from live_release(3) [OF ok live w1 assms(5) this] obtain n2
    where 2: "zmq_ctx_destroy (beside Z handle m) ctx (Suc k, s\<lparr>network := n1\<rparr>) =
        Some (0, (Suc (Suc k), s\<lparr>network := n2\<rparr>))"
      and w2: "waiting V good S (s\<lparr>network := n2\<rparr>)" by fastforce
  from 1 2 have "client_out (beside Z handle m) ctx c r (k, s) =
      Returns r (Suc (Suc k), s\<lparr>network := n2\<rparr>)"
    by (simp add: client_out_def destroy_context_def del: alongside_calls)
  with w2 show ?thesis by blast
qed

text \<open>
  A call of the client: the server takes a turn while the client releases its request or polls, and
  any number of turns at any other time.
\<close>

lemma call_answered:
  assumes ok: "wires_ok Z V" and live: "link_live Z V good eps" and w: "waiting V good S s"
    and e: "Client_makeEndpointPath cl \<in> eps" and m: "0 < m 6 + m 7"
    and h: "handle msg (databases s) = Some (Some reply, d')" and r: "msg_data reply \<noteq> []"
  shows "\<exists>k' s'. Client_sendMessage (beside Z handle m) cl msg (0, s) = Returns (Some reply) (k', s') \<and>
    waiting V good S s' \<and> databases s' = d'"
proof -
  let ?Z = "beside Z handle m" and ?t = "sint (cl_timeout cl * word_of_int (ZMQ_POLL_MSEC Z))"
  obtain ctx p1 c p2 p3 x p4 i n where c: "zmq_ctx_new ?Z (0, s) = (Some ctx, p1)"
    "zmq_socket ?Z ctx ZMQ_REQ p1 = (Some c, p2)"
    "zmq_connect ?Z c (Client_makeEndpointPath cl) p2 = (0, p3)"
    "zmq_msg_init_size ?Z (length (msg_data msg)) p3 = ((0, x), p4)"
    "zmq_msg_send ?Z x c (zmq_msg_fill ?Z x (msg_data msg) p4) = (i, (6, s\<lparr>network := n\<rparr>))"
    and i: "i \<noteq> - 1" and S: "ctx \<noteq> S" "c \<noteq> S" "x \<noteq> S"
    and a: "asked_by V good S c (msg_data msg) (s\<lparr>network := n\<rparr>)"
    and o: "\<forall>y. owner V n y = Some ctx \<longrightarrow> y = c"
    using client_asks [OF ok live w e, of handle m "msg_data msg"] by blast
  have h': "handle \<lparr>msg_data = msg_data msg\<rparr> (databases (s\<lparr>network := n\<rparr>)) = Some (Some reply, d')"
    using h by (cases msg) simp
  have m': "0 < m 6 + m (Suc 6)" using m by simp
  obtain e1 n1 where p: "zmq_poll ?Z c ?t (zmq_msg_close ?Z x (6, s\<lparr>network := n\<rparr>)) =
      ((e1, True), (8, s\<lparr>databases := d', network := n1\<rparr>))" and e1: "e1 \<noteq> - 1"
    and w1: "waiting V good S (s\<lparr>databases := d', network := n1\<rparr>)"
    and a1: "sock V n1 c = Some (Answered (msg_data reply))" and o1: "owner V n1 = owner V n"
    using live_close_poll [where handle = handle and m = m and k = 6 and z = ?t, OF ok live a h' m' S(3)]
    by auto
  obtain k2 n2 where q: "receive_reply ?Z cl c (zmq_msg_close ?Z x (6, s\<lparr>network := n\<rparr>)) =
      (Some reply, (k2, s\<lparr>databases := d', network := n2\<rparr>))"
    and w2: "waiting V good S (s\<lparr>databases := d', network := n2\<rparr>)" and o2: "owner V n2 = owner V n1"
    using client_gets_reply [OF ok live w1 _ p e1 r] a1 by auto
  have o3: "\<forall>y. owner V (network (s\<lparr>databases := d', network := n2\<rparr>)) y = Some ctx \<longrightarrow> y = c"
    using o o1 o2 by simp
  obtain k3 n3 where "client_out ?Z ctx c (Some reply) (k2, s\<lparr>databases := d', network := n2\<rparr>) =
      Returns (Some reply) (k3, s\<lparr>databases := d', network := n3\<rparr>)"
    and "waiting V good S (s\<lparr>databases := d', network := n3\<rparr>)"
    using client_out_waiting [where handle = handle and m = m and k = k2 and r = "Some reply", OF ok live w2 S(2,1) o3] by auto
  with c i q show ?thesis
    by (simp add: Client_sendMessage_def Message_length_def Message_data_def del: alongside_calls)
qed

end
