(* ===== verification/Memory_Link.thy ===== *)
theory Memory_Link
  imports Memory_Net Live_Call
begin

text \<open>
  An instance of ZeroMQ in memory that carries requests and replies between the \<open>REQ\<close> and \<open>REP\<close>
  sockets of its users.  It meets the laws of \<open>wires_ok\<close> and \<open>link_live\<close>; over it the command line client adds a
  block to the chain of \<open>Example_Run\<close>.
\<close>

record switch =
  sw_alive :: "nat set"
  sw_next :: nat
  sw_sock :: "nat \<Rightarrow> nat socket_state option"
  sw_text :: "nat \<Rightarrow> bytes"
  sw_owners :: "(nat \<times> nat) list"

definition empty_switch :: switch where
  "empty_switch = \<lparr>sw_alive = {}, sw_next = 0, sw_sock = (\<lambda>_. None), sw_text = (\<lambda>_. []),
     sw_owners = []\<rparr>"

text \<open>Whether some socket belongs to the context \<open>c\<close>.\<close>

definition sw_owned :: "nat \<Rightarrow> switch \<Rightarrow> bool" where
  "sw_owned c n \<longleftrightarrow> list_ex (\<lambda>p. map_of (sw_owners n) (fst p) = Some c) (sw_owners n)"

text \<open>
  Objects get numbers that no living object and no context of a socket has; the state with a wrong
  counter refuses.
\<close>

definition sw_new :: "(nat \<Rightarrow> switch \<Rightarrow> switch) \<Rightarrow> switch \<Rightarrow> nat option \<times> switch" where
  "sw_new f n =
     (if sw_next n \<in> sw_alive n \<or> sw_owned (sw_next n) n then (None, n)
      else (Some (sw_next n),
            f (sw_next n) (n\<lparr>sw_alive := insert (sw_next n) (sw_alive n), sw_next := Suc (sw_next n)\<rparr>)))"

definition sw_msg :: "bytes \<Rightarrow> switch \<Rightarrow> (int \<times> nat) \<times> switch" where
  "sw_msg b n =
     (case sw_new (\<lambda>x n. n\<lparr>sw_text := (sw_text n)(x := b)\<rparr>) n of
        (None, n) \<Rightarrow> ((- 1, 0), n)
      | (Some x, n) \<Rightarrow> ((0, x), n))"

definition sw_release :: "nat \<Rightarrow> switch \<Rightarrow> switch" where
  "sw_release x n = n\<lparr>sw_alive := sw_alive n - {x}\<rparr>"

text \<open>A context with an open socket is not destroyed before the socket is closed.\<close>

definition sw_destroy :: "nat \<Rightarrow> switch \<Rightarrow> (int \<times> switch) option" where
  "sw_destroy c n = (if sw_owned c n then None else Some (0, sw_release c n))"

definition sw_socket :: "nat \<Rightarrow> socket_type \<Rightarrow> switch \<Rightarrow> nat option \<times> switch" where
  "sw_socket c t =
     sw_new (\<lambda>x n. n\<lparr>sw_next := max (sw_next n) (Suc c), sw_owners := (x, c) # sw_owners n,
       sw_sock := (sw_sock n)(x \<mapsto> (case t of ZMQ_REQ \<Rightarrow> Idle | ZMQ_REP \<Rightarrow> Ready))\<rparr>)"

definition sw_close :: "nat \<Rightarrow> switch \<Rightarrow> switch" where
  "sw_close x n = n\<lparr>sw_alive := sw_alive n - {x},
     sw_owners := filter (\<lambda>p. fst p \<noteq> x) (sw_owners n),
     sw_sock := (\<lambda>y. if y = x then None
                     else if sw_sock n y = Some (Serves (Some x)) then Some (Serves None)
                     else sw_sock n y)\<rparr>"

text \<open>The first socket below the counter that has asked.\<close>

fun asked_with :: "nat socket_state option \<Rightarrow> bytes option" where
  "asked_with (Some (Asked b)) = Some b"
| "asked_with _ = None"

definition sw_waiting :: "switch \<Rightarrow> (nat \<times> bytes) option" where
  "sw_waiting n =
     (case List.find (\<lambda>c. asked_with (sw_sock n c) \<noteq> None) [0..<sw_next n] of
        None \<Rightarrow> None
      | Some c \<Rightarrow> map_option (Pair c) (asked_with (sw_sock n c)))"

definition sw_ready :: "nat \<Rightarrow> switch \<Rightarrow> bool" where
  "sw_ready s n =
     (case sw_sock n s of
        Some Ready \<Rightarrow> sw_waiting n \<noteq> None
      | Some (Answered b) \<Rightarrow> True
      | _ \<Rightarrow> False)"

definition sw_recv :: "nat \<Rightarrow> nat \<Rightarrow> switch \<Rightarrow> int \<times> switch" where
  "sw_recv x s n =
     (case sw_sock n s of
        Some Ready \<Rightarrow>
          (case sw_waiting n of
             None \<Rightarrow> (- 1, n)
           | Some (c, b) \<Rightarrow>
               (int (length b), n\<lparr>sw_text := (sw_text n)(x := b),
                  sw_sock := (sw_sock n)(s \<mapsto> Serves (Some c), c \<mapsto> Taken)\<rparr>))
      | Some (Answered b) \<Rightarrow>
          (int (length b), n\<lparr>sw_text := (sw_text n)(x := b), sw_sock := (sw_sock n)(s \<mapsto> Idle)\<rparr>)
      | _ \<Rightarrow> (- 1, n))"

definition sw_send :: "nat \<Rightarrow> nat \<Rightarrow> switch \<Rightarrow> int \<times> switch" where
  "sw_send x s n =
     (case sw_sock n s of
        Some Idle \<Rightarrow> (0, n\<lparr>sw_sock := (sw_sock n)(s \<mapsto> Asked (sw_text n x))\<rparr>)
      | Some (Serves (Some c)) \<Rightarrow>
          (0, n\<lparr>sw_sock := (if sw_sock n c = Some Taken
                           then (sw_sock n)(s \<mapsto> Ready, c \<mapsto> Answered (sw_text n x))
                           else (sw_sock n)(s \<mapsto> Ready))\<rparr>)
      | Some (Serves None) \<Rightarrow> (0, n\<lparr>sw_sock := (sw_sock n)(s \<mapsto> Ready)\<rparr>)
      | _ \<Rightarrow> (- 1, n))"

definition link_zmq :: "(switch, nat) zmq_lib" where
  "link_zmq =
     \<lparr>ZMQ_POLL_MSEC = 1,
      zmq_ctx_new = sw_new (\<lambda>_ n. n),
      zmq_ctx_destroy = sw_destroy,
      zmq_socket = sw_socket,
      zmq_close = sw_close,
      zmq_bind = (\<lambda>s e n. (0, n)),
      zmq_connect = (\<lambda>s e n. (0, n)),
      zmq_poll = (\<lambda>s t n. ((0, sw_ready s n), n)),
      zmq_msg_init = sw_msg [],
      zmq_msg_init_size = (\<lambda>k. sw_msg (replicate k (CHR 0x00))),
      zmq_msg_fill = (\<lambda>x b n. n\<lparr>sw_text := (sw_text n)(x := b)\<rparr>),
      zmq_msg_recv = sw_recv,
      zmq_msg_send = sw_send,
      zmq_msg_data = (\<lambda>x n. sw_text n x),
      zmq_msg_size = (\<lambda>x n. length (sw_text n x)),
      zmq_msg_close = sw_release\<rparr>"

definition link_switch :: "(switch, nat) link_view" where
  "link_switch = \<lparr>objects = sw_alive, sock = sw_sock,
     owner = (\<lambda>n. map_of (sw_owners n))\<rparr>"

section \<open>The laws\<close>

lemma sw_new_makes: "makes sw_alive n (fst (sw_new f n)) (snd (sw_new f n))"
  if "\<And>x n. sw_alive (f x n) = sw_alive n"
  using that by (auto simp: sw_new_def makes_def)

lemma sw_owned_iff: "sw_owned c n \<longleftrightarrow> c \<in> ran (map_of (sw_owners n))"
  using map_of_SomeD [of "sw_owners n" _ c]
  by (auto simp: sw_owned_def list_ex_iff ran_def) (metis fst_conv)

lemma sw_close_owners: "map_of (filter (\<lambda>p. fst p \<noteq> x) l) = (map_of l)(x := None)"
  by (induction l) (auto simp: fun_eq_iff)

lemma sw_msg_result:
  "sw_msg b n = (if sw_next n \<in> sw_alive n \<or> sw_owned (sw_next n) n then ((- 1, 0), n)
     else ((0, sw_next n), n\<lparr>sw_alive := insert (sw_next n) (sw_alive n), sw_next := Suc (sw_next n),
       sw_text := (sw_text n)(sw_next n := b)\<rparr>))"
  by (simp add: sw_msg_def sw_new_def)

lemma sw_waiting_asked: "sw_waiting n = Some (c, b) \<Longrightarrow> sw_sock n c = Some (Asked b)"
  by (auto simp: sw_waiting_def split: option.splits elim: asked_with.elims)

lemma sw_recv_frame:
  "sw_alive (snd (sw_recv x s n)) = sw_alive n" "y \<noteq> x \<Longrightarrow> sw_text (snd (sw_recv x s n)) y = sw_text n y"
  "sw_alive (snd (sw_send x s n)) = sw_alive n" "sw_text (snd (sw_send x s n)) = sw_text n"
  by (auto simp: sw_recv_def sw_send_def Let_def split: option.split socket_state.split)

lemma sw_recv_owners:
  "sw_owners (snd (sw_recv x s n)) = sw_owners n" "sw_owners (snd (sw_send x s n)) = sw_owners n"
  by (auto simp: sw_recv_def sw_send_def Let_def split: option.split socket_state.split)

lemma link_zmq_objects: "zmq_ok link_zmq sw_alive"
proof -
  have "zmq_objects_ok link_zmq sw_alive"
    by (auto simp: zmq_objects_ok_def link_zmq_def sw_new_makes sw_msg_result sw_release_def
        sw_close_def sw_destroy_def sw_socket_def split: if_splits)
  moreover have "zmq_frame_ok link_zmq sw_alive"
    by (simp add: zmq_frame_ok_def link_zmq_def sw_recv_frame)
  ultimately show ?thesis by (simp add: zmq_ok_def)
qed

lemma link_zmq_frame: "link_frame link_zmq link_switch"
  by (auto simp: link_frame_def link_zmq_def link_switch_def quiet_def keeps_buffers_def
      msg_buffer_def sw_msg_result sw_new_def sw_release_def sw_close_def sw_destroy_def sw_socket_def
      sw_recv_frame split: if_splits)

lemma link_zmq_receives:
  "sw_recv x s n = (e, n') \<Longrightarrow> e \<noteq> - 1 \<Longrightarrow> receives link_switch s (sw_text n' x) n n'"
  by (auto simp: sw_recv_def receives_def link_switch_def Let_def dest!: sw_waiting_asked
      split: option.splits socket_state.splits)

lemma link_zmq_sends:
  "sw_send x s n = (e, n') \<Longrightarrow> e \<noteq> - 1 \<Longrightarrow> sends link_switch s (sw_text n x) n n'"
  by (auto simp: sw_send_def sends_def link_switch_def split: option.splits socket_state.splits if_splits)

lemma link_zmq_fails:
  "sw_recv x s n = (- 1, n') \<Longrightarrow> sw_sock n' = sw_sock n"
  "sw_send x s n = (- 1, n') \<Longrightarrow> sw_sock n' = sw_sock n"
  by (auto simp: sw_recv_def sw_send_def Let_def split: option.splits socket_state.splits)

lemma link_zmq_wires_ok: "wires_ok link_zmq link_switch"
proof -
  have "link_rules link_zmq link_switch"
    using link_zmq_receives link_zmq_sends link_zmq_fails
    by (auto simp: link_rules_def link_zmq_def link_switch_def opens_def closes_def msg_buffer_def
        sw_new_def sw_msg_result sw_close_def sw_socket_def split: if_splits)
  with link_zmq_objects link_zmq_frame show ?thesis by (simp add: wires_ok_def link_switch_def)
qed


section \<open>The network works\<close>

definition sw_good :: "switch \<Rightarrow> bool" where
  "sw_good n \<longleftrightarrow>
     (\<forall>x. x \<in> sw_alive n \<longrightarrow> x < sw_next n) \<and> (\<forall>x. sw_sock n x \<noteq> None \<longrightarrow> x < sw_next n) \<and>
     (\<forall>p \<in> set (sw_owners n). snd p < sw_next n)"

lemma sw_waiting_some:
  assumes "sw_good n" and "sw_sock n c = Some (Asked b)"
  shows "\<exists>a b. sw_waiting n = Some (a, b)"
proof -
  have "c < sw_next n" using assms by (simp add: sw_good_def)
  with assms(2) have "List.find (\<lambda>c. asked_with (sw_sock n c) \<noteq> None) [0..<sw_next n] \<noteq> None"
    by (auto simp: find_None_iff)
  then show ?thesis
    by (auto simp: sw_waiting_def dest!: find_Some_iff [THEN iffD1] split: option.split)
qed

lemma sw_good_keeps:
  assumes "sw_good n"
  shows "sw_good (snd (sw_new (\<lambda>_ n. n) n))" and "sw_good (snd (sw_msg b n))"
    and "sw_good (snd (sw_socket c t n))" and "sw_good (sw_release x n)"
    and "\<forall>e n'. sw_destroy c n = Some (e, n') \<longrightarrow> sw_good n'" and "sw_good (sw_close x n)"
    and "sw_good (n\<lparr>sw_text := f\<rparr>)"
  using assms
  by (auto simp: sw_good_def sw_new_def sw_msg_result sw_release_def sw_close_def sw_destroy_def
      sw_socket_def less_Suc_eq less_max_iff_disj split: if_splits)

lemma sw_good_traffic:
  assumes "sw_good n"
  shows "sw_good (snd (sw_recv x s n))" and "sw_good (snd (sw_send x s n))"
  using assms
  by (auto simp: sw_good_def sw_recv_def sw_send_def Let_def dest!: sw_waiting_asked
      split: option.splits socket_state.splits if_splits)

lemma sw_ready_readable:
  "sw_good n \<Longrightarrow> sw_ready s n \<longleftrightarrow> readable link_switch n s"
  by (auto simp: sw_ready_def readable_def link_switch_def dest: sw_waiting_some
      dest!: sw_waiting_asked split: option.split socket_state.split)

lemma sw_recv_works:
  assumes "sw_good n" and "readable link_switch n s"
  shows "fst (sw_recv x s n) \<noteq> - 1" and "sw_sock (snd (sw_recv x s n)) s \<noteq> Some (Serves None)"
  using assms(2) sw_waiting_some [OF assms(1)]
  by (auto simp: readable_def link_switch_def sw_recv_def dest!: sw_waiting_asked split: option.split if_splits)

lemma link_zmq_live: "link_live link_zmq link_switch sw_good UNIV"
proof -
  have new: "sw_next n \<notin> sw_alive n" "\<not> sw_owned (sw_next n) n" if "sw_good n" for n
    using that by (auto simp: sw_good_def sw_owned_iff ran_def dest!: map_of_SomeD)
  have "link_steady link_zmq sw_good"
    using sw_good_keeps sw_good_traffic by (simp add: link_steady_def link_zmq_def)
  moreover have "link_owner link_zmq link_switch"
    by (auto simp: link_owner_def link_zmq_def link_switch_def sw_new_def sw_socket_def sw_msg_result
        sw_release_def sw_close_def sw_close_owners sw_owned_iff sw_recv_owners split: if_splits)
  moreover have "link_serves link_zmq link_switch sw_good UNIV"
    using new sw_recv_works
    by (auto simp: link_serves_def link_zmq_def link_switch_def sw_new_def sw_msg_result
        sw_socket_def sw_destroy_def
        sw_owned_iff [symmetric] sw_ready_readable [unfolded link_switch_def] sw_send_def)
  ultimately show ?thesis by (simp add: link_live_def)
qed

section \<open>A call of the client\<close>

text \<open>The server takes one turn of its loop just before the client polls.\<close>

definition at_poll :: "nat \<Rightarrow> nat" where
  "at_poll k = (if k = 7 then 1 else 0)"

text \<open>The server waits at socket 1.\<close>

definition open_line :: "'d \<Rightarrow> ('d, switch, nat) server_state" where
  "open_line d = Server_start link_zmq (ChainDB_server ex_service) d empty_switch"

abbreviation line_free :: "('d, switch, nat) server_state \<Rightarrow> bool" where
  "line_free \<equiv> waiting link_switch sw_good 1"

lemma databases_open_line [simp]: "databases (open_line d) = d"
  by (simp add: open_line_def Server_start_def split: prod.split)

lemma open_line_free: "line_free (open_line d)"
  unfolding open_line_def
  by (rule start_waiting [OF link_zmq_wires_ok link_zmq_live, where ctx = 0])
    (simp_all add: Server_start_def process_start_def link_zmq_def sw_new_def empty_switch_def
      sw_socket_def sw_owned_def link_switch_def sw_good_def)

lemma called:
  assumes "line_free s" and "handle \<lparr>msg_data = b\<rparr> (databases s) = Some (Some resp, d')"
    and "msg_data resp \<noteq> []"
  obtains k s' where "Client_sendMessage (beside link_zmq handle at_poll) cl \<lparr>msg_data = b\<rparr> (0, s) =
    Returns (Some resp) (k, s')" and "line_free s'" and "databases s' = d'"
  using call_answered [where handle = handle and msg = "\<lparr>msg_data = b\<rparr>" and m = at_poll and cl = cl,
      OF link_zmq_wires_ok link_zmq_live assms(1) UNIV_I _ assms(2,3)]
  by (auto simp: at_poll_def)

text \<open>The same next to a server that keeps a record.\<close>

lemma called_recorded:
  assumes "line_free s" and "databases s = (d, log)"
    and "handle \<lparr>msg_data = b\<rparr> d = Some (Some resp, d')" and "msg_data resp \<noteq> []"
  obtains k s' where "Client_sendMessage (beside link_zmq (recorded handle) at_poll) cl \<lparr>msg_data = b\<rparr>
    (0, s) = Returns (Some resp) (k, s')" and "line_free s'" and "databases s' = (d', log @ [\<lparr>msg_data = b\<rparr>])"
  by (rule called [of s "recorded handle" b resp "(d', log @ [\<lparr>msg_data = b\<rparr>])"])
    (use assms in \<open>auto simp: recorded_def\<close>)

lemma add_reply_nonempty: "msg_data add_reply \<noteq> []"
  by (simp add: add_reply_def enc_response_def enc_via_def success_response_def)

text \<open>A request for all blocks of the chain, and its answer once the chain has grown.\<close>

definition read_all :: request where
  "read_all = request_default\<lparr>req_get_blocks := Some \<lparr>cr_chain_id = 1\<rparr>\<rparr>"

definition all_response :: response where
  "all_response = success_response\<lparr>resp_get_blocks := Some [setBlockData ex_block]\<rparr>"

definition all_reply :: message where
  "all_reply = \<lparr>msg_data = enc_response all_response\<rparr>"

lemma handle_read_all:
  obtains w' where "handleMessage mem_env open_handler \<lparr>msg_data = enc_request read_all\<rparr> grown_world =
    Some (Some all_reply, w')"
proof -
  obtain m where "disk mem_view grown_world (makeStoragePath ex_manager 1) = Some m"
    and "ledger mem_pb m = Some (ex_header\<lparr>hdr_index := 1\<rparr>, [ex_block])"
    using grown_ledger by (auto simp: chain_ledger_def bind_eq_Some_conv)
  then obtain w' where "Manager_getBlocks mem_env ex_manager 1 [] grown_world = Some (True, [ex_block], w')"
    using Chain_getBlocks_live [OF mem_db_ok mem_db_live, of "\<lparr>chain_path = makeStoragePath ex_manager 1\<rparr>"
        grown_world m mem_pb "ex_header\<lparr>hdr_index := 1\<rparr>" "[ex_block]" "[]"]
    by (auto simp: Manager_getBlocks_def)
  moreover have "request_Parse mem_pb (enc_request read_all) = Some read_all"
    using parse_message_of [of read_all] by (simp add: message_of_def)
  ultimately have "handleMessage mem_env open_handler \<lparr>msg_data = enc_request read_all\<rparr> grown_world =
      Some (Some all_reply, w')"
    by (simp add: handleMessage_def Message_length_def Message_data_def dispatch_def read_all_def
        request_default_def handleGetBlocksRequest_def makeResponse_def mem_pb_def all_reply_def
        all_response_def add_blocks_def success_response_def status_only_def response_default_def)
  with that show thesis .
qed

lemma all_reply_nonempty: "msg_data all_reply \<noteq> []"
  by (simp add: all_reply_def all_response_def enc_response_def enc_via_def success_response_def)

end
