(* ===== verification/Network_Properties.thy ===== *)
theory Network_Properties
  imports Service_Properties Memory_Link
begin

text \<open>
  The properties of the conversation between clients and the server: which replies are sent, what
  happens when one cannot be sent, and what a run of the client makes the service do.
\<close>

section \<open>Replies\<close>

text \<open>
  C15: every message is answered once, in order.  Over any run of the server, with whatever network
  errors, what it has sent are the handler's replies to the logged messages in their order, each
  exactly once; only the reply to the last message may be missing, and then the server will handle
  no further message.
\<close>

theorem replies_in_order:
  assumes "traffic_ok Z T" and "server_runs Z handle (Server_start Z srv d n) log s"
  shows "\<exists>answered rest. replies handle log d = map Some answered @ rest \<and> length rest \<le> 1 \<and>
    sent T (network s) = sent T n @ map msg_data answered \<and>
    (rest = [] \<or> (\<forall>log' s'. server_runs Z handle s log' s' \<longrightarrow> log' = []))"
proof -
  let ?s0 = "Server_start Z srv d n"
  have "answered_to T n [] ?s0"
    by (simp add: answered_to_def Server_start_traffic [OF assms(1)])
  from server_runs_answers [OF assms(2,1) this]
  have "answered_to T n (replies handle log d) s" by simp
  then obtain answered rest where "replies handle log d = map Some answered @ rest"
    "length rest \<le> 1" "sent T (network s) = sent T n @ map msg_data answered"
    and r: "rest = [] \<or> deaf T s"
    unfolding answered_to_def by blast
  moreover from r have "rest = [] \<or> (\<forall>log' s'. server_runs Z handle s log' s' \<longrightarrow> log' = [])"
    using deaf_runs [OF _ assms(1), of handle s] by blast
  ultimately show ?thesis by blast
qed

lemma replies_in_order_witness:
  "sent net_traffic (network served_state) = [msg_data add_reply]"
proof -
  have r: "replies (handleMessage mem_env open_handler) [message_of add_first] created_world =
      [Some add_reply]" by (simp add: handle_add_first)
  obtain answered rest where "map Some answered @ rest = [Some add_reply]"
    and s: "sent net_traffic (network served_state) = sent net_traffic waiting_net @ map msg_data answered"
    using replies_in_order [OF mem_traffic_ok served [unfolded started_state_def]] unfolding r by metis
  then consider "answered = [add_reply]" | "answered = []" by (cases answered) auto
  then show ?thesis
  proof cases
    case 1
    with s show ?thesis by (simp add: net_traffic_def waiting_net_def empty_net_def)
  next
    case 2
    with s served_outbox show ?thesis
      by (simp add: net_traffic_def waiting_net_def empty_net_def served_state_def)
  qed
qed

text \<open>
  C32: a reply that cannot be made silences the service.  When the handler has no reply to a message
  (its response is too large to serialise), nothing is sent, the thread returns to the test of its
  loop, and from then on the server neither handles nor answers anything, although nothing has ended
  its thread.
\<close>

theorem lost_reply_deafens:
  assumes "traffic_ok Z T" and "phase s = Turning ctx socket"
    and "process_turn Z handle socket (databases s) (network s) = Some (go, [req], d, n)"
    and "handle req (databases s) = Some (None, d)"
  shows "\<exists>s'. server_step Z handle s [req] s' \<and> phase s' = Serving ctx socket \<and>
    isStopped s' = isStopped s \<and>
    (\<forall>log s''. server_runs Z handle s' log s'' \<longrightarrow>
       log = [] \<and> databases s'' = databases s' \<and> sent T (network s'') = sent T (network s))"
proof -
  let ?s' = "s\<lparr>phase := Serving ctx socket, databases := d, network := n\<rparr>"
  have go: "go = True"
    using assms(3,4) by (auto simp: process_turn_def Let_def split: prod.splits if_splits option.splits)
  have "pending T n socket \<and> sent T n = sent T (network s)"
    using assms(3) by (rule process_turn_traffic [OF assms(1)]) (insert assms(4), auto)
  then have "deaf T ?s'" and q: "sent T (network ?s') = sent T (network s)"
    by (simp_all add: deaf_def)
  from deaf_runs [OF _ assms(1) this(1), of handle] q
  have "log = [] \<and> databases s'' = databases ?s' \<and> sent T (network s'') = sent T (network s)"
    if "server_runs Z handle ?s' log s''" for log s''
    using that by auto
  moreover have "server_step Z handle s [req] ?s'"
    by (rule server_step.turn [OF assms(2) assms(3) [unfolded go]])
  moreover have "phase ?s' = Serving ctx socket" "isStopped ?s' = isStopped s" by simp_all
  ultimately show ?thesis by blast
qed

text \<open>An environment in which no response serialises.\<close>

definition mute_env :: "(world, nat, bytes, private_key, hash \<times> private_key) env" where
  "mute_env = mem_env\<lparr>env_pb := mem_pb\<lparr>response_Serialize := \<lambda>_. None\<rparr>\<rparr>"

definition ping_waiting :: net where
  "ping_waiting = empty_net\<lparr>inbox := [enc_request ping_request, enc_request ping_request]\<rparr>"

lemma handle_mute:
  "handleMessage mute_env open_handler (message_of ping_request) w = Some (None, w)"
  using parse_message_of [of ping_request]
  by (simp add: handleMessage_def Message_length_def Message_data_def dispatch_def mute_env_def
      ping_request_def request_default_def handlePingRequest_def makeStatus_def)

lemma lost_reply_deafens_witness:
  "\<exists>s s'. server_runs mem_zmq (handleMessage mute_env open_handler)
      (Server_start mem_zmq (ChainDB_server ex_service) created_world ping_waiting) [] s \<and>
    server_step mem_zmq (handleMessage mute_env open_handler) s
      [message_of ping_request] s' \<and> inbox (network s') = [enc_request ping_request] \<and>
    (\<forall>log s''. server_runs mem_zmq (handleMessage mute_env open_handler) s' log s'' \<longrightarrow> log = [])"
proof -
  let ?h = "handleMessage mute_env open_handler"
  let ?s = "Server_start mem_zmq (ChainDB_server ex_service) created_world ping_waiting"
  have s: "?s = \<lparr>isStopped = True, phase = Serving 0 1, databases = created_world,
     network = ping_waiting\<lparr>alive := [True, True]\<rparr>\<rparr>"
    by (simp add: Server_start_def process_start_def mem_zmq_def net_new_def ping_waiting_def
        empty_net_def)
  have m: "Message_new (enc_request ping_request) (length (enc_request ping_request)) =
      message_of ping_request" by (simp add: message_of_def)
  let ?t = "?s\<lparr>phase := Turning 0 1\<rparr>"
  from s have p: "phase ?t = Turning 0 1" "databases ?t = created_world"
    "network ?t = ping_waiting\<lparr>alive := [True, True]\<rparr>" by simp_all
  have "server_step mem_zmq ?h ?s [] ?t" by (rule server_step.enter) (simp_all add: s)
  from server_runs.more [OF server_runs.here this]
  have e: "server_runs mem_zmq ?h ?s [] ?t" by simp
  have "\<exists>n. process_turn mem_zmq ?h 1 created_world (ping_waiting\<lparr>alive := [True, True]\<rparr>) =
      Some (True, [message_of ping_request], created_world, n) \<and> inbox n = [enc_request ping_request]"
    by (simp add: process_turn_def mem_zmq_def net_new_def net_recv_def ping_waiting_def
        empty_net_def ZMQ_POOL_TIMEOUT_def m handle_mute net_release_def del: Message_new_whole)
  then obtain n where t: "process_turn mem_zmq ?h 1 (databases ?t) (network ?t) =
      Some (True, [message_of ping_request], created_world, n)" and i: "inbox n = [enc_request ping_request]"
    unfolding p by blast
  from lost_reply_deafens [OF mem_traffic_ok p(1) t] handle_mute [of created_world] p(2) obtain s'
    where st: "server_step mem_zmq ?h ?t [message_of ping_request] s'"
      and d: "\<forall>log s''. server_runs mem_zmq ?h s' log s'' \<longrightarrow> log = []" by fastforce
  from st have "network s' = n"
    by (cases rule: server_step.cases) (use t p in simp_all)
  with i st d e show ?thesis by blast
qed

section \<open>The client and the service\<close>

text \<open>
  What the handler does with the client's request is the command that its options name, if both
  sides have the same password.
\<close>

lemma client_command_of:
  assumes "pb_ok (env_pb E)" and "sha_live (env_sha E)" and "app_password a = hdl_password H"
    and "selected_request (env_sha E) a = Some req" and "request_Serialize (env_pb E) req = Some data"
  shows "command_of E H \<lparr>msg_data = data\<rparr> = cli_command a"
proof -
  have c: "requested req = cli_command a"
    using client_selects_command [of "env_sha E" a] assms(4) by simp
  moreover have "authorized E H req \<or> requested req = None"
    using client_requests_authorized [OF assms(2-4)] c
    by (cases "app_isPingRequest a") (auto simp: cli_command_def Let_def)
  moreover have "request_Parse (env_pb E) data = Some req" using assms(1,5) by (simp add: pb_ok_def)
  ultimately show ?thesis by (auto simp: command_of_def)
qed

lemma client_command_executed:
  assumes "pb_ok (env_pb E)" and "sha_live (env_sha E)" and "app_password a = hdl_password H"
    and "selected_request (env_sha E) a = Some req" and "request_Serialize (env_pb E) req = Some data"
  shows "map_option snd (handleMessage E H \<lparr>msg_data = data\<rparr> w) = effect_of E H (cli_command a) w"
  using client_command_of [OF assms] by (simp add: handleMessage_effect)

text \<open>
  C16: a run of the client makes the service do what its options say, at most once.  With the same
  password on both sides, the client sends nothing, and then it does not report success for a
  request, or it sends exactly one message, and the effect of that message on the databases is the
  effect of the command that the options name (the operation of the first flag that is set, on the
  chain and block numbers as \<open>size_t\<close>).  It never repeats a message, whether the run returns or hangs
  in \<open>zmq_ctx_destroy\<close>.
\<close>

theorem client_run_sends_command:
  assumes "traffic_ok Z T" and "pb_ok (env_pb E)" and "sha_live (env_sha E)"
    and "app_password a = hdl_password H"
    and "Application_run (env_sha E) (env_pb E) Z a n = Some ce"
  shows "sent T (end_state ce) = sent T n \<and>
      (\<forall>n'. ce = Returns True n' \<longrightarrow> selected_request (env_sha E) a = None) \<or>
    (\<exists>data. sent T (end_state ce) = sent T n @ [data] \<and>
       (\<forall>w. map_option snd (handleMessage E H \<lparr>msg_data = data\<rparr> w) = effect_of E H (cli_command a) w))"
proof (cases "selected_request (env_sha E) a")
  case None
  with assms(5) show ?thesis by (auto simp: Application_run_def)
next
  case (Some req)
  with assms(5) obtain cl where p: "ce = processRequest (env_pb E) Z cl req n"
    by (auto simp: Application_run_def)
  show ?thesis
  proof (cases "request_Serialize (env_pb E) req")
    case None
    with p show ?thesis by (simp add: processRequest_def)
  next
    case data: (Some data)
    let ?c = "Client_sendMessage Z cl \<lparr>msg_data = data\<rparr> n"
    have "end_state ce = end_state ?c" and "ce = Returns True n' \<Longrightarrow> \<exists>reply n1. ?c = Returns (Some reply) n1" for n'
      using p data by (auto simp: processRequest_def Let_def split: option.splits call_end.splits)
    with Client_sendMessage_traffic [OF assms(1) refl, of cl "\<lparr>msg_data = data\<rparr>" n]
      client_command_executed [OF assms(2-4) Some data] show ?thesis by auto
  qed
qed

definition ready_application :: application where
  "ready_application = Application_new
     \<lparr>app_isAddBlockRequest := True, app_data := ''first'', app_client := Some (Client_local 8888 1000)\<rparr>"

lemma client_run_sends_command_witness:
  "\<exists>data n'. Application_run mem_sha mem_pb mem_zmq ready_application empty_net = Some (Returns False n') \<and>
    outbox n' = [data] \<and>
    map_option snd (handleMessage mem_env open_handler \<lparr>msg_data = data\<rparr> created_world) =
      Some grown_world"
proof -
  have "\<exists>n'. Application_run mem_sha mem_pb mem_zmq ready_application empty_net = Some (Returns False n') \<and>
    outbox n' \<noteq> []"
    by (simp add: Application_run_def ready_application_def Application_new_def selected_request_def
        processRequest_def Client_sendMessage_def receive_reply_def client_out_def destroy_context_def mem_zmq_def
        mem_pb_def net_new_def net_release_def empty_net_def Let_def)
  then obtain n' where r: "Application_run mem_sha mem_pb mem_zmq ready_application empty_net = Some (Returns False n')"
    and o: "outbox n' \<noteq> []" by blast
  have p: "app_password ready_application = hdl_password open_handler"
    by (simp add: ready_application_def Application_new_def)
  have "cli_command ready_application = Some (AddBlock 1 ''first'')"
    by (simp add: cli_command_def ready_application_def Application_new_def MAX_DATA_LENGTH_def)
  then have e: "effect_of mem_env open_handler (cli_command ready_application) created_world =
      Some grown_world" by (simp add: effect_of_def grown_world_def)
  have "sent net_traffic n' \<noteq> sent net_traffic empty_net" using o by (simp add: net_traffic_def empty_net_def)
  with client_run_sends_command [OF mem_traffic_ok, of mem_env ready_application open_handler
      empty_net "Returns False n'"] r p mem_pb_ok mem_sha_live
  obtain data where "sent net_traffic n' = sent net_traffic empty_net @ [data]"
    and "\<forall>w. map_option snd (handleMessage mem_env open_handler \<lparr>msg_data = data\<rparr> w) =
      effect_of mem_env open_handler (cli_command ready_application) w" by auto
  moreover from this(1) have "outbox n' = [data]" by (simp add: net_traffic_def empty_net_def)
  ultimately show ?thesis using r e by metis
qed


section \<open>Client and server together\<close>

text \<open>
  C11: a call over the network is a call of the handler.  The client's \<open>sendMessage\<close> runs next to a
  server that has been started, with steps of the server, stops, and other traffic between its calls
  as any schedule wants it; the record lists the messages that the server handles.  If the call
  returns a reply, then the server has handled exactly this message with exactly this reply at one
  moment between the call and its return.
\<close>

theorem remote_call:
  assumes "wires_ok Z V" and "schedule Z V (recorded handle) A" and "online Z V (recorded handle) s"
    and "Client_sendMessage (alongside Z A) cl msg (k, s) = Returns (Some reply) (k', s')"
  shows "\<exists>before d1 d2 after. snd (databases s') = snd (databases s) @ before @ msg # after \<and>
    run_steps (handled handle) before (fst (databases s)) = Some d1 \<and>
    handle msg d1 = Some (Some reply, d2) \<and>
    run_steps (handled handle) after d2 = Some (fst (databases s'))"
  by (rule Client_sendMessage_recorded [OF assms]) blast

lemma remote_call_witness:
  "\<exists>k s before d1 d2 after.
    Client_sendMessage (beside link_zmq (recorded (handleMessage mem_env open_handler)) at_poll)
      (Client_local 8888 1000) (message_of add_first) (0, open_line (created_world, [])) =
      Returns (Some add_reply) (k, s) \<and>
    databases s = (grown_world, before @ message_of add_first # after) \<and>
    handleMessage mem_env open_handler (message_of add_first) d1 = Some (Some add_reply, d2)"
proof -
  let ?h = "handleMessage mem_env open_handler"
  obtain k s where c: "Client_sendMessage (beside link_zmq (recorded ?h) at_poll)
      (Client_local 8888 1000) (message_of add_first) (0, open_line (created_world, [])) =
      Returns (Some add_reply) (k, s)" and s: "databases s = (grown_world, [] @ [message_of add_first])"
    unfolding message_of_def
    by (rule called_recorded [of _ _ _ ?h, OF open_line_free databases_open_line
          handle_add_first [unfolded message_of_def] add_reply_nonempty])
  have "online link_zmq link_switch (recorded ?h) (open_line (created_world, []))"
    unfolding open_line_def by (rule online_start)
  from remote_call [OF link_zmq_wires_ok turns_schedule this c] obtain before d1 d2 after
    where "[message_of add_first] = before @ message_of add_first # after"
      "?h (message_of add_first) d1 = Some (Some add_reply, d2)"
    by (auto simp: s)
  with c s show ?thesis by (metis append_Nil)
qed

text \<open>
  C10: exit code 0 of the client means that its command was executed.  The command line client runs
  next to a started service with the same password.  If its options name a command and it ends with
  exit code 0, then among the messages the service has handled during the run is one that carries
  this command, and handling it was executing it.
\<close>

theorem exit_code_zero_executed:
  assumes "wires_ok Z V" and "schedule Z V (recorded (handleMessage E H)) A" and "pb_ok (env_pb E)"
    and "sha_live (env_sha E)"
    and "online Z V (recorded (handleMessage E H)) s"
    and "Application_initialize argv Application_new = (Some True, a)"
    and "app_password a = hdl_password H" and "cli_command a = Some cmd"
    and "Application_main (env_sha E) (env_pb E) (alongside Z A) argv (k, s) = Returns (Some 0) (k', s')"
  shows "\<exists>before msg d1 d2 after. snd (databases s') = snd (databases s) @ before @ msg # after \<and>
    command_of E H msg = Some cmd \<and>
    run_steps (message_step E H) before (fst (databases s)) = Some d1 \<and>
    run_command E (hdl_manager H) cmd d1 = Some d2 \<and>
    run_steps (message_step E H) after d2 = Some (fst (databases s'))"
proof -
  obtain req where req: "selected_request (env_sha E) a = Some req"
    using client_selects_command [of "env_sha E" a] assms(8) by (auto split: option.splits)
  from assms(6,9) have "Application_run (env_sha E) (env_pb E) (alongside Z A) a (k, s) =
      Some (Returns True (k', s'))"
    by (auto simp: Application_main_def split: option.splits call_end.splits if_splits)
  with req obtain cl where "processRequest (env_pb E) (alongside Z A) cl req (k, s) = Returns True (k', s')"
    by (auto simp: Application_run_def)
  then obtain data reply where ser: "request_Serialize (env_pb E) req = Some data"
    and c: "Client_sendMessage (alongside Z A) cl \<lparr>msg_data = data\<rparr> (k, s) = Returns (Some reply) (k', s')"
    by (auto simp: processRequest_def Let_def split: option.splits call_end.splits)
  obtain before d1 d2 after
    where r: "run_steps (handled (handleMessage E H)) before (fst (databases s)) = Some d1"
      "handleMessage E H \<lparr>msg_data = data\<rparr> d1 = Some (Some reply, d2)"
      "run_steps (handled (handleMessage E H)) after d2 = Some (fst (databases s'))"
      "snd (databases s') = snd (databases s) @ before @ \<lparr>msg_data = data\<rparr> # after"
    by (rule Client_sendMessage_recorded [OF assms(1,2,5) c])
  have c: "command_of E H \<lparr>msg_data = data\<rparr> = Some cmd"
    using client_command_of [OF assms(3,4,7) req ser] assms(8) by simp
  moreover have "run_command E (hdl_manager H) cmd d1 = Some d2"
    using handleMessage_effect [of E H "\<lparr>msg_data = data\<rparr>" d1] c r(2) by (simp add: effect_of_def)
  ultimately show ?thesis using r(1,3,4) unfolding run_handled by blast
qed

definition first_arguments :: "string list" where
  "first_arguments = [''chaindb-cli'', ''--add-block'', ''true'', ''--data'', ''first'']"

definition first_application :: application where
  "first_application = Application_new
     \<lparr>app_isAddBlockRequest := True, app_data := ''first'', app_client := Some (Client_local 8888 1000)\<rparr>"

lemma first_initialize:
  "Application_initialize first_arguments Application_new = (Some True, first_application)"
  by (simp add: Application_initialize_def first_arguments_def first_application_def parseArgs_def
      Application_handlers_def Application_new_def Client_local_def TIMEOUT_MS_def)

definition first_request :: request where
  "first_request = addBlock_request mem_sha first_application 1 ''first''"

lemma selected_first_request: "selected_request mem_sha first_application = Some first_request"
  by (simp add: selected_request_def first_request_def first_application_def Application_new_def)

lemma handle_first_request:
  "handleMessage mem_env open_handler \<lparr>msg_data = enc_request first_request\<rparr> created_world =
    Some (Some add_reply, grown_world)"
proof -
  have "request_Parse mem_pb (enc_request first_request) = Some first_request"
    using parse_message_of [of first_request] by (simp add: message_of_def)
  then show ?thesis
    by (simp add: handleMessage_def Message_length_def Message_data_def dispatch_def first_request_def
        addBlock_request_def request_with_auth_def request_default_def handleAddBlockRequest_def
        grown_block MAX_DATA_LENGTH_def makeResponse_def mem_pb_def add_reply_def)
qed

lemma exit_code_zero_executed_witness:
  "\<exists>k s before msg d1 d2 after. Application_main mem_sha mem_pb
      (beside link_zmq (recorded (handleMessage mem_env open_handler)) at_poll) first_arguments
      (0, open_line (created_world, [])) = Returns (Some 0) (k, s) \<and>
    databases s = (grown_world, before @ msg # after) \<and>
    command_of mem_env open_handler msg = Some (AddBlock 1 ''first'') \<and>
    run_command mem_env ex_manager (AddBlock 1 ''first'') d1 = Some d2"
proof -
  let ?h = "handleMessage mem_env open_handler"
  let ?Z = "beside link_zmq (recorded ?h) at_poll"
  let ?msg = "\<lparr>msg_data = enc_request first_request\<rparr>"
  obtain k s where c: "Client_sendMessage ?Z (Client_local 8888 1000) ?msg
      (0, open_line (created_world, [])) = Returns (Some add_reply) (k, s)"
    and s: "databases s = (grown_world, [] @ [?msg])"
    by (rule called_recorded [of _ _ _ ?h, OF open_line_free databases_open_line
          handle_first_request add_reply_nonempty])
  have "app_client first_application = Some (Client_local 8888 1000)"
    by (simp add: first_application_def)
  then have m: "Application_main mem_sha mem_pb ?Z first_arguments (0, open_line (created_world, [])) =
      Returns (Some 0) (k, s)"
    using c by (simp add: Application_main_def first_initialize Application_run_def selected_first_request
        processRequest_def mem_pb_def add_reply_def Message_length_def Message_data_def
        whole_inverts inverts_response)
  have st: "online link_zmq link_switch (recorded ?h) (open_line (created_world, []))"
    unfolding open_line_def by (rule online_start)
  have "app_password first_application = hdl_password open_handler"
    and "cli_command first_application = Some (AddBlock 1 ''first'')"
    by (simp_all add: first_application_def Application_new_def cli_command_def MAX_DATA_LENGTH_def)
  note e = exit_code_zero_executed [OF link_zmq_wires_ok turns_schedule [where m = at_poll] _ _ st first_initialize this,
      of 0 k s]
  obtain before msg d1 d2 after where "[?msg] = before @ msg # after"
    "command_of mem_env open_handler msg = Some (AddBlock 1 ''first'')"
    "run_command mem_env ex_manager (AddBlock 1 ''first'') d1 = Some d2"
    using e m by (auto simp: mem_pb_ok mem_sha_live s)
  with m s show ?thesis by (metis append_Nil)
qed


text \<open>
  A reply that carries a response with the status \<open>SUCCESS\<close>.
\<close>

definition succeeded :: "pb_lib \<Rightarrow> response \<Rightarrow> message \<Rightarrow> bool" where
  "succeeded P resp reply \<longleftrightarrow> carries P resp (Some reply) \<and>
     map_option sr_status (resp_status resp) = Some (status_code SUCCESS)"

lemma command_of_parts:
  assumes "command_of E H msg = Some c"
  obtains req where "request_Parse (env_pb E) (msg_data msg) = Some req" "authorized E H req"
    "requested req = Some c"
  using assms by (auto simp: command_of_def split: option.splits if_splits)

text \<open>
  C3: a block that a client has been told is stored is there for the next client.  One client sends
  a request to add a block and gets a reply with the status \<open>SUCCESS\<close>; later, with whatever traffic
  and calls of other clients in between, a client asks for all blocks of the chain and gets a reply
  with the status \<open>SUCCESS\<close>.  If none of the messages handled meanwhile removes the chain, and they
  are not so many that the chain runs out of numbers, the block of the first reply is in the second,
  with the data that were to be stored.
\<close>

theorem acknowledged_block_readable:
  assumes "env_ok E V" and "wires_ok Z N" and "online Z N (recorded (handleMessage E H)) s"
    and "chain_ledger E V (hdl_manager H) (fst (databases s)) i = Some (h, bs)"
    and "command_of E H msg1 = Some (AddBlock i d)" and "command_of E H msg2 = Some (GetBlocks i)"
    and "schedule Z N (recorded (handleMessage E H)) A1"
    and "Client_sendMessage (alongside Z A1) cl1 msg1 (k1, s) = Returns (Some reply1) (k1', s1)"
    and "later Z N (recorded (handleMessage E H)) s1 s2"
    and "schedule Z N (recorded (handleMessage E H)) A2"
    and "Client_sendMessage (alongside Z A2) cl2 msg2 (k2, s2) = Returns (Some reply2) (k2', s3)"
    and "succeeded (env_pb E) resp1 reply1" and "succeeded (env_pb E) resp2 reply2"
    and "snd (databases s3) = snd (databases s) @ log"
    and "\<And>msg. msg \<in> set log \<Longrightarrow> \<not> message_removes E H msg i" and "length bs + length log < 2 ^ 64"
  shows "\<exists>b blocks. resp_add_block resp1 = Some (Some (setBlockData b)) \<and> c_data (block_data b) = d \<and>
    resp_get_blocks resp2 = Some blocks \<and> setBlockData b \<in> set blocks"
proof -
  obtain before d1 d2 between d3 d4 after where
    r: "run_steps (handled (handleMessage E H)) before (fst (databases s)) = Some d1"
      "run_steps (handled (handleMessage E H)) between d2 = Some d3"
    and h1: "handleMessage E H msg1 d1 = Some (Some reply1, d2)"
    and h2: "handleMessage E H msg2 d3 = Some (Some reply2, d4)"
    and "snd (databases s3) = snd (databases s) @ before @ msg1 # between @ msg2 # after"
    by (rule two_calls [OF assms(2,3,7,8,9,10,11)])
  with assms(14) have log: "log = before @ msg1 # between @ msg2 # after" by simp
  note r1 = r(1) [unfolded run_handled] and r2 = r(2) [unfolded run_handled]
  note keep = assms(15) and few = assms(16) [unfolded log]
  obtain h' new where l1: "chain_ledger E V (hdl_manager H) d1 i = Some (h', bs @ new)"
    and n1: "length new \<le> length before"
    using srv.run_append_only [OF assms(1) r1 _ assms(4)] keep few log by auto
  from assms(5) obtain req1 where p1: "request_Parse (env_pb E) (msg_data msg1) = Some req1"
    "authorized E H req1" "requested req1 = Some (AddBlock i d)" by (rule command_of_parts)
  have "hdr_index h' \<noteq> - 1" using ledger_bound [OF l1] n1 few by simp
  from addBlock_acknowledged [OF assms(1) p1 l1 this h1] assms(12) obtain b
    where l2: "chain_ledger E V (hdl_manager H) d2 i =
        Some (h'\<lparr>hdr_index := hdr_index h' + 1\<rparr>, (bs @ new) @ [b])"
      and b: "c_data (block_data b) = d" "resp_add_block resp1 = Some (Some (setBlockData b))"
    unfolding succeeded_def by blast
  obtain h'' new' where l3: "chain_ledger E V (hdl_manager H) d3 i =
      Some (h'', ((bs @ new) @ [b]) @ new')"
    using srv.run_append_only [OF assms(1) r2 _ l2] keep few n1 log by auto
  from assms(6) obtain req2 where p2: "request_Parse (env_pb E) (msg_data msg2) = Some req2"
    "authorized E H req2" "requested req2 = Some (GetBlocks i)" by (rule command_of_parts)
  from getBlocks_acknowledged [OF assms(1) p2 l3 h2] assms(13)
  have "resp_get_blocks resp2 = Some (map setBlockData (((bs @ new) @ [b]) @ new'))"
    by (simp add: succeeded_def)
  with b show ?thesis by auto
qed

lemma succeeded_examples:
  "succeeded (env_pb mem_env) (success_response\<lparr>resp_add_block := Some (Some (setBlockData ex_block))\<rparr>) add_reply"
  "succeeded (env_pb mem_env) all_response all_reply"
  by (simp_all add: succeeded_def carries_def mem_pb_def add_reply_def all_reply_def all_response_def
      whole_inverts inverts_response success_response_def)

lemma acknowledged_block_readable_witness:
  "\<exists>k s k' s' b. Client_sendMessage (beside link_zmq (recorded (handleMessage mem_env
      open_handler)) at_poll) (Client_local 8888 1000) (message_of add_first) (0, open_line (created_world, [])) =
      Returns (Some add_reply) (k, s) \<and>
    Client_sendMessage (beside link_zmq (recorded (handleMessage mem_env open_handler)) at_poll)
      (Client_local 8888 1000) (message_of read_all) (0, s) = Returns (Some all_reply) (k', s') \<and>
    setBlockData ex_block = setBlockData b \<and> c_data (block_data b) = ''first''"
proof -
  let ?h = "handleMessage mem_env open_handler"
  let ?Z = "beside link_zmq (recorded ?h) at_poll"
  obtain k s where c1: "Client_sendMessage ?Z (Client_local 8888 1000) (message_of add_first)
      (0, open_line (created_world, [])) = Returns (Some add_reply) (k, s)"
    and w: "line_free s" and s: "databases s = (grown_world, [] @ [message_of add_first])"
    unfolding message_of_def
    by (rule called_recorded [of _ _ _ ?h, OF open_line_free databases_open_line
          handle_add_first [unfolded message_of_def] add_reply_nonempty])
  obtain d where h: "?h \<lparr>msg_data = enc_request read_all\<rparr> grown_world = Some (Some all_reply, d)"
    by (rule handle_read_all)
  let ?log = "([] @ [message_of add_first]) @ [message_of read_all]"
  obtain k' s' where c2: "Client_sendMessage ?Z (Client_local 8888 1000) (message_of read_all)
      (0, s) = Returns (Some all_reply) (k', s')" and s': "databases s' = (d, ?log)"
    using called_recorded [of s _ _ ?h, OF w s h all_reply_nonempty] unfolding message_of_def by metis
  have st: "online link_zmq link_switch (recorded ?h) (open_line (created_world, []))"
    unfolding open_line_def by (rule online_start)
  have cm: "command_of mem_env open_handler (message_of add_first) = Some (AddBlock 1 ''first'')"
    "command_of mem_env open_handler (message_of read_all) = Some (GetBlocks 1)"
    by (simp_all add: command_of_def authorized_def requested_def add_first_def read_all_def
        data_command_def request_default_def MAX_DATA_LENGTH_def)
  then have "\<not> message_removes mem_env open_handler msg 1" if "msg \<in> set ?log" for msg
    using that by (auto simp: message_removes_def)
  with acknowledged_block_readable [OF mem_env_ok link_zmq_wires_ok st _ cm turns_schedule c1 later.now
      turns_schedule c2 succeeded_examples, of ex_header "[]" ?log] created_ledger
  obtain b where "setBlockData ex_block = setBlockData b" "c_data (block_data b) = ''first''"
    by (auto simp: s')
  with c1 c2 show ?thesis by blast
qed

end
