(* ===== verification/Service_Map.thy ===== *)
theory Service_Map
  imports Chain_Map
begin

text \<open>
  The request handler without faults: its replies are the results of the steps on the map.
  \<open>read_answer\<close> is what a client can read from a response to its command.
\<close>

definition has_succeeded :: "response \<Rightarrow> bool" where
  "has_succeeded resp \<longleftrightarrow> map_option sr_status (resp_status resp) = Some (status_code SUCCESS)"

fun read_answer :: "command \<Rightarrow> response \<Rightarrow> answer" where
  "read_answer (CreateChain i d) resp = Done (has_succeeded resp)"
| "read_answer (AddBlock i d) resp =
     BlockData (if has_succeeded resp then map_option pbb_data (Option.bind (resp_add_block resp) id) else None)"
| "read_answer (GetBlock i n) resp =
     BlockData (if has_succeeded resp then map_option pbb_data (Option.bind (resp_get_block resp) id) else None)"
| "read_answer (GetBlocks i) resp =
     AllData (if has_succeeded resp
       then Some (case resp_get_blocks resp of None \<Rightarrow> [] | Some bs \<Rightarrow> map pbb_data bs) else None)"
| "read_answer (RemoveChain i) resp = Done (has_succeeded resp)"
| "read_answer (VerifyChain i) resp = Done (has_succeeded resp)"
| "read_answer (GetChainHeader i) resp =
     HeaderData (if has_succeeded resp
       then map_option (\<lambda>h. (pbh_version h, pbh_index h, pbh_data h)) (Option.bind (resp_get_chain_header resp) id)
       else None)"
| "read_answer (GetChainInfo i) resp =
     ChainState (if has_succeeded resp
       then map_option (\<lambda>x. (ci_version x, ci_index x)) (resp_get_chain_info resp) else None)"

text \<open>A message that asks for the command, and not for the keys of a chain, whose reply has no data.\<close>

definition asks :: "('w, 'h, 'c, 'pk, 'sg) env \<Rightarrow> handler \<Rightarrow> message \<Rightarrow> command \<Rightarrow> bool" where
  "asks E H msg c \<longleftrightarrow> command_of E H msg = Some c \<and>
     (\<forall>req. request_Parse (env_pb E) (msg_data msg) = Some req \<longrightarrow> result_field req \<noteq> Some ChainKeysField)"

lemma has_succeeded_simps [simp]:
  "has_succeeded success_response" "has_succeeded (status_only st tx) \<longleftrightarrow> st = SUCCESS"
  "has_succeeded (resp\<lparr>resp_add_block := ab\<rparr>) = has_succeeded resp"
  "has_succeeded (resp\<lparr>resp_get_block := gb\<rparr>) = has_succeeded resp"
  "has_succeeded (resp\<lparr>resp_get_blocks := gs\<rparr>) = has_succeeded resp"
  "has_succeeded (resp\<lparr>resp_get_chain_header := gh\<rparr>) = has_succeeded resp"
  "has_succeeded (resp\<lparr>resp_get_chain_info := gi\<rparr>) = has_succeeded resp"
  by (simp_all add: has_succeeded_def success_status status_only_def del: status_code.simps)

text \<open>The data of an answer make a response below the limit of 2 GB.\<close>

fun answer_fits :: "answer \<Rightarrow> bool" where
  "answer_fits (BlockData (Some d)) \<longleftrightarrow> blocks_fit [d]"
| "answer_fits (AllData (Some ds)) \<longleftrightarrow> blocks_fit ds"
| "answer_fits (HeaderData (Some (version, index, d))) \<longleftrightarrow> blocks_fit [d]"
| "answer_fits _ \<longleftrightarrow> True"

text \<open>What is packed arrives.\<close>

lemma makeResponse_arrives:
  assumes "pb_ok P" and "pb_serves P" and "response_size resp \<le> PB_MAX_SIZE"
  shows "\<exists>m. makeResponse P resp = Some m \<and> response_Parse P (msg_data m) = Some resp"
  using response_made [OF assms(2,3)] makeResponse_carries [OF assms(1), of resp]
  by (auto simp: carries_def)

text \<open>The reply \<open>mo\<close> shows the answer \<open>a\<close> to the command \<open>c\<close>.\<close>

definition shows_answer :: "pb_lib \<Rightarrow> command \<Rightarrow> answer \<Rightarrow> message option \<Rightarrow> bool" where
  "shows_answer P c a mo \<longleftrightarrow> (\<exists>m resp. mo = Some m \<and> response_Parse P (msg_data m) = Some resp \<and>
     resp_status resp \<noteq> None \<and> read_answer c resp = a)"

lemma shows_response:
  assumes "pb_ok P" and "pb_serves P" and "response_size resp \<le> PB_MAX_SIZE"
    and "resp_status resp \<noteq> None" and "read_answer c resp = a"
  shows "shows_answer P c a (makeResponse P resp)"
  using makeResponse_arrives [OF assms(1-3)] assms(4,5) by (auto simp: shows_answer_def)

lemma shows_status:
  assumes "pb_ok P" and "pb_serves P" and "length tx \<le> 100"
    and "read_answer c (status_only st tx) = a"
  shows "shows_answer P c a (makeStatus P st tx)"
  unfolding makeStatus_makeResponse
  by (rule shows_response [OF assms(1,2) status_fits [OF assms(3)] _ assms(4)]) (simp add: status_only_def)

lemma success_has_status [simp]:
  "resp_status success_response = Some \<lparr>sr_status = status_code SUCCESS, sr_message = ''''\<rparr>"
  by (simp add: success_response_def)

section \<open>The handlers\<close>

lemma write_handlers_show:
  assumes "pb_ok (env_pb E)" and "pb_serves (env_pb E)"
  shows "length d \<le> MAX_DATA_LENGTH \<Longrightarrow> observe E (hdl_manager H) (CreateChain i d) w = Some (a, w') \<Longrightarrow>
      \<exists>mo. handleCreateChainRequest E H \<lparr>cdr_chain_id = i, cdr_data = d\<rparr> w = (mo, w') \<and>
        shows_answer (env_pb E) (CreateChain i d) a mo"
    and "length d \<le> MAX_DATA_LENGTH \<Longrightarrow> answer_fits a \<Longrightarrow>
      observe E (hdl_manager H) (AddBlock i d) w = Some (a, w') \<Longrightarrow>
      \<exists>mo. handleAddBlockRequest E H \<lparr>cdr_chain_id = i, cdr_data = d\<rparr> w = (mo, w') \<and>
        shows_answer (env_pb E) (AddBlock i d) a mo"
    and "observe E (hdl_manager H) (RemoveChain i) w = Some (a, w') \<Longrightarrow>
      \<exists>mo. handleRemoveChainRequest E H \<lparr>cr_chain_id = i\<rparr> w = (mo, w') \<and>
        shows_answer (env_pb E) (RemoveChain i) a mo"
  by (auto simp: handleCreateChainRequest_def handleAddBlockRequest_def handleRemoveChainRequest_def Let_def
      split: prod.splits option.splits
      intro!: shows_response [OF assms] shows_status [OF assms] block_fits)

lemma read_handlers_show:
  assumes "pb_ok (env_pb E)" and "pb_serves (env_pb E)" and "answer_fits a"
  shows "observe E (hdl_manager H) (GetBlock i n) w = Some (a, w') \<Longrightarrow>
      \<exists>mo. handleGetBlockRequest E H \<lparr>gbr_chain_id = i, gbr_block_id = n\<rparr> w = (mo, w') \<and>
        shows_answer (env_pb E) (GetBlock i n) a mo"
    and "observe E (hdl_manager H) (GetChainHeader i) w = Some (a, w') \<Longrightarrow>
      \<exists>mo. handleGetChainHeaderRequest E H \<lparr>cr_chain_id = i\<rparr> w = (mo, w') \<and>
        shows_answer (env_pb E) (GetChainHeader i) a mo"
    and "observe E (hdl_manager H) (GetChainInfo i) w = Some (a, w') \<Longrightarrow>
      \<exists>mo. handleGetChainInfoRequest E H \<lparr>cr_chain_id = i\<rparr> w = (mo, w') \<and>
        shows_answer (env_pb E) (GetChainInfo i) a mo"
    and "observe E (hdl_manager H) (VerifyChain i) w = Some (a, w') \<Longrightarrow>
      \<exists>mo. handleVerifyChainRequest E H \<lparr>cr_chain_id = i\<rparr> w = Some (mo, w') \<and>
        shows_answer (env_pb E) (VerifyChain i) a mo"
  using assms(3)
  by (auto simp: handleGetBlockRequest_def handleGetChainHeaderRequest_def handleGetChainInfoRequest_def
      handleVerifyChainRequest_def header_message_def [symmetric] Let_def
      split: prod.splits option.splits if_splits
      intro!: shows_response [OF assms(1,2)] shows_status [OF assms(1,2)] block_fits header_fits info_fits)
    (simp_all add: header_message_def)

lemma getBlocks_handler_shows:
  assumes "pb_ok (env_pb E)" and "pb_serves (env_pb E)" and "answer_fits a"
    and "observe E (hdl_manager H) (GetBlocks i) w = Some (a, w')"
  shows "\<exists>mo. handleGetBlocksRequest E H \<lparr>cr_chain_id = i\<rparr> w = Some (mo, w') \<and>
    shows_answer (env_pb E) (GetBlocks i) a mo"
proof -
  from assms(4) obtain ok bs where b: "Manager_getBlocks E (hdl_manager H) i [] w = Some (ok, bs, w')"
    and a: "a = AllData (if ok then Some (map block_text bs) else None)" by (auto split: option.splits)
  have n: "resp_get_blocks success_response = None" by (simp add: success_response_def response_default_def)
  have "shows_answer (env_pb E) (GetBlocks i) (AllData None) (makeStatus (env_pb E) ERROR ''Can't get blocks'')"
    by (rule shows_status [OF assms(1,2)]) simp_all
  moreover have "shows_answer (env_pb E) (GetBlocks i) (AllData (Some (map block_text bs)))
      (makeResponse (env_pb E) (foldl add_blocks success_response bs))"
    if "blocks_fit (map block_text bs)"
    by (rule shows_response [OF assms(1,2) list_fits [OF that]]) (simp_all add: add_blocks_foldl [OF n] n comp_def)
  ultimately show ?thesis using b a assms(3) by (cases ok) (simp_all add: handleGetBlocksRequest_def)
qed

lemma handler_shows:
  assumes pb: "pb_ok (env_pb E)" and ser: "pb_serves (env_pb E)" and f: "answer_fits a"
    and c: "asks E H msg c" and o: "observe E (hdl_manager H) c w = Some (a, w')"
  shows "\<exists>mo. handleMessage E H msg w = Some (mo, w') \<and> shows_answer (env_pb E) c a mo"
proof -
  from c obtain req where p: "request_Parse (env_pb E) (msg_data msg) = Some req" "authorized E H req"
    and r: "requested req = Some c" and k: "result_field req \<noteq> Some ChainKeysField"
    by (auto simp: asks_def command_of_def split: option.splits if_splits)
  note m = handleMessage_authorized [OF p, of w]
  note w = write_handlers_show [OF pb ser] and rd = read_handlers_show [OF pb ser f]
  show ?thesis
  proof (cases c)
    case (CreateChain i d)
    note r' = r [unfolded this] and o' = o [unfolded this]
    from w(1) [OF dispatch_write(4) [OF r'] o'] m show ?thesis by (simp add: CreateChain dispatch_write(1) [OF r'])
  next
    case (AddBlock i d)
    note r' = r [unfolded this] and o' = o [unfolded this]
    from w(2) [OF dispatch_write(5) [OF r'] f o'] m show ?thesis by (simp add: AddBlock dispatch_write(2) [OF r'])
  next
    case (GetBlock i n)
    note r' = r [unfolded this] and o' = o [unfolded this]
    from rd(1) [OF o'] m show ?thesis by (simp add: GetBlock dispatch_read(1) [OF r'])
  next
    case (GetBlocks i)
    note r' = r [unfolded this] and o' = o [unfolded this]
    from getBlocks_handler_shows [OF pb ser f o'] m show ?thesis by (simp add: GetBlocks dispatch_read(2) [OF r'])
  next
    case (RemoveChain i)
    note r' = r [unfolded this] and o' = o [unfolded this]
    from w(3) [OF o'] m show ?thesis by (simp add: RemoveChain dispatch_write(3) [OF r'])
  next
    case (VerifyChain i)
    note r' = r [unfolded this] and o' = o [unfolded this]
    from rd(4) [OF o'] m show ?thesis by (simp add: VerifyChain dispatch_read(3) [OF r'])
  next
    case (GetChainHeader i)
    note r' = r [unfolded this] and o' = o [unfolded this]
    have "req_get_chain_header req \<noteq> None"
      using r' k by (auto simp: requested_def result_field_def data_command_def split: if_split_asm)
    with rd(2) [OF o'] m show ?thesis by (simp add: GetChainHeader dispatch_read(4) [OF r'])
  next
    case (GetChainInfo i)
    note r' = r [unfolded this] and o' = o [unfolded this]
    from rd(3) [OF o'] m show ?thesis by (simp add: GetChainInfo dispatch_read(5) [OF r'])
  qed
qed

lemma command_of_fits: "command_of E H msg = Some c \<Longrightarrow> command_fits c"
  by (cases c) (auto simp: command_of_def dest: dispatch_write(4,5) split: option.splits if_splits)

end
