(* ===== verification/Live_Properties.thy ===== *)
theory Live_Properties
  imports Network_Properties Service_Map
begin

text \<open>
  What the two programs together accomplish, not only what they never do: over a network that works,
  next to a service that waits, a run of the command line client ends with exit code 0 and its
  command has been executed; a sequence of runs stores its data in order.
\<close>

text \<open>
  The arguments parse, name the command \<open>cmd\<close>, and give the password and an address of the service.
\<close>

definition commands :: "handler \<Rightarrow> string set \<Rightarrow> string list \<Rightarrow> command \<Rightarrow> bool" where
  "commands H eps argv cmd \<longleftrightarrow>
     (\<exists>a. Application_initialize argv Application_new = (Some True, a) \<and> cli_command a = Some cmd \<and>
        app_password a = hdl_password H \<and>
        (\<forall>cl. app_client a = Some cl \<longrightarrow> Client_makeEndpointPath cl \<in> eps))"

lemma initialize_client:
  "Application_initialize argv a0 = (Some True, a) \<Longrightarrow> \<exists>cl. app_client a = Some cl"
  by (auto simp: Application_initialize_def Let_def split: prod.splits parse_result.splits if_splits)

lemma command_size: "cli_command a = Some (AddBlock i d) \<Longrightarrow> length d \<le> MAX_DATA_LENGTH"
  by (auto simp: cli_command_def Let_def split: if_splits)

section \<open>One run of the client\<close>

text \<open>The request for a command is small: its data are within \<open>MAX_DATA_LENGTH\<close>.\<close>

lemma part_size_bound: "n \<le> k \<Longrightarrow> k \<le> PB_MAX_SIZE \<Longrightarrow> part_size n \<le> k + 6"
  using part_size_le [of n] by simp

lemma request_parts_small:
  "part_size (bytes_size (password_hash (setAuthData S a \<lparr>password_hash = []\<rparr>))) \<le> 44"
  "part_size (uint_size (i :: size_t)) \<le> 17" "part_size (uint_size i + uint_size (n :: size_t)) \<le> 28"
  "length d \<le> MAX_DATA_LENGTH \<Longrightarrow> part_size (uint_size i + bytes_size d) \<le> 8300"
proof -
  have "length (password_hash (setAuthData S a \<lparr>password_hash = []\<rparr>)) \<le> 32"
    by (simp add: setAuthData_def split: option.split)
  then have "bytes_size (password_hash (setAuthData S a \<lparr>password_hash = []\<rparr>)) \<le> 38"
    using bytes_size_le [of "password_hash (setAuthData S a \<lparr>password_hash = []\<rparr>)"]
    by (simp add: PB_MAX_SIZE_def)
  from part_size_bound [OF this]
  show "part_size (bytes_size (password_hash (setAuthData S a \<lparr>password_hash = []\<rparr>))) \<le> 44"
    by (simp add: PB_MAX_SIZE_def)
  show "part_size (uint_size (i :: size_t)) \<le> 17" "part_size (uint_size i + uint_size (n :: size_t)) \<le> 28"
    using uint_size_le(1) [of i] uint_size_le(1) [of n] part_size_bound [of "uint_size i" 11]
      part_size_bound [of "uint_size i + uint_size n" 22] by (simp_all add: PB_MAX_SIZE_def)
  assume "length d \<le> MAX_DATA_LENGTH"
  then show "part_size (uint_size i + bytes_size d) \<le> 8300"
    using uint_size_le(1) [of i] bytes_size_le [of d] part_size_bound [of "uint_size i + bytes_size d" 8294]
    by (simp add: PB_MAX_SIZE_def MAX_DATA_LENGTH_def)
qed

lemma command_request_size:
  assumes "selected_request S a = Some req" and "cli_command a = Some cmd"
  shows "request_size req \<le> PB_MAX_SIZE"
proof -
  let ?i = "word_of_int (app_chainId a) :: size_t" and ?n = "word_of_int (app_blockId a) :: size_t"
  note small = request_parts_small(1) [of S a] request_parts_small(2) [of ?i]
    request_parts_small(3) [of ?i ?n] request_parts_small(4) [of "app_data a" ?i]
  have "request_size req \<le> 9000"
    using assms small
    by (auto simp: selected_request_def cli_command_def client_requests request_size_def chain_size_def
        chain_data_size_def Let_def split: if_splits)
  then show ?thesis by (simp add: PB_MAX_SIZE_def)
qed

lemma program_answered:
  assumes pb: "pb_ok (env_pb E)" and sha: "sha_live (env_sha E)" and ser: "pb_serves (env_pb E)"
    and ok: "wires_ok Z N" and live: "link_live Z N good eps" and w: "waiting N good S s"
    and m: "0 < m 6 + m 7" and c: "commands H eps argv cmd"
    and h: "\<And>msg. command_of E H msg = Some cmd \<Longrightarrow>
      \<exists>reply d'. handleMessage E H msg (databases s) = Some (Some reply, d')"
  shows "\<exists>k' s' msg reply. Application_main (env_sha E) (env_pb E) (beside Z (handleMessage E H) m) argv (0, s) =
      Returns (Some 0) (k', s') \<and> waiting N good S s' \<and> command_of E H msg = Some cmd \<and>
    handleMessage E H msg (databases s) = Some (Some reply, databases s')"
proof -
  obtain a where a: "Application_initialize argv Application_new = (Some True, a)"
    and ca: "cli_command a = Some cmd" and pw: "app_password a = hdl_password H"
    and eps: "\<And>cl. app_client a = Some cl \<Longrightarrow> Client_makeEndpointPath cl \<in> eps"
    using c by (auto simp: commands_def)
  obtain cl where cl: "app_client a = Some cl" using initialize_client [OF a] by blast
  obtain req where req: "selected_request (env_sha E) a = Some req"
    using client_selects_command [of "env_sha E" a] ca by (auto split: option.splits)
  obtain data where data: "request_Serialize (env_pb E) req = Some data"
    using ser command_request_size [OF req ca] unfolding pb_serves_def by blast
  let ?msg = "\<lparr>msg_data = data\<rparr>"
  have cm: "command_of E H ?msg = Some cmd" using client_command_of [OF pb sha pw req data] ca by simp
  obtain reply d' where r: "handleMessage E H ?msg (databases s) = Some (Some reply, d')"
    using h [OF cm] by blast
  obtain resp where p: "response_Parse (env_pb E) (msg_data reply) = Some resp" and "resp_status resp \<noteq> None"
    using handleMessage_status [OF pb r] by blast
  with ser have "msg_data reply \<noteq> []" by (auto simp: pb_serves_def)
  from call_answered [where handle = "handleMessage E H" and cl = cl and m = m and msg = ?msg,
      OF ok live w eps [OF cl] m r this]
  obtain k' s' where "Client_sendMessage (beside Z (handleMessage E H) m) cl ?msg (0, s) = Returns (Some reply) (k', s')"
    and s': "waiting N good S s'" "databases s' = d'" by blast
  with data p have "processRequest (env_pb E) (beside Z (handleMessage E H) m) cl req (0, s) = Returns True (k', s')"
    by (simp add: processRequest_def Message_data_def Message_length_def)
  with a cl req have "Application_main (env_sha E) (env_pb E) (beside Z (handleMessage E H) m) argv (0, s) =
      Returns (Some 0) (k', s')"
    by (simp add: Application_main_def Application_run_def)
  with s' cm r show ?thesis by blast
qed

text \<open>
  C5: a command given to the client is executed, under these conditions.  The network works without
  faults (\<open>link_live\<close>) and the service waits; the client's arguments name a command and give the
  password and an address of the service (\<open>commands\<close>); the server takes at least one turn of its loop
  while the client releases its request or polls, and any number at other times; hashing does not
  fail; protocol buffers serialise messages below their limit of 2 GB; no header in the directory of
  the service counts \<open>2^64 - 1\<close> blocks, and no header, block or list of the blocks of a chain there is
  too large for a response of 2 GB.  Then the client ends with exit code 0, exactly this command has
  been executed on the databases, whatever faults occur there, and the service waits again.
\<close>

theorem client_program_executes:
  assumes "env_ok E V" and "sha_live (env_sha E)" and "pb_serves (env_pb E)"
    and "wires_ok Z N" and "link_live Z N good eps" and "waiting N good S s"
    and "0 < m 6 + m 7" and "commands H eps argv cmd"
    and "stored_fits E V (hdl_manager H) (databases s)"
  shows "\<exists>k' s'. Application_main (env_sha E) (env_pb E) (beside Z (handleMessage E H) m) argv (0, s) =
      Returns (Some 0) (k', s') \<and>
    run_command E (hdl_manager H) cmd (databases s) = Some (databases s') \<and> waiting N good S s'"
proof -
  note pb = env_okD(4) [OF assms(1)]
  have "\<exists>reply d'. handleMessage E H msg (databases s) = Some (Some reply, d')" for msg
    by (rule handleMessage_answers [OF assms(1-3,9)])
  from program_answered [OF pb assms(2-8) this] obtain k' s' msg reply
    where p: "Application_main (env_sha E) (env_pb E) (beside Z (handleMessage E H) m) argv (0, s) =
        Returns (Some 0) (k', s')" "waiting N good S s'"
      and c: "command_of E H msg = Some cmd"
      and r: "handleMessage E H msg (databases s) = Some (Some reply, databases s')" by blast
  have "run_command E (hdl_manager H) cmd (databases s) = Some (databases s')"
    using handleMessage_effect [of E H msg "databases s"] c r by (simp add: effect_of_def)
  with p show ?thesis by blast
qed

definition create_arguments :: "string list" where
  "create_arguments = [''chaindb-cli'', ''--create-chain'', ''true'', ''--data'', ''genesis'']"

lemma create_commands: "commands open_handler UNIV create_arguments (CreateChain 1 ''genesis'')"
  by (simp add: commands_def Application_initialize_def create_arguments_def parseArgs_def
      Application_handlers_def Application_new_def cli_command_def MAX_DATA_LENGTH_def)

lemma empty_fits: "stored_fits E mem_view M empty_world"
  by (simp add: stored_fits_def mem_view_def)

lemma client_program_executes_witness:
  "\<exists>k' s'. Application_main mem_sha mem_pb (beside link_zmq (handleMessage mem_env open_handler) at_poll)
      create_arguments (0, open_line empty_world) = Returns (Some 0) (k', s') \<and> databases s' = created_world"
proof -
  have "run_command mem_env ex_manager (CreateChain 1 ''genesis'') empty_world = Some created_world"
    by (simp add: created_world_def)
  with client_program_executes [where m = at_poll, OF mem_env_ok _ _ link_zmq_wires_ok link_zmq_live
      open_line_free _ create_commands, of empty_world]
  show ?thesis
    by (auto simp: mem_sha_live mem_pb_serves at_poll_def empty_fits)
qed

section \<open>Runs one after another\<close>

text \<open>
  Clients are run one after another, each with its arguments and the turns that the server takes
  meanwhile; the state of the system at the end if all of them end with exit code 0.
\<close>

fun run_clients ::
  "('w, 'h, 'c, 'pk, 'sg) env \<Rightarrow> handler \<Rightarrow> ('n, 'o) zmq_lib \<Rightarrow> (string list \<times> (nat \<Rightarrow> nat)) list
     \<Rightarrow> ('w, 'n, 'o) server_state \<Rightarrow> ('w, 'n, 'o) server_state option" where
  "run_clients E H Z [] s = Some s"
| "run_clients E H Z ((argv, m) # runs) s =
     (case Application_main (env_sha E) (env_pb E) (beside Z (handleMessage E H) m) argv (0, s) of
        Hangs (k, s') \<Rightarrow> None
      | Returns code (k, s') \<Rightarrow> if code = Some 0 then run_clients E H Z runs s' else None)"

text \<open>The state in which adding to the chain \<open>i\<close> succeeds.\<close>

definition chain_ready ::
  "('w, 'h, 'c, 'pk, 'sg) env \<Rightarrow> ('w, 'h) db_view \<Rightarrow> handler \<Rightarrow> 'w \<Rightarrow> size_t \<Rightarrow> header \<Rightarrow> block list
     \<Rightarrow> bool" where
  "chain_ready E V H w i h bs \<longleftrightarrow>
     chain_ledger E V (hdl_manager H) w i = Some (h, bs) \<and> accessible V (hdl_manager H) w i \<and>
     ec_seckey_verify (env_ec E) (hdr_privateKey h) \<and> length (hdr_data h) \<le> MAX_DATA_LENGTH"

lemma add_block_program:
  assumes "env_ok E V" and "env_live E V" and ser: "pb_serves (env_pb E)"
    and "wires_ok Z N" and "link_live Z N good eps" and "waiting N good S s"
    and "0 < m 6 + m 7" and c: "commands H eps argv (AddBlock i d)"
    and r: "chain_ready E V H (databases s) i h bs" and n: "length bs < 2 ^ 64 - 1"
  shows "\<exists>k' s' b. Application_main (env_sha E) (env_pb E) (beside Z (handleMessage E H) m) argv (0, s) =
      Returns (Some 0) (k', s') \<and> waiting N good S s' \<and>
    chain_ready E V H (databases s') i (h\<lparr>hdr_index := hdr_index h + 1\<rparr>) (bs @ [b]) \<and>
    c_data (block_data b) = d"
proof -
  note pb = env_okD(4) [OF assms(1)] and sha = env_liveD(3) [OF assms(2)]
  have d: "length d \<le> MAX_DATA_LENGTH" using c by (auto simp: commands_def dest: command_size)
  from r have l0: "chain_ledger E V (hdl_manager H) (databases s) i = Some (h, bs)"
    and acc: "accessible V (hdl_manager H) (databases s) i"
    and key: "ec_seckey_verify (env_ec E) (hdr_privateKey h)" "length (hdr_data h) \<le> MAX_DATA_LENGTH"
    by (simp_all add: chain_ready_def)
  from Manager_addBlock_appends [OF assms(1,2) acc l0 ledger_bound [OF l0 n] key d]
  obtain b w' where a: "Manager_addBlock E (hdl_manager H) i d (databases s) = (Some b, w')"
    and b: "c_data (block_data b) = d"
    and l: "chain_ledger E V (hdl_manager H) w' i = Some (h\<lparr>hdr_index := hdr_index h + 1\<rparr>, bs @ [b])"
      "accessible V (hdl_manager H) w' i" by blast
  have ans: "\<exists>reply. handleMessage E H msg (databases s) = Some (Some reply, w')"
    if "command_of E H msg = Some (AddBlock i d)" for msg
    by (rule addBlock_answered [OF assms(1) ser that a])
  then have "\<exists>reply d'. handleMessage E H msg (databases s) = Some (Some reply, d')"
    if "command_of E H msg = Some (AddBlock i d)" for msg using that by blast
  from program_answered [OF pb sha ser assms(4-8) this] obtain k' s' msg reply
    where p: "Application_main (env_sha E) (env_pb E) (beside Z (handleMessage E H) m) argv (0, s) =
        Returns (Some 0) (k', s')" "waiting N good S s'"
      and "command_of E H msg = Some (AddBlock i d)"
      and "handleMessage E H msg (databases s) = Some (Some reply, databases s')" by blast
  with ans [of msg] have "databases s' = w'" by auto
  with p b l r show ?thesis by (auto simp: chain_ready_def)
qed

text \<open>
  C7: what clients are told to store is stored, in order, under these conditions.  Neither the
  databases, the random numbers, hashing and the keys nor the network fail (\<open>env_live\<close>, \<open>link_live\<close>),
  protocol buffers serialise messages below their limit of 2 GB, and the service waits.  Clients run
  one after another, each with the password and an address of the service and the arguments of one
  block to add to the same chain, which are within the size limit; the server takes at least one turn
  while each of them releases its request or polls.  The chain is ready: its ledger is intact, its
  database is not open elsewhere, its private key is valid, its own data are within the size limit,
  and its counter has room for the blocks.  Then all clients end with exit code 0; the chain has grown
  by exactly one block for each run, with their data in the order of the runs, and is ready again.
\<close>

theorem clients_store_in_order:
  assumes "env_ok E V" and "env_live E V" and "pb_serves (env_pb E)"
    and "wires_ok Z N" and "link_live Z N good eps" and "waiting N good S s"
    and "list_all2 (\<lambda>(argv, m) d. 0 < m 6 + m 7 \<and> commands H eps argv (AddBlock i d)) runs ds"
    and "chain_ready E V H (databases s) i h bs" and "length bs + length ds < 2 ^ 64"
  shows "\<exists>s' new. run_clients E H Z runs s = Some s' \<and> waiting N good S s' \<and>
    chain_ready E V H (databases s') i (h\<lparr>hdr_index := hdr_index h + of_nat (length ds)\<rparr>) (bs @ new) \<and>
    map (c_data \<circ> block_data) new = ds"
  using assms(7,6,8,9)
proof (induction arbitrary: s h bs rule: list_all2_induct)
  case Nil
  then show ?case by simp
next
  case (Cons run runs d ds)
  obtain argv m where run: "run = (argv, m)" by (cases run)
  from Cons.hyps(1) run have c: "0 < m 6 + m 7" "commands H eps argv (AddBlock i d)" by simp_all
  have n: "length bs < 2 ^ 64 - 1" using Cons.prems(3) by simp
  from add_block_program [OF assms(1-5) Cons.prems(1) c Cons.prems(2) n] obtain k' s1 b
    where p: "Application_main (env_sha E) (env_pb E) (beside Z (handleMessage E H) m) argv (0, s) =
        Returns (Some 0) (k', s1)" and w: "waiting N good S s1"
      and r: "chain_ready E V H (databases s1) i (h\<lparr>hdr_index := hdr_index h + 1\<rparr>) (bs @ [b])"
      and b: "c_data (block_data b) = d" by blast
  have "length (bs @ [b]) + length ds < 2 ^ 64" using Cons.prems(3) by simp
  from Cons.IH [OF w r this] obtain s' new where "run_clients E H Z runs s1 = Some s'"
    and s': "waiting N good S s'" "map (c_data \<circ> block_data) new = ds"
      "chain_ready E V H (databases s') i (h\<lparr>hdr_index := hdr_index h + 1, hdr_index :=
         hdr_index (h\<lparr>hdr_index := hdr_index h + 1\<rparr>) + of_nat (length ds)\<rparr>) ((bs @ [b]) @ new)" by blast
  with p run have "run_clients E H Z (run # runs) s = Some s'" by simp
  with s' b show ?case
    by (intro exI [of _ s'] exI [of _ "b # new"]) (simp add: add.assoc comp_def)
qed

definition second_arguments :: "string list" where
  "second_arguments = [''chaindb-cli'', ''--add-block'', ''true'', ''--data'', ''second'']"

lemma add_commands:
  "commands open_handler UNIV first_arguments (AddBlock 1 ''first'')"
  "commands open_handler UNIV second_arguments (AddBlock 1 ''second'')"
  by (simp_all add: commands_def Application_initialize_def first_arguments_def second_arguments_def
      parseArgs_def Application_handlers_def Application_new_def cli_command_def MAX_DATA_LENGTH_def)

lemma created_ready: "chain_ready mem_env mem_view open_handler created_world 1 ex_header []"
  using created_ledger ex_header
  by (simp add: chain_ready_def accessible_def mem_ec_def MAX_DATA_LENGTH_def)

lemma clients_store_in_order_witness:
  "\<exists>s' b1 b2. run_clients mem_env open_handler link_zmq
      [(first_arguments, at_poll), (second_arguments, at_poll)] (open_line created_world) = Some s' \<and>
    chain_ledger mem_env mem_view ex_manager (databases s') 1 =
      Some (ex_header\<lparr>hdr_index := 2\<rparr>, [b1, b2]) \<and>
    c_data (block_data b1) = ''first'' \<and> c_data (block_data b2) = ''second''"
proof -
  let ?runs = "[(first_arguments, at_poll), (second_arguments, at_poll)]"
  have runs: "list_all2 (\<lambda>(argv, m) d. 0 < m 6 + m 7 \<and> commands open_handler UNIV argv (AddBlock 1 d))
      ?runs [''first'', ''second'']"
    using add_commands by (simp add: at_poll_def)
  have "pb_serves (env_pb mem_env)" using mem_pb_serves by simp
  from clients_store_in_order [OF mem_env_ok mem_env_live this link_zmq_wires_ok link_zmq_live
      open_line_free runs, of created_world ex_header "[]"] created_ready
  obtain s' new where "run_clients mem_env open_handler link_zmq ?runs (open_line created_world) = Some s'"
    and "chain_ready mem_env mem_view open_handler (databases s') 1
      (ex_header\<lparr>hdr_index := hdr_index ex_header + 2\<rparr>) new"
    and "map (c_data \<circ> block_data) new = [''first'', ''second'']" by auto
  then show ?thesis by (auto simp: chain_ready_def map_eq_Cons_conv ex_header)
qed

section \<open>Calls one after another\<close>

text \<open>
  Clients call one after another, each with its message and the turns that the server takes
  meanwhile; their results, and the state of the system at the end.  A call that hangs is the last.
\<close>

fun call_all ::
  "('n, 'o) zmq_lib \<Rightarrow> 'd message_handler \<Rightarrow> (client \<times> message \<times> (nat \<Rightarrow> nat)) list
     \<Rightarrow> ('d, 'n, 'o) server_state \<Rightarrow> message option list \<times> ('d, 'n, 'o) server_state" where
  "call_all Z handle [] s = ([], s)"
| "call_all Z handle ((cl, msg, m) # calls) s =
     (case Client_sendMessage (beside Z handle m) cl msg (0, s) of
        Hangs (k, s) \<Rightarrow> ([], s)
      | Returns r (k, s) \<Rightarrow> let (rs, s) = call_all Z handle calls s in (r # rs, s))"

lemma shown_not_empty:
  assumes "pb_serves P" and "shows_answer P c a (Some m)"
  shows "msg_data m \<noteq> []"
proof
  assume "msg_data m = []"
  with assms(2) obtain resp where "response_Parse P [] = Some resp" "resp_status resp \<noteq> None"
    by (auto simp: shows_answer_def)
  with assms(1) show False by (simp add: pb_serves_def)
qed

lemma call_shows:
  assumes "env_ok E V" and "env_live E V" and "keys_live E" and "pb_serves (env_pb E)"
    and "wires_ok Z N" and "link_live Z N good eps" and "waiting N good S s"
    and "represents E V (hdl_manager H) (databases s) t" and "room t (Suc k)"
    and "answer_fits (fst (map_step c t))"
    and "Client_makeEndpointPath cl \<in> eps" and "0 < m 6 + m 7" and "asks E H msg c"
  shows "\<exists>reply k' s'. Client_sendMessage (beside Z (handleMessage E H) m) cl msg (0, s) = Returns (Some reply) (k', s') \<and>
    shows_answer (env_pb E) c (fst (map_step c t)) (Some reply) \<and>
    waiting N good S s' \<and> represents E V (hdl_manager H) (databases s') (snd (map_step c t))"
proof -
  have "command_fits c" using assms(13) by (auto simp: asks_def intro: command_of_fits)
  then have "simulated E V (hdl_manager H) c (databases s) t"
    using room_small [OF assms(9)] by (intro command_simulated [OF assms(1-3,8)])
  then obtain w' where o: "observe E (hdl_manager H) c (databases s) = Some (fst (map_step c t), w')"
    and rep: "represents E V (hdl_manager H) w' (snd (map_step c t))" by (auto simp: simulated_def)
  from handler_shows [OF env_okD(4) [OF assms(1)] assms(4,10,13) o] obtain mo
    where h: "handleMessage E H msg (databases s) = Some (mo, w')"
      and sh: "shows_answer (env_pb E) c (fst (map_step c t)) mo" by blast
  from sh obtain reply where mo: "mo = Some reply" by (auto simp: shows_answer_def)
  have "msg_data reply \<noteq> []" using shown_not_empty [OF assms(4)] sh mo by simp
  from call_answered [where handle = "handleMessage E H" and m = m and cl = cl and msg = msg,
      OF assms(5-7,11,12) h [unfolded mo] this] sh mo rep
  show ?thesis by blast
qed

text \<open>
  C4: clients see a map, under these conditions.  Neither the databases, the random numbers, hashing
  and the keys nor the network fail (\<open>env_live\<close>, \<open>keys_live\<close>, \<open>link_live\<close>), protocol buffers serialise
  messages below their limit of 2 GB, and the service waits over a directory that represents a map
  from chain numbers to lists of data, in which no counter wraps around.  The clients' messages carry
  commands (other than requests for keys) that the service accepts, the server takes at least one
  turn while each client releases its request or polls, and no answer of the map is too large for a
  response of 2 GB.  Then all calls are answered, and what the clients read from the answers, one after
  the other, are the results of the operations of the map; the service waits again and its directory
  represents the resulting map.
\<close>

theorem clients_see_map:
  assumes "env_ok E V" and "env_live E V" and "keys_live E" and "pb_serves (env_pb E)"
    and "wires_ok Z N" and "link_live Z N good eps" and "waiting N good S s"
    and "represents E V (hdl_manager H) (databases s) t" and "room t (length cs)"
    and "list_all answer_fits (fst (map_run cs t))"
    and "list_all2 (\<lambda>(cl, msg, m) c. Client_makeEndpointPath cl \<in> eps \<and> 0 < m 6 + m 7 \<and> asks E H msg c)
      calls cs"
  shows "\<exists>replies s'. call_all Z (handleMessage E H) calls s = (map Some replies, s') \<and>
    list_all2 (\<lambda>(c, a) r. shows_answer (env_pb E) c a (Some r)) (zip cs (fst (map_run cs t))) replies \<and>
    waiting N good S s' \<and> represents E V (hdl_manager H) (databases s') (snd (map_run cs t))"
  using assms(11,7,8,9,10)
proof (induction arbitrary: s t rule: list_all2_induct)
  case Nil
  then show ?case by simp
next
  case (Cons call calls c cs)
  obtain cl msg m where call: "call = (cl, msg, m)" by (cases call)
  with Cons.hyps(1) have c: "Client_makeEndpointPath cl \<in> eps" "0 < m 6 + m 7" "asks E H msg c" by simp_all
  have n: "room t (Suc (length cs))" using Cons.prems(3) by simp
  have f: "answer_fits (fst (map_step c t))" "list_all answer_fits (fst (map_run cs (snd (map_step c t))))"
    using Cons.prems(4) by (simp_all add: case_prod_beta Let_def)
  obtain reply k' s1 where
    r: "Client_sendMessage (beside Z (handleMessage E H) m) cl msg (0, s) = Returns (Some reply) (k', s1)"
      "shows_answer (env_pb E) c (fst (map_step c t)) (Some reply)"
    and s1: "waiting N good S s1" "represents E V (hdl_manager H) (databases s1) (snd (map_step c t))"
    using call_shows [OF assms(1-6) Cons.prems(1,2) n f(1) c] by blast
  obtain replies s' where "call_all Z (handleMessage E H) calls s1 = (map Some replies, s')"
    "list_all2 (\<lambda>(c, a) r. shows_answer (env_pb E) c a (Some r))
       (zip cs (fst (map_run cs (snd (map_step c t))))) replies"
    and s': "waiting N good S s'"
      "represents E V (hdl_manager H) (databases s') (snd (map_run cs (snd (map_step c t))))"
    using Cons.IH [OF s1 room_step [OF n] f(2)] by blast
  with r call show ?case
    by (intro exI [of _ "reply # replies"] exI [of _ s']) (simp add: case_prod_beta' Let_def)
qed

text \<open>A request of each kind, on the line to an empty directory.\<close>

definition line_commands :: "command list" where
  "line_commands =
     [CreateChain 1 ''car'', AddBlock 1 ''bike'', AddBlock 2 ''bus'', GetBlocks 1, GetBlock 1 1,
      VerifyChain 1, GetChainHeader 1, GetChainInfo 1, RemoveChain 1, GetBlocks 1]"

fun request_for :: "command \<Rightarrow> request" where
  "request_for (CreateChain i d) = request_default\<lparr>req_create_chain := Some \<lparr>cdr_chain_id = i, cdr_data = d\<rparr>\<rparr>"
| "request_for (AddBlock i d) = request_default\<lparr>req_add_block := Some \<lparr>cdr_chain_id = i, cdr_data = d\<rparr>\<rparr>"
| "request_for (GetBlock i n) = request_default\<lparr>req_get_block := Some \<lparr>gbr_chain_id = i, gbr_block_id = n\<rparr>\<rparr>"
| "request_for (GetBlocks i) = request_default\<lparr>req_get_blocks := Some \<lparr>cr_chain_id = i\<rparr>\<rparr>"
| "request_for (RemoveChain i) = request_default\<lparr>req_remove_chain := Some \<lparr>cr_chain_id = i\<rparr>\<rparr>"
| "request_for (VerifyChain i) = request_default\<lparr>req_verify_chain := Some \<lparr>cr_chain_id = i\<rparr>\<rparr>"
| "request_for (GetChainHeader i) = request_default\<lparr>req_get_chain_header := Some \<lparr>cr_chain_id = i\<rparr>\<rparr>"
| "request_for (GetChainInfo i) = request_default\<lparr>req_get_chain_info := Some \<lparr>cr_chain_id = i\<rparr>\<rparr>"

lemma request_for_asks: "command_fits c \<Longrightarrow> asks mem_env open_handler (message_of (request_for c)) c"
  by (cases c) (simp_all add: asks_def command_of_def authorized_def requested_def data_command_def
      request_default_def result_field_def)

lemma clients_see_map_witness:
  "\<exists>rs s'. call_all link_zmq (handleMessage mem_env open_handler)
      (map (\<lambda>c. (Client_local 8888 1000, message_of (request_for c), at_poll)) line_commands)
      (open_line empty_world) = (map Some rs, s') \<and>
    list_all2 (\<lambda>(c, a) r. shows_answer mem_pb c a (Some r))
      (zip line_commands
        [Done True, BlockData (Some ''bike''), BlockData None, AllData (Some [''bike'']),
         BlockData (Some ''bike''), Done True, HeaderData (Some (DB_VERSION, 1, ''car'')),
         ChainState (Some (DB_VERSION, 1)), Done True, AllData None]) rs"
proof -
  let ?calls = "map (\<lambda>c. (Client_local 8888 1000, message_of (request_for c), at_poll)) line_commands"
  have fits: "list_all command_fits line_commands" by (simp add: line_commands_def MAX_DATA_LENGTH_def)
  then have asks: "list_all2 (\<lambda>(cl, msg, m) c. Client_makeEndpointPath cl \<in> UNIV \<and> 0 < m 6 + m 7 \<and>
      asks mem_env open_handler msg c) ?calls line_commands"
    by (auto simp: list_all2_conv_all_nth list_all_length at_poll_def intro!: request_for_asks)
  have rep: "represents mem_env mem_view (hdl_manager open_handler) (databases (open_line empty_world)) Map.empty"
    by (simp add: represents_def)
  have pb: "pb_serves (env_pb mem_env)" using mem_pb_serves by simp
  have room: "room Map.empty (length line_commands)" by (simp add: line_commands_def)
  have run: "fst (map_run line_commands Map.empty) =
      [Done True, BlockData (Some ''bike''), BlockData None, AllData (Some [''bike'']),
       BlockData (Some ''bike''), Done True, HeaderData (Some (DB_VERSION, 1, ''car'')),
       ChainState (Some (DB_VERSION, 1)), Done True, AllData None]"
    by (simp add: line_commands_def)
  then have "list_all answer_fits (fst (map_run line_commands Map.empty))"
    by (simp add: blocks_fit_def PB_MAX_SIZE_def)
  from clients_see_map [OF mem_env_ok mem_env_live mem_keys_live pb link_zmq_wires_ok link_zmq_live
      open_line_free rep room this asks] run show ?thesis by auto
qed

end
