(* ===== verification/Profiling.thy ===== *)
theory Profiling
  imports Prelude
begin

text \<open>
  \<open>TrackTimeScope\<close> (src/System/Profiling.cpp) in a debug build; without \<open>_DEBUG_MODE\<close> its functions
  are empty.  The clock is read in nanoseconds and passed in; \<open>print\<close> gives the line it logs.
\<close>

record track_scope =
  ts_name :: string
  ts_startTime :: int
  ts_measureNumber :: size_t

definition TrackTimeScope_reset :: "int \<Rightarrow> track_scope \<Rightarrow> track_scope" where
  "TrackTimeScope_reset now t = t\<lparr>ts_startTime := now, ts_measureNumber := 0\<rparr>"

definition TrackTimeScope_new :: "string \<Rightarrow> int \<Rightarrow> track_scope" where
  "TrackTimeScope_new name now =
     TrackTimeScope_reset now \<lparr>ts_name = name, ts_startTime = 0, ts_measureNumber = 0\<rparr>"

text \<open>\<open>duration_cast\<close> truncates towards zero.\<close>

definition to_milliseconds :: "int \<Rightarrow> int" where
  "to_milliseconds d = (if 0 \<le> d then d div 1000000 else - (- d div 1000000))"

definition TrackTimeScope_print :: "int \<Rightarrow> track_scope \<Rightarrow> string \<times> track_scope" where
  "TrackTimeScope_print endTime t =
     (let resultMs = word_of_int (to_milliseconds (endTime - ts_startTime t)) :: size_t;
          line = ts_name t @ ''('' @ to_string (ts_measureNumber t) @ '') scope took '' @
            to_string resultMs @ '' ms''
      in (line, t\<lparr>ts_measureNumber := ts_measureNumber t + 1\<rparr>))"

text \<open>The line that the destructor logs.\<close>

definition TrackTimeScope_dtor :: "int \<Rightarrow> track_scope \<Rightarrow> string" where
  "TrackTimeScope_dtor now t = fst (TrackTimeScope_print now t)"

text \<open>The lines of a scope that is printed at the given times and then ends at \<open>stop\<close>.\<close>

fun print_all :: "int list \<Rightarrow> int \<Rightarrow> track_scope \<Rightarrow> string list" where
  "print_all [] stop t = [TrackTimeScope_dtor stop t]"
| "print_all (now # stamps) stop t =
     (let (line, t) = TrackTimeScope_print now t in line # print_all stamps stop t)"

lemma print_all_numbers:
  "k \<le> length stamps \<Longrightarrow>
    print_all stamps stop t ! k =
      fst (TrackTimeScope_print ((stamps @ [stop]) ! k) (t\<lparr>ts_measureNumber := ts_measureNumber t + word_of_nat k\<rparr>))"
proof (induction stamps arbitrary: t k)
  case Nil
  then show ?case by (simp add: TrackTimeScope_dtor_def)
next
  case (Cons now stamps)
  then show ?case
    by (cases k) (simp_all add: TrackTimeScope_print_def Let_def algebra_simps)
qed

end
