(* ===== verification/Spec2Isabelle.thy ===== *)
theory Spec2Isabelle
  imports Live_Properties Profiling
begin

text \<open>
  ChainDB: a service that stores block chains in local databases.

  \<^bold>\<open>The program.\<close>  A client (cli/src/Application.cpp) turns its options into one request, sends it over
  ZeroMQ and prints the response.  The service (src/Main.cpp, src/ChainDB.cpp) parses its own
  options, becomes a daemon, and runs a server thread (src/Network/Server/Server.cpp) that receives
  one message after the other and passes each to the request handler (src/Handler.cpp).  The handler
  parses the message, checks the password, calls one operation of the chain manager
  (src/Storage/Manager.cpp) and serialises the answer.  The manager keeps one database per chain,
  through Chain (src/Storage/Chain.cpp) and Storage (src/Storage/Storage.cpp), and makes the chain
  what it is: every block is hashed together with its predecessor's hash and signed with the chain's
  key (src/Crypto).

  \<^bold>\<open>Theories of the model\<close>, each with the definitions that translate its files and the lemmas about
  them; definitions have the names of the functions, prefixed by their class where they clash.

  \<^item> Prelude: strings, \<open>size_t\<close>, decimal numerals, paths.  Build_Config: constants of
    include/Defs.h, cmake/Config.cmake and include/Storage/Protocol.h.
  \<^item> Data_Array (include/Crypto/Data.h), Random_Source, SHA256, ECDSA (src/Crypto): fixed-size byte
    arrays as a type indexed by its length; the wrappers of OpenSSL and libsecp256k1.
  \<^item> Messages (src/proto): the protocol buffer messages and the sizes of their encodings; the locale
    \<open>codec\<close> of an encoder with a decoder that undoes it, interpreted for headers and for block
    containers.
  \<^item> Block, Storage, Chain, Manager (src/Storage): the storage layer.  A chain's operation runs on a
    local Storage object that its destructor closes on every path (\<open>scoped_storage\<close>).
  \<^item> Storage_Life: the calls a program may make on one Storage object between its creation and its
    end, \<open>remove\<close> included, and the map, which may be missing and may be open, that explains their
    results (\<open>explains\<close>), disk faults included.
  \<^item> Hash_Chain: what \<open>verifyChain\<close> decides, as a recursive predicate \<open>verified\<close>; the index loop
    computes it; collisions of the hash function as the only way to change a chain under its last
    hash.  Chain_Service: the abstract state \<open>chain_ledger\<close> of a chain (a header and a list of
    blocks) and the effect of every manager operation on it, input/output faults included.
    History: sequences of operations, the locale \<open>ledger_steps\<close>, the invariant \<open>sound_chain\<close>.
  \<^item> Message, Handler, Answers: the message buffer, the request handler and the answers it makes.
    \<open>command_of\<close> reads a message as a command of the manager; the handler is the second
    interpretation of \<open>ledger_steps\<close>.  \<open>stored_fits\<close> says that the stored data make no response
    beyond the 2 GB that protocol buffers serialise.
  \<^item> Chain_Map: the manager without faults as a map from chain numbers to lists of data
    (\<open>map_step\<close>, \<open>map_run\<close>), the databases that \<open>represents\<close> relates to a map, and the simulation of
    any list of commands by it while there is \<open>room\<close> in the counters.  Service_Map: what a reply
    must contain to tell the result of the map's command (\<open>shows_answer\<close>), and the handler's
    replies do.
  \<^item> Zmq, Server, Client, Replies: the server thread as a state machine (\<open>server_step\<close>,
    \<open>server_runs\<close>), the client's \<open>sendMessage\<close>, which network objects they hold and what they send.
    The thread is at the test of its loop (\<open>Serving\<close>), in the body (\<open>Turning\<close>), in its last call
    \<open>zmq_ctx_destroy\<close> (\<open>Closing\<close>) or at its end (\<open>Finished\<close>); a call of \<open>stop\<close> may come in each of
    them, and one that comes in the body is seen only at the next test.  \<open>zmq_ctx_destroy\<close> may fail
    and may block: a call of \<open>sendMessage\<close> ends as a \<open>call_end\<close>, which returns or hangs.
  \<^item> Conversation: the two next to each other over one network.  \<open>alongside\<close> is the library as the
    client sees it when a schedule of server steps and other traffic runs between its calls;
    \<open>evolves\<close> and \<open>relies\<close> say what the client can rely on meanwhile.  Remote_Call: what a call of
    \<open>sendMessage\<close> means then, and calls of several clients one after another (\<open>later\<close>, \<open>online\<close>);
    \<open>recorded\<close> is a handler that also keeps the list of the messages it has handled.
  \<^item> Live_Call: progress.  When the network works (\<open>link_live\<close>) and the server waits (\<open>waiting\<close>), a
    call of the client is answered if the server takes a turn (\<open>serve\<close>) while the client releases
    its request or polls, with any number of turns at other times (\<open>turns\<close>).
  \<^item> Restarts: processes of the service one after another over one directory (\<open>service_lives\<close>).  A
    process that is killed is a process whose database calls fail from some call on
    (\<open>mortal_env\<close>); it goes on in the model, but nothing reaches the disk any more.
  \<^item> Forgery: what can be made of a chain by writing to its database.
  \<^item> Arguments, Service, Command_Line: the command line parser and the two programs; Profiling: the
    timer of debug builds.

  \<^bold>\<open>Theories of the properties.\<close>  Storage_Properties, Service_Properties, Network_Properties and
  Live_Properties state the properties, each with a witness on a concrete run.  Memory_Env, Memory_Net
  and Memory_Link give implementations of all external libraries in memory, which meet every law
  below, and Example_Run, Memory_Net and Memory_Link run the model on them.  The witness of
  \<open>manager_refines_map\<close> runs the calls of the repository's own tests of the manager
  (src/tests/Storage/Manager_test.cpp), with shorter texts and fewer blocks.

  \<^bold>\<open>State.\<close>  The outside world is a type variable \<open>'w\<close> that every call takes and returns (the
  server keeps the databases \<open>'d\<close> and the network \<open>'n\<close> apart).  A null pointer is \<open>None\<close>, a status
  the first component of a result.  In operations that may not return, the outer \<open>None\<close> is a loop
  without end or a null dereference, and \<open>Hangs\<close> a call of \<open>zmq_ctx_destroy\<close> that blocks (the other
  calls of ZeroMQ are taken to return).  \<open>getBlocks_loop\<close> is a \<open>partial_function\<close>, because its
  \<open>size_t\<close> counter never passes the bound \<open>2^64 - 1\<close>; \<open>verify_loop\<close> has a measure.  No definition
  uses fuel.  Theorems that need the counters not to wrap bound the number of blocks by \<open>2^64 - 1\<close>,
  which no history of fewer steps reaches.

  \<^bold>\<open>External code\<close> is an argument of the definitions, with named laws of two kinds.  The first kind
  states documented behaviour that holds whatever fails: \<open>db_ok\<close> and \<open>db_locked\<close> of LevelDB/RocksDB
  (\<open>db_lib\<close>: an open database is locked, creation, atomic synchronous batches, checked reads, a
  locked database is not destroyed), \<open>rand_ok\<close> and \<open>sha_ok\<close> of OpenSSL (\<open>rand_lib\<close>, \<open>sha_lib\<close>: a digest
  is a function of the bytes absorbed), \<open>ec_ok\<close> of libsecp256k1 (\<open>ec_lib\<close>), \<open>pb_ok\<close> of the code
  generated by protoc (\<open>pb_lib\<close>: what serialises parses back), \<open>zmq_ok\<close> (objects), \<open>traffic_ok\<close>
  (requests and replies of one program) and \<open>wires_ok\<close> (routing between two) of ZeroMQ (\<open>zmq_lib\<close>),
  and \<open>posix_ok\<close> of POSIX and the log file (\<open>posix_lib\<close>).  \<open>env_ok\<close> collects those of the storage
  layer.  The second kind assumes that calls do not fail, and a property that needs it says so:
  \<open>db_live\<close>, \<open>rand_live\<close>, \<open>sha_live\<close>, \<open>ec_live\<close>, \<open>keys_live\<close>, collected in \<open>env_live\<close> (but for \<open>keys_live\<close>),
  \<open>link_live\<close> (calls succeed, messages arrive and nothing stays to be sent, in a set of good states
  that no call leaves), and \<open>pb_live\<close> and \<open>pb_serves\<close>, which assume it only of messages below the
  documented limit of 2 GB.  Of \<open>zmq_ctx_destroy\<close> the laws of the first kind say only that a call
  that returns 0 has released the context and one that returns anything else has not.

  \<^bold>\<open>What is shown.\<close>  Storage: the calls on one Storage object refine a map; \<open>addBlock\<close> refines
  appending to a list whatever faults occur; \<open>createChain\<close>, \<open>removeChain\<close>, \<open>getBlock\<close>, \<open>getBlocks\<close>
  do what they promise and touch no other chain; \<open>verifyChain\<close> decides the predicate and
  dereferences null exactly on the databases described; a properly created chain verifies after any
  history that does not remove it; a chain cannot be changed under its last hash without a hash collision,
  but whoever can write the database can cut it off and continue it with other blocks.  Handler:
  every message is answered while the answers stay below 2 GB, every answer is well-formed, and every
  message has the effect of at most one command; unauthorized and oversized requests change nothing;
  \<open>SUCCESS\<close> is never claimed wrongly.  Server and client: any run of the server is a history of
  whole messages, its replies are the handler's in their order; sockets and messages are released on
  every path, contexts unless \<open>zmq_ctx_destroy\<close> fails or blocks; after a signal the server handles at
  most the one message whose turn has begun, and can end unless the handler or \<open>zmq_ctx_destroy\<close> does
  not return; a run of the client has the effect its options name, at most once.
  Both together: a reply that the client gets is the handler's reply to its message, given at one
  moment of the call, and exit code 0 means that the command was executed; a block that one client
  was told is stored is in every later list of the chain's blocks.  Over a working network, next
  to a service that waits, and with answers below 2 GB, the client also gets there: it ends with exit code 0 and its command has been executed, and clients run one
  after another store their blocks in order.  Without faults the whole program is a map from chain
  numbers to lists of data: the manager refines it, and the replies that clients get over the network
  are the results of running their commands on it, one after another.  A sound chain stays sound and
  only grows over any number of processes of the service, whether they end or are killed.
  Command lines: parsing is in order and inverts printing for the service's options.  Behaviour that
  looks unintended (the wrap-around of the counter, a null dereference, a half-made database, a server
  that a lost reply silences, success reported when the port is taken) is stated in theorems of its
  own.

  \<^bold>\<open>Not modelled.\<close>  The text that goes to the log and to the console other than the parser's (output
  only); the levels and the default logger of spdlog (\<open>initializeLogger\<close> models only its
  rotating file and the exception when that cannot be opened); the secp256k1 context object (no state the
  code observes); allocation failure and the failure of starting a thread; concurrent access to the
  databases from outside the process, which the lock of an open database excludes only while it is
  open; how the database library recovers a batch that was being written when the process died, which
  its law makes atomic; the tests.
\<close>

end
